(* ===== verification/Machine.thy ===== *)
theory Machine
  imports Main
begin

text \<open>
  Programs as machines: a step that a move makes possible or not, and runs of many moves. The
  store of the deduplication, the process, the program, the crowd of goroutines and the traffic
  of the server are machines; what holds of runs in general is shown here once.
\<close>

fun runs :: "('m \<Rightarrow> 's \<Rightarrow> 's option) \<Rightarrow> 'm list \<Rightarrow> 's \<Rightarrow> 's option" where
  "runs f [] s = Some s"
| "runs f (m # ms) s = (case f m s of None \<Rightarrow> None | Some s' \<Rightarrow> runs f ms s')"

lemma runs_Cons:
  assumes "runs f (m # ms) s = Some u"
  obtains t where "f m s = Some t" "runs f ms t = Some u"
  using assms by (auto split: option.splits)

lemma runs_append: "runs f (ms @ ns) s = (case runs f ms s of None \<Rightarrow> None | Some t \<Rightarrow> runs f ns t)"
  by (induction ms arbitrary: s) (auto split: option.splits)

lemma runs_join: "runs f ms s = Some t \<Longrightarrow> runs f ns t = Some u \<Longrightarrow> runs f (ms @ ns) s = Some u"
  by (simp add: runs_append)

text \<open>What every step keeps, a run keeps.\<close>

lemma runs_keep:
  assumes "runs f ms s = Some t" "P s" "\<And>m s t. m \<in> set ms \<Longrightarrow> f m s = Some t \<Longrightarrow> P s \<Longrightarrow> P t"
  shows "P t"
  using assms
proof (induction ms arbitrary: s)
  case (Cons m ms)
  from Cons.prems(1) obtain s' where s: "f m s = Some s'" "runs f ms s' = Some t" by (rule runs_Cons)
  show ?case
  proof (rule Cons.IH [OF s(2)])
    show "P s'" using Cons.prems(2,3) s(1) by auto
  qed (use Cons.prems(3) in auto)
qed simp

text \<open>A machine within another: the moves of the one are moves of the other.\<close>

lemma runs_embed:
  assumes "runs f ms s = Some t" "R s p"
    and "\<And>m s t p. m \<in> set ms \<Longrightarrow> f m s = Some t \<Longrightarrow> R s p \<Longrightarrow> g (h m) p = Some (up t p) \<and> R t (up t p)"
    and "\<And>s t p. up t (up s p) = up t p" "up s p = p"
  shows "runs g (map h ms) p = Some (up t p)"
  using assms
proof (induction ms arbitrary: s p)
  case (Cons m ms)
  from Cons.prems(1) obtain s' where s: "f m s = Some s'" "runs f ms s' = Some t" by (rule runs_Cons)
  have p: "g (h m) p = Some (up s' p)" "R s' (up s' p)" using Cons.prems(2,3) s(1) by auto
  have "runs g (map h ms) (up s' p) = Some (up t (up s' p))"
    by (rule Cons.IH [OF s(2) p(2)]) (use Cons.prems(3,4) in auto)
  then show ?case using p(1) Cons.prems(4) by simp
qed simp

text \<open>
  A machine with the moves that its surroundings make, and the states that it can get into. The
  states are given by a relation of their own; that they are closed under the moves is what the
  machine has to show.
\<close>

locale machine =
  fixes step :: "'m \<Rightarrow> 's \<Rightarrow> 's option"
    and made :: "'m \<Rightarrow> bool"
    and state :: "'s \<Rightarrow> bool"
  assumes state_step: "state s \<Longrightarrow> made m \<Longrightarrow> step m s = Some t \<Longrightarrow> state t"
begin

lemma state_runs: "runs step ms s = Some t \<Longrightarrow> list_all made ms \<Longrightarrow> state s \<Longrightarrow> state t"
  by (erule runs_keep) (auto simp: list_all_iff intro: state_step)

end

end
