(* ===== verification/Prelude.thy ===== *)
theory Prelude
  imports Main "HOL-Library.Sublist"
begin

text \<open>
  Names, types and generic facts that every component of the development shares.

  Go values: a Go \<open>string\<close> or \<open>[]byte\<close> is Isabelle's \<open>string\<close>, a list of
  8-bit characters, so that indexing, length and substring search are those of the bytes
  the program handles. A Go \<open>int\<close> or \<open>int64\<close> is an \<open>int\<close>; the two places
  where the width matters (reading a number and printing it back) carry the bounds
  explicitly. A function that returns a value or an error is of a sum type whose left side
  is the error, and a pointer that may be nil is an \<open>option\<close>.
\<close>

named_theorems go_strings \<open>facts on the byte strings of the model\<close>
named_theorems go_eval \<open>defining equations used to run the model on concrete input\<close>

type_synonym int64 = int
type_synonym rune = int

abbreviation int64_min :: int where "int64_min \<equiv> - 9223372036854775808"
abbreviation int64_max :: int where "int64_max \<equiv> 9223372036854775807"

definition int64_range :: "int \<Rightarrow> bool" where
  "int64_range n \<longleftrightarrow> int64_min \<le> n \<and> n \<le> int64_max"

text \<open>
  Go errors, as far as they differ for the program: the text of an error that it builds
  itself, an error of the JSON decoder, an error of the network with its answers to
  \<open>Timeout\<close> and to the search for a \<open>DNSError\<close>, an error of the infrastructure
  client with its code and message, and the end of a context.
\<close>

datatype goerror =
    ErrorText string
  | DecodeError
  | NetError bool bool
  | UpstreamError string string
  | ContextError

text \<open>
  \<open>x, err := f(); if err != nil { return err }; ...\<close>: the rest runs on the value, and an
  error ends the function.
\<close>

definition andThen :: "'e + 'a \<Rightarrow> ('a \<Rightarrow> 'e + 'b) \<Rightarrow> 'e + 'b" where
  "andThen x f = (case x of Inl e \<Rightarrow> Inl e | Inr y \<Rightarrow> f y)"

lemma andThen_simps [simp]: "andThen (Inl e) f = Inl e" "andThen (Inr y) f = f y"
  by (simp_all add: andThen_def)

lemma andThen_Inr_iff: "andThen x f = Inr z \<longleftrightarrow> (\<exists>y. x = Inr y \<and> f y = Inr z)"
  by (cases x) auto

lemma andThen_Inl_iff: "andThen x f = Inl e \<longleftrightarrow> x = Inl e \<or> (\<exists>y. x = Inr y \<and> f y = Inl e)"
  by (cases x) auto

section \<open>Generic lemmas\<close>

lemma sum_Inr_iff: "(case x of Inl e \<Rightarrow> Inl e | Inr y \<Rightarrow> f y) = Inr z \<longleftrightarrow> (\<exists>y. x = Inr y \<and> f y = Inr z)"
  by (cases x) auto

lemma sum_Inl_iff:
  "(case x of Inl e \<Rightarrow> Inl e | Inr y \<Rightarrow> f y) = Inl z \<longleftrightarrow> x = Inl z \<or> (\<exists>y. x = Inr y \<and> f y = Inl z)"
  by (cases x) auto

lemma if_Inl_eq_Inr [simp]:
  "(if b then Inl e else r) = Inr y \<longleftrightarrow> \<not> b \<and> r = Inr y"
  "(if b then r else Inl e) = Inr y \<longleftrightarrow> b \<and> r = Inr y"
  by auto

lemma takeWhile_all: "list_all P (takeWhile P xs)"
  by (induction xs) auto

lemma length_dropWhile_less: "xs \<noteq> [] \<Longrightarrow> P (hd xs) \<Longrightarrow> length (dropWhile P xs) < length xs"
  by (cases xs) (auto simp: length_dropWhile_le le_imp_less_Suc)

lemma concat_map_eq_Nil: "concat (map f xs) = [] \<longleftrightarrow> (\<forall>x \<in> set xs. f x = [])"
  by auto

lemma sublist_length_eq: "sublist xs ys \<Longrightarrow> sublist ys xs \<Longrightarrow> xs = ys"
  by (rule sublist_order.order.antisym)

lemma sublist_trans: "sublist xs ys \<Longrightarrow> sublist ys zs \<Longrightarrow> sublist xs zs"
  by (rule sublist_order.order.trans)

end
