(* ===== verification/Gostring.thy ===== *)
theory Gostring
  imports Prelude
begin

text \<open>
  What the program uses of Go's \<open>strings\<close>, \<open>bytes\<close>, \<open>strconv\<close>, \<open>unicode/utf8\<close>
  and \<open>encoding/hex\<close>: the encoding of runes, substring search, replacement, trimming,
  decimal numbers. Literals of the source that are not ASCII are written as the list of
  their code points under \<open>utf8\<close>.
\<close>

section \<open>Bytes and UTF-8\<close>

definition byte :: "int \<Rightarrow> char" where
  "byte n = char_of n"

definition code :: "char \<Rightarrow> int" where
  "code c = of_char c"

lemma code_byte [simp]: "code (byte n) = n mod 256"
  by (simp add: code_def byte_def)

lemma byte_code [simp]: "byte (code c) = c"
  by (simp add: code_def byte_def)

lemma code_bounds: "0 \<le> code c" "code c < 256"
  using pos_mod_bound [of 256 "of_char c :: int"] pos_mod_sign [of 256 "of_char c :: int"]
  by (simp_all add: code_def)

lemma code_inject [simp]: "code c = code d \<longleftrightarrow> c = d"
  by (metis byte_code)

lemma byte_eq_iff: "0 \<le> m \<Longrightarrow> m < 256 \<Longrightarrow> byte m = c \<longleftrightarrow> m = code c"
  by (metis byte_code code_byte mod_pos_pos_trivial)

lemma code_byte_small: "0 \<le> n \<Longrightarrow> n < 256 \<Longrightarrow> code (byte n) = n"
  by simp

text \<open>\<open>utf8.AppendRune\<close>: a surrogate or a value out of range is written as U+FFFD.\<close>

definition valid_rune :: "rune \<Rightarrow> bool" where
  "valid_rune r \<longleftrightarrow> 0 \<le> r \<and> r \<le> 0x10FFFF \<and> \<not> (0xD800 \<le> r \<and> r \<le> 0xDFFF)"

definition enc_valid :: "rune \<Rightarrow> string" where
  "enc_valid r =
    (if r < 0x80 then [byte r]
     else if r < 0x800 then [byte (0xC0 + r div 64), byte (0x80 + r mod 64)]
     else if r < 0x10000 then
       [byte (0xE0 + r div 4096), byte (0x80 + r div 64 mod 64), byte (0x80 + r mod 64)]
     else [byte (0xF0 + r div 262144), byte (0x80 + r div 4096 mod 64),
           byte (0x80 + r div 64 mod 64), byte (0x80 + r mod 64)])"

definition enc_rune :: "rune \<Rightarrow> string" where
  "enc_rune r = enc_valid (if valid_rune r then r else 0xFFFD)"

definition utf8 :: "rune list \<Rightarrow> string" where
  "utf8 rs = concat (map enc_rune rs)"

text \<open>
  \<open>utf8.DecodeRune\<close>: the rune at the front of a non-empty string with the rest of the
  string after it; an invalid sequence is U+FFFD and one byte wide.
\<close>

definition cont :: "char \<Rightarrow> bool" where
  "cont c \<longleftrightarrow> 0x80 \<le> code c \<and> code c \<le> 0xBF"

definition second_ok :: "int \<Rightarrow> char \<Rightarrow> bool" where
  "second_ok a c \<longleftrightarrow>
     (if a = 0xE0 then 0xA0 else if a = 0xF0 then 0x90 else 0x80) \<le> code c \<and>
     code c \<le> (if a = 0xED then 0x9F else if a = 0xF4 then 0x8F else 0xBF)"

fun decode_rune :: "string \<Rightarrow> rune \<times> string" where
  "decode_rune [] = (0xFFFD, [])"
| "decode_rune (c # s) =
    (let a = code c in
     if a < 0x80 then (a, s)
     else if 0xC2 \<le> a \<and> a \<le> 0xDF then
       (case s of c1 # s1 \<Rightarrow>
          if second_ok a c1 then ((a - 0xC0) * 64 + (code c1 - 0x80), s1) else (0xFFFD, s)
        | _ \<Rightarrow> (0xFFFD, s))
     else if 0xE0 \<le> a \<and> a \<le> 0xEF then
       (case s of c1 # c2 # s2 \<Rightarrow>
          if second_ok a c1 \<and> cont c2
          then ((a - 0xE0) * 4096 + (code c1 - 0x80) * 64 + (code c2 - 0x80), s2)
          else (0xFFFD, s)
        | _ \<Rightarrow> (0xFFFD, s))
     else if 0xF0 \<le> a \<and> a \<le> 0xF4 then
       (case s of c1 # c2 # c3 # s3 \<Rightarrow>
          if second_ok a c1 \<and> cont c2 \<and> cont c3
          then ((a - 0xF0) * 262144 + (code c1 - 0x80) * 4096 + (code c2 - 0x80) * 64
                + (code c3 - 0x80), s3)
          else (0xFFFD, s)
        | _ \<Rightarrow> (0xFFFD, s))
     else (0xFFFD, s))"

declare decode_rune.simps(2) [simp del]

lemma decode_rune_shorter: "s \<noteq> [] \<Longrightarrow> length (snd (decode_rune s)) < length s"
  by (cases s) (auto simp: decode_rune.simps(2) Let_def split: list.splits)

function runes :: "string \<Rightarrow> rune list" where
  "runes s = (if s = [] then [] else fst (decode_rune s) # runes (snd (decode_rune s)))"
  by pat_completeness auto
termination
  by (relation "measure length") (auto simp: decode_rune_shorter)

declare runes.simps [simp del]

lemma runes_Nil [simp]: "runes [] = []"
  by (subst runes.simps) simp

text \<open>\<open>utf8.RuneCountInString(s)\<close>, and \<open>len([]rune(s))\<close>.\<close>

definition RuneCountInString :: "string \<Rightarrow> int" where
  "RuneCountInString s = int (length (runes s))"


section \<open>Substrings\<close>

definition HasPrefix :: "string \<Rightarrow> string \<Rightarrow> bool" where
  "HasPrefix s p = prefix p s"

definition TrimPrefix :: "string \<Rightarrow> string \<Rightarrow> string" where
  "TrimPrefix s p = (if HasPrefix s p then drop (length p) s else s)"

fun Contains :: "string \<Rightarrow> string \<Rightarrow> bool" where
  "Contains [] sub = (sub = [])"
| "Contains (c # s) sub = (HasPrefix (c # s) sub \<or> Contains s sub)"

lemma Contains_iff [go_strings]: "Contains s sub \<longleftrightarrow> sublist sub s"
  by (induction s) (auto simp: HasPrefix_def sublist_Cons_right)

text \<open>\<open>strings.ContainsAny(s, chars)\<close> for a set of ASCII characters.\<close>

definition ContainsAny :: "string \<Rightarrow> string \<Rightarrow> bool" where
  "ContainsAny s chars = list_ex (\<lambda>c. c \<in> set chars) s"

text \<open>\<open>strings.ReplaceAll(s, old, new)\<close> for a non-empty \<open>old\<close>, the only use here.\<close>

function ReplaceAll :: "string \<Rightarrow> string \<Rightarrow> string \<Rightarrow> string" where
  "ReplaceAll s old new =
    (if s = [] \<or> old = [] then s
     else if HasPrefix s old then new @ ReplaceAll (drop (length old) s) old new
     else hd s # ReplaceAll (tl s) old new)"
  by pat_completeness auto
termination
  by (relation "measure (\<lambda>(s, old, new). length s)") auto

declare ReplaceAll.simps [simp del]

fun Join :: "string list \<Rightarrow> string \<Rightarrow> string" where
  "Join [] sep = []"
| "Join [x] sep = x"
| "Join (x # y # xs) sep = x @ sep @ Join (y # xs) sep"

text \<open>\<open>strings.TrimRight(s, cutset)\<close> for a cutset of one ASCII character.\<close>

definition TrimRight :: "string \<Rightarrow> char \<Rightarrow> string" where
  "TrimRight s c = rev (dropWhile (\<lambda>d. d = c) (rev s))"

section \<open>Trimming white space\<close>

text \<open>\<open>unicode.IsSpace\<close>.\<close>

definition IsSpace :: "rune \<Rightarrow> bool" where
  "IsSpace r \<longleftrightarrow> 9 \<le> r \<and> r \<le> 13 \<or> r = 32 \<or> r = 0x85 \<or> r = 0xA0 \<or> r = 0x1680 \<or>
     0x2000 \<le> r \<and> r \<le> 0x200A \<or> r = 0x2028 \<or> r = 0x2029 \<or> r = 0x202F \<or> r = 0x205F \<or>
     r = 0x3000"

lemma not_IsSpace_error [simp]: "\<not> IsSpace 0xFFFD"
  by (simp add: IsSpace_def)

function trim_left :: "string \<Rightarrow> string" where
  "trim_left s =
    (if s = [] then [] else if IsSpace (fst (decode_rune s)) then trim_left (snd (decode_rune s)) else s)"
  by pat_completeness auto
termination
  by (relation "measure length") (auto simp: decode_rune_shorter)

declare trim_left.simps [simp del]

text \<open>
  \<open>utf8.DecodeLastRuneInString\<close>: the last byte that starts a rune is looked for at most
  four bytes back, and the sequence from there must end the string.
\<close>

definition last_width :: "string \<Rightarrow> nat" where
  "last_width s =
    (if code (last s) < 0x80 then 1
     else case find (\<lambda>n. n \<le> length s \<and> \<not> cont (s ! (length s - n))) [2, 3, 4] of
       Some n \<Rightarrow> (if snd (decode_rune (drop (length s - n) s)) = [] then n else 1)
     | None \<Rightarrow> 1)"

definition DecodeLastRune :: "string \<Rightarrow> rune \<times> string" where
  "DecodeLastRune s =
    (let w = last_width s; r = fst (decode_rune (drop (length s - w) s))
     in (r, take (length s - w) s))"

lemma last_width_pos: "0 < last_width s"
  by (auto simp: last_width_def find_Some_iff split: option.splits)

lemma DecodeLastRune_shorter: "s \<noteq> [] \<Longrightarrow> length (snd (DecodeLastRune s)) < length s"
  using last_width_pos [of s] by (simp add: DecodeLastRune_def Let_def)

function trim_right :: "string \<Rightarrow> string" where
  "trim_right s =
    (if s = [] then []
     else if IsSpace (fst (DecodeLastRune s)) then trim_right (snd (DecodeLastRune s)) else s)"
  by pat_completeness auto
termination
  by (relation "measure length") (auto simp: DecodeLastRune_shorter)

declare trim_right.simps [simp del]

definition TrimSpace :: "string \<Rightarrow> string" where
  "TrimSpace s = trim_right (trim_left s)"

section \<open>Facts on the encoding\<close>

lemma runes_step: "s \<noteq> [] \<Longrightarrow> runes s = fst (decode_rune s) # runes (snd (decode_rune s))"
  by (subst runes.simps) simp

text \<open>The digits of a number to the base 64, which the encoding takes apart.\<close>

lemma base64_digits:
  assumes "0 \<le> (r::int)"
  obtains x y z w where "r = x * 262144 + y * 4096 + z * 64 + w"
    "0 \<le> x" "0 \<le> y" "y < 64" "0 \<le> z" "z < 64" "0 \<le> w" "w < 64"
    and "r div 262144 = x" "r div 4096 = x * 64 + y" "r div 64 = x * 4096 + y * 64 + z"
    "r mod 64 = w" "r div 64 mod 64 = z" "r div 4096 mod 64 = y"
proof
  define q p where "q = r div 64" and "p = q div 64"
  have "r div 4096 = r div 64 div 64" "r div 262144 = r div 4096 div 64"
    using zdiv_zmult2_eq [of 64 r 64] zdiv_zmult2_eq [of 64 r 4096] by simp_all
  then have d: "r div 4096 = p" "r div 262144 = p div 64" by (simp_all only: q_def p_def)
  have e: "r = q * 64 + r mod 64" "q = p * 64 + q mod 64" "p = p div 64 * 64 + p mod 64"
    by (simp_all add: q_def p_def)
  show "r div 262144 = p div 64" "r div 4096 mod 64 = p mod 64" "r div 64 mod 64 = q mod 64"
    using d by (simp_all add: q_def)
  show "r div 4096 = p div 64 * 64 + p mod 64" using d(1) by simp
  obtain x y z w where v: "x = p div 64" "y = p mod 64" "z = q mod 64" "w = r mod 64" by simp
  show "r div 64 = p div 64 * 4096 + p mod 64 * 64 + q mod 64"
    using e(2,3) unfolding q_def [symmetric] v [symmetric] by linarith
  show "r = p div 64 * 262144 + p mod 64 * 4096 + q mod 64 * 64 + r mod 64"
    using e unfolding v [symmetric] by linarith
  show "0 \<le> p div 64" using assms by (simp add: q_def p_def pos_imp_zdiv_nonneg_iff)
  show "0 \<le> p mod 64" "p mod 64 < 64" "0 \<le> q mod 64" "q mod 64 < 64" "0 \<le> r mod 64" "r mod 64 < 64"
    by simp_all
qed (rule refl)

lemma decode_enc_valid: "valid_rune r \<Longrightarrow> decode_rune (enc_valid r @ s) = (r, s)"
proof -
  assume v: "valid_rune r"
  then have b: "0 \<le> r" "r \<le> 0x10FFFF" "\<not> (0xD800 \<le> r \<and> r \<le> 0xDFFF)" by (simp_all add: valid_rune_def)
  obtain x y z w where r: "r = x * 262144 + y * 4096 + z * 64 + w"
    and n: "0 \<le> x" "0 \<le> y" "y < 64" "0 \<le> z" "z < 64" "0 \<le> w" "w < 64"
    and d: "r div 262144 = x" "r div 4096 = x * 64 + y" "r div 64 = x * 4096 + y * 64 + z"
    "r mod 64 = w" "r div 64 mod 64 = z" "r div 4096 mod 64 = y"
    by (rule base64_digits [OF b(1)])
  consider "r < 0x80" | "0x80 \<le> r" "r < 0x800" | "0x800 \<le> r" "r < 0x10000" | "0x10000 \<le> r"
    by linarith
  then show ?thesis
  proof cases
    case 1
    then show ?thesis using b by (simp add: enc_valid_def decode_rune.simps(2))
  next
    case 2
    then have "x = 0" "y = 0" using r n by linarith+
    with 2 have c: "x = 0" "y = 0" "2 \<le> z" "z < 32" using r n by linarith+
    have "enc_valid r = [byte (0xC0 + z), byte (0x80 + w)]"
      using 2 c d by (simp add: enc_valid_def)
    then show ?thesis using c n r by (simp add: decode_rune.simps(2) Let_def second_ok_def)
  next
    case 3
    then have "x = 0" using r n by linarith
    with 3 have c: "x = 0" "y < 16" "y = 0 \<Longrightarrow> 32 \<le> z" "y = 13 \<Longrightarrow> z \<le> 31" using r n b by linarith+
    have "enc_valid r = [byte (0xE0 + y), byte (0x80 + z), byte (0x80 + w)]"
      using 3 c d by (simp add: enc_valid_def)
    then show ?thesis using c n r by (simp add: decode_rune.simps(2) Let_def second_ok_def cont_def)
  next
    case 4
    then have c: "x < 5" "x = 0 \<Longrightarrow> 16 \<le> y" "x = 4 \<Longrightarrow> y \<le> 15" using r n b by linarith+
    from 4 have "\<not> r < 0x80" "\<not> r < 0x800" "\<not> r < 0x10000" by linarith+
    then have "enc_valid r = [byte (0xF0 + x), byte (0x80 + y), byte (0x80 + z), byte (0x80 + w)]"
      by (simp only: enc_valid_def d(1,4,5,6) if_False)
    then show ?thesis using c n r by (simp add: decode_rune.simps(2) Let_def second_ok_def cont_def)
  qed
qed

lemma enc_valid_ne: "enc_valid r \<noteq> []"
  by (simp add: enc_valid_def)

lemma utf8_Nil [simp]: "utf8 [] = []"
  and utf8_Cons: "utf8 (r # rs) = enc_rune r @ utf8 rs"
  and utf8_append: "utf8 (rs @ qs) = utf8 rs @ utf8 qs"
  by (simp_all add: utf8_def)

lemma runes_utf8 [go_strings]: "list_all valid_rune rs \<Longrightarrow> runes (utf8 rs) = rs"
proof (induction rs)
  case (Cons r rs)
  then show ?case
    using enc_valid_ne [of r] by (simp add: utf8_Cons enc_rune_def runes_step decode_enc_valid)
qed simp

lemma RuneCount_utf8: "list_all valid_rune rs \<Longrightarrow> RuneCountInString (utf8 rs) = int (length rs)"
  by (simp add: RuneCountInString_def runes_utf8)

section \<open>Facts on trimming\<close>

lemma decode_rune_suffix: "suffix (snd (decode_rune s)) s"
proof (cases s)
  case (Cons c t)
  then show ?thesis
    by (auto simp: decode_rune.simps(2) Let_def suffix_ConsI split: list.splits)
qed simp

lemma trim_left_suffix: "suffix (trim_left s) s"
proof (induction s rule: trim_left.induct)
  case (1 s)
  then show ?case
    using decode_rune_suffix [of s] suffix_order.trans
    by (subst trim_left.simps) auto
qed

lemma trim_right_prefix: "prefix (trim_right s) s"
proof (induction s rule: trim_right.induct)
  case (1 s)
  have "prefix (snd (DecodeLastRune s)) s" by (simp add: DecodeLastRune_def Let_def take_is_prefix)
  with 1 show ?case
    using prefix_order.trans by (subst trim_right.simps) auto
qed

lemma trim_left_fixed: "trim_left (trim_left s) = trim_left s"
proof (induction s rule: trim_left.induct)
  case (1 s)
  show ?case
  proof (cases "s \<noteq> [] \<and> IsSpace (fst (decode_rune s))")
    case True
    then have "trim_left s = trim_left (snd (decode_rune s))" by (subst trim_left.simps) simp
    with 1 True show ?thesis by simp
  next
    case False
    then have "trim_left s = s" by (subst trim_left.simps) auto
    then show ?thesis by simp
  qed
qed

lemma trim_right_fixed: "trim_right (trim_right s) = trim_right s"
proof (induction s rule: trim_right.induct)
  case (1 s)
  show ?case
  proof (cases "s \<noteq> [] \<and> IsSpace (fst (DecodeLastRune s))")
    case True
    then have "trim_right s = trim_right (snd (DecodeLastRune s))" by (subst trim_right.simps) simp
    with 1 True show ?thesis by simp
  next
    case False
    then have "trim_right s = s" by (subst trim_right.simps) auto
    then show ?thesis by simp
  qed
qed

lemma trim_left_id_iff: "trim_left s = s \<longleftrightarrow> s = [] \<or> \<not> IsSpace (fst (decode_rune s))"
proof -
  have "length (trim_left (snd (decode_rune s))) < length s" if "s \<noteq> []"
    using that decode_rune_shorter [of s] suffix_length_le [OF trim_left_suffix [of "snd (decode_rune s)"]]
    by simp
  then show ?thesis by (subst trim_left.simps) auto
qed

text \<open>Cutting a string short can only turn its first rune into the error rune.\<close>

lemma decode_rune_prefix:
  "prefix p s \<Longrightarrow> p \<noteq> [] \<Longrightarrow> fst (decode_rune p) = fst (decode_rune s) \<or> fst (decode_rune p) = 0xFFFD"
proof -
  assume "prefix p s" "p \<noteq> []"
  then obtain c q z where p: "p = c # q" "s = c # q @ z" by (cases p) (auto simp: prefix_def)
  consider "q = []" | a where "q = [a]" | a b where "q = [a, b]" | a b d r where "q = a # b # d # r"
    by (metis list.exhaust)
  then show ?thesis
    by cases (simp_all add: p decode_rune.simps(2) Let_def split: list.split)
qed

lemma TrimSpace_idem [go_strings]: "TrimSpace (TrimSpace s) = TrimSpace s"
proof -
  let ?t = "trim_left s"
  have "trim_left (trim_right ?t) = trim_right ?t"
    using trim_left_fixed [of s] decode_rune_prefix [OF trim_right_prefix [of ?t]] not_IsSpace_error
    unfolding trim_left_id_iff by (metis prefix_Nil trim_right_prefix)
  then show ?thesis by (simp add: TrimSpace_def trim_right_fixed)
qed

lemma TrimSpace_sublist: "sublist (TrimSpace s) s"
  unfolding TrimSpace_def
  by (rule sublist_trans [OF prefix_imp_sublist [OF trim_right_prefix] suffix_imp_sublist [OF trim_left_suffix]])

section \<open>Decimal numbers\<close>

definition is_digit :: "char \<Rightarrow> bool" where
  "is_digit c \<longleftrightarrow> 48 \<le> code c \<and> code c \<le> 57"

definition is_letter :: "char \<Rightarrow> bool" where
  "is_letter c \<longleftrightarrow> 65 \<le> code c \<and> code c \<le> 90 \<or> 97 \<le> code c \<and> code c \<le> 122"

function itoa_pos :: "int \<Rightarrow> string" where
  "itoa_pos n = (if n < 10 then [byte (48 + n)] else itoa_pos (n div 10) @ [byte (48 + n mod 10)])"
  by pat_completeness auto
termination
  by (relation "measure nat") auto

declare itoa_pos.simps [simp del]

text \<open>\<open>strconv.FormatInt(n, 10)\<close>, \<open>strconv.Itoa\<close> and the verb \<open>%d\<close>.\<close>

definition FormatInt :: "int \<Rightarrow> string" where
  "FormatInt n = (if n < 0 then ''-'' @ itoa_pos (- n) else itoa_pos n)"

fun parse_digits :: "int \<Rightarrow> string \<Rightarrow> int option" where
  "parse_digits acc [] = Some acc"
| "parse_digits acc (c # s) =
    (if is_digit c then parse_digits (acc * 10 + (code c - 48)) s else None)"

definition split_sign :: "string \<Rightarrow> bool \<times> string" where
  "split_sign s = (case s of [] \<Rightarrow> (False, [])
     | c # r \<Rightarrow> if c = CHR ''+'' then (False, r) else if c = CHR ''-'' then (True, r) else (False, s))"

text \<open>\<open>strconv.ParseInt(s, 10, 64)\<close>, \<open>None\<close> where it returns an error.\<close>

definition ParseInt :: "string \<Rightarrow> int64 option" where
  "ParseInt s =
    (case split_sign s of (neg, ds) \<Rightarrow>
       if ds = [] then None
       else case parse_digits 0 ds of
         None \<Rightarrow> None
       | Some u \<Rightarrow>
           if \<not> neg \<and> u \<ge> 9223372036854775808 then None
           else if neg \<and> u > 9223372036854775808 then None
           else Some (if neg then - u else u))"

lemma parse_digits_append:
  "parse_digits acc (s @ t) = (case parse_digits acc s of None \<Rightarrow> None | Some u \<Rightarrow> parse_digits u t)"
  by (induction acc s rule: parse_digits.induct) auto

lemma itoa_pos_ne [simp]: "itoa_pos n \<noteq> []"
  by (subst itoa_pos.simps) simp

lemma itoa_pos_digits: "0 \<le> n \<Longrightarrow> list_all is_digit (itoa_pos n)"
proof (induction n rule: itoa_pos.induct)
  case (1 n)
  have "is_digit (byte (48 + n mod 10))" "n < 10 \<Longrightarrow> is_digit (byte (48 + n))"
    using 1 by (simp_all add: is_digit_def)
  with 1 show ?case by (subst itoa_pos.simps) simp
qed

lemma parse_digits_itoa_pos: "0 \<le> n \<Longrightarrow> parse_digits 0 (itoa_pos n) = Some n"
proof (induction n rule: itoa_pos.induct)
  case (1 n)
  show ?case
  proof (cases "n < 10")
    case True
    with 1 show ?thesis by (subst itoa_pos.simps) (simp add: is_digit_def)
  next
    case False
    with 1 have "parse_digits 0 (itoa_pos (n div 10)) = Some (n div 10)" by simp
    with False show ?thesis
      by (subst itoa_pos.simps) (simp add: parse_digits_append is_digit_def)
  qed
qed

lemma digit_not_sign: "is_digit c \<Longrightarrow> c \<noteq> CHR ''-'' \<and> c \<noteq> CHR ''+''"
  by (auto simp: is_digit_def code_def)

lemma split_sign_digits: "list_all is_digit s \<Longrightarrow> split_sign s = (False, s)"
  by (cases s) (auto simp: split_sign_def dest: digit_not_sign)

lemma ParseInt_FormatInt [go_strings]: "int64_range n \<Longrightarrow> ParseInt (FormatInt n) = Some n"
proof (cases "n < 0")
  case True
  assume "int64_range n"
  with True show ?thesis
    by (simp add: ParseInt_def FormatInt_def split_sign_def parse_digits_itoa_pos int64_range_def)
next
  case False
  assume "int64_range n"
  with False show ?thesis
    by (simp add: ParseInt_def FormatInt_def split_sign_digits itoa_pos_digits parse_digits_itoa_pos
        int64_range_def)
qed

lemma parse_digits_nonneg: "parse_digits acc s = Some u \<Longrightarrow> 0 \<le> acc \<Longrightarrow> 0 \<le> u"
  by (induction acc s rule: parse_digits.induct) (auto simp: is_digit_def split: if_splits)

lemma ParseInt_range [go_strings]: "ParseInt s = Some n \<Longrightarrow> int64_range n"
  by (auto simp: ParseInt_def int64_range_def split: prod.splits option.splits if_splits
      dest: parse_digits_nonneg)

lemma itoa_pos_inj: "0 \<le> m \<Longrightarrow> 0 \<le> n \<Longrightarrow> itoa_pos m = itoa_pos n \<Longrightarrow> m = n"
  by (metis option.inject parse_digits_itoa_pos)

lemma FormatInt_digits: "0 \<le> n \<Longrightarrow> list_all is_digit (FormatInt n)"
  by (simp add: FormatInt_def itoa_pos_digits)

lemma FormatInt_inj [go_strings]: "FormatInt m = FormatInt n \<Longrightarrow> m = n"
proof -
  assume eq: "FormatInt m = FormatInt n"
  have sign: "k < 0 \<longleftrightarrow> hd (FormatInt k) = CHR ''-''" for k
  proof (cases "k < 0")
    case False
    then have "is_digit (hd (FormatInt k))"
      using FormatInt_digits [of k] by (cases "FormatInt k") (auto simp: FormatInt_def)
    with False show ?thesis using digit_not_sign by blast
  qed (simp add: FormatInt_def)
  from eq have "m < 0 \<longleftrightarrow> n < 0" using sign [of m] sign [of n] by simp
  then show ?thesis
    using eq itoa_pos_inj [of m n] itoa_pos_inj [of "- m" "- n"] by (simp add: FormatInt_def split: if_splits)
qed

section \<open>Hexadecimal\<close>

definition hex_digit :: "int \<Rightarrow> char" where
  "hex_digit n = (if n < 10 then byte (48 + n) else byte (87 + n))"

text \<open>\<open>hex.EncodeToString\<close>.\<close>

definition EncodeToString :: "string \<Rightarrow> string" where
  "EncodeToString bs = concat (map (\<lambda>c. [hex_digit (code c div 16), hex_digit (code c mod 16)]) bs)"

lemma length_EncodeToString: "length (EncodeToString bs) = 2 * length bs"
  by (induction bs) (auto simp: EncodeToString_def)

end
