(* ===== verification/Apierror.thy ===== *)
theory Apierror
  imports Prelude
begin

text \<open>
  \<open>internal/apierror/error.go\<close>: the one error type of the service and the envelope in
  which it is sent to the client. The cause of an error is kept beside it and is not part
  of the envelope.
\<close>

record apierror =
  Code :: string
  Message :: string
  Param :: "string option"
  Kind :: string
  HTTPStatus :: int
  Cause :: "goerror option"

record ErrorBody =
  body_Message :: string
  body_Type :: string
  body_Param :: "string option"
  body_Code :: string

record Response =
  response_Error :: ErrorBody

definition OpenAIKind ::
  "string \<Rightarrow> string \<Rightarrow> string \<Rightarrow> string \<Rightarrow> int \<Rightarrow> goerror option \<Rightarrow> apierror" where
  "OpenAIKind c message param kind status cause =
    \<lparr>Code = c, Message = message, Param = (if param \<noteq> [] then Some param else None),
     Kind = kind, HTTPStatus = status, Cause = cause\<rparr>"

definition OpenAI :: "string \<Rightarrow> string \<Rightarrow> string \<Rightarrow> int \<Rightarrow> goerror option \<Rightarrow> apierror" where
  "OpenAI c message param status cause =
    OpenAIKind c message param ''invalid_request_error'' status cause"

definition Error_string :: "apierror \<Rightarrow> string" where
  "Error_string e = Code e @ '': '' @ Message e"

definition Unwrap :: "apierror \<Rightarrow> goerror option" where
  "Unwrap e = Cause e"

definition ErrorCode :: "apierror \<Rightarrow> string" where
  "ErrorCode e = Code e"

definition error_response :: "apierror \<Rightarrow> Response" where
  "error_response e =
    \<lparr>response_Error = \<lparr>body_Message = Message e, body_Type = Kind e, body_Param = Param e,
       body_Code = Code e\<rparr>\<rparr>"

definition InvalidRequest :: "goerror option \<Rightarrow> apierror" where
  "InvalidRequest cause =
    OpenAI ''invalid_request_error'' ''Invalid request body.'' '''' 400 cause"

lemmas apierror_defs = OpenAI_def OpenAIKind_def

lemma OpenAI_select [simp]:
  "Code (OpenAI c m p s x) = c" "Message (OpenAI c m p s x) = m"
  "HTTPStatus (OpenAI c m p s x) = s" "Cause (OpenAI c m p s x) = x"
  "Kind (OpenAI c m p s x) = ''invalid_request_error''"
  "Param (OpenAI c m p s x) = (if p \<noteq> [] then Some p else None)"
  by (simp_all add: apierror_defs)

lemma error_response_hides_cause: "error_response (e\<lparr>Cause := c\<rparr>) = error_response e"
  by (simp add: error_response_def)

end
