(* ===== verification/Openai.thy ===== *)
theory Openai
  imports Prelude
begin

text \<open>
  \<open>internal/openai/request.go\<close>: the request and response types of the OpenAI protocol.
  A \<open>json.RawMessage\<close> is the text of the value, empty when the field is absent. A
  \<open>float64\<close> is the literal it was read from: the program only compares the pointer to it
  with nil.
\<close>

type_synonym RawMessage = string
type_synonym float64 = string

record FunctionDefinition =
  fd_Name :: string
  fd_Description :: string
  fd_Parameters :: RawMessage

record FunctionTool =
  ft_Type :: string
  ft_Function :: FunctionDefinition

record Message =
  msg_Role :: string
  msg_Content :: RawMessage
  msg_Name :: string
  msg_ToolCallID :: string

record StreamOptions =
  IncludeUsage :: bool

record ChatCompletionRequest =
  req_Model :: string
  req_Messages :: "Message list"
  req_Tools :: "FunctionTool list"
  req_ToolChoice :: RawMessage
  req_MaxTokens :: "int option"
  req_MaxCompletionTokens :: "int option"
  req_Stream :: bool
  req_StreamOptions :: "StreamOptions option"
  req_ResponseFormat :: RawMessage
  req_N :: "int option"
  req_Temperature :: "float64 option"
  req_TopP :: "float64 option"
  req_Seed :: "int64 option"
  req_Stop :: RawMessage

text \<open>The zero value of the request, into which a body is decoded.\<close>

definition zero_request :: ChatCompletionRequest where
  "zero_request =
    \<lparr>req_Model = '''', req_Messages = [], req_Tools = [], req_ToolChoice = '''',
     req_MaxTokens = None, req_MaxCompletionTokens = None, req_Stream = False,
     req_StreamOptions = None, req_ResponseFormat = '''', req_N = None,
     req_Temperature = None, req_TopP = None, req_Seed = None, req_Stop = ''''\<rparr>"

record NativeTool =
  nt_Name :: string
  nt_Description :: string
  nt_Parameters :: RawMessage

record Model =
  model_ID :: string
  model_Object :: string
  model_Created :: int64
  model_OwnedBy :: string

record ModelListResponse =
  ml_Object :: string
  ml_Data :: "Model list"

record Usage =
  PromptTokens :: int
  CompletionTokens :: int
  TotalTokens :: int
  Estimated :: bool

definition ModelList :: "string \<Rightarrow> ModelListResponse" where
  "ModelList modelID =
    \<lparr>ml_Object = ''list'',
     ml_Data = [\<lparr>model_ID = modelID, model_Object = ''model'', model_Created = 0,
                 model_OwnedBy = ''ibm-granite''\<rparr>]\<rparr>"

record SchemaLimits =
  MaxTools :: int
  MaxCatalogBytes :: int
  MaxDescriptionRunes :: int
  MaxDepth :: int
  MaxProperties :: int

definition DefaultSchemaLimits :: SchemaLimits where
  "DefaultSchemaLimits =
    \<lparr>MaxTools = 64, MaxCatalogBytes = 256 * 2 ^ 10, MaxDescriptionRunes = 1024,
     MaxDepth = 8, MaxProperties = 64\<rparr>"

end
