(* ===== verification/Tools.thy ===== *)
theory Tools
  imports Gostring Openai
begin

text \<open>
  \<open>internal/managed/tools.go\<close> and \<open>internal/managed/state.go\<close>: the five actions with
  their metadata, the tool catalogue offered to the model, and the check of the state a
  VM must be in before an action is sent.

  The map \<open>actions\<close> is an association list. Go iterates over a map in an unspecified
  order, so the code that ranges over it (in the theory Validate) takes the order as an
  argument.
\<close>

section \<open>The table of actions\<close>

type_synonym Action = string

definition ActionGet :: Action where "ActionGet = ''get''"
definition ActionStart :: Action where "ActionStart = ''start''"
definition ActionShutdown :: Action where "ActionShutdown = ''shutdown''"
definition ActionStop :: Action where "ActionStop = ''stop''"
definition ActionReboot :: Action where "ActionReboot = ''reboot''"

lemmas Action_defs = ActionGet_def ActionStart_def ActionShutdown_def ActionStop_def ActionReboot_def

record ActionMetadata =
  ToolName :: string
  RequiredState :: string
  Mutation :: bool
  Evidence :: "string list"

definition actions :: "(Action \<times> ActionMetadata) list" where
  "actions =
   [(ActionGet, \<lparr>ToolName = ''pve_vm_get'', RequiredState = '''', Mutation = False,
      Evidence =
       [utf8 [0x67E5, 0x8BE2],
        utf8 [0x67E5, 0x770B],
        utf8 [0x72B6, 0x6001],
        utf8 [0x8FD0, 0x884C, 0x5417],
        utf8 [0x5F00, 0x7740, 0x5417]]\<rparr>),
    (ActionStart, \<lparr>ToolName = ''pve_vm_start'', RequiredState = ''stopped'', Mutation = True,
      Evidence =
       [utf8 [0x5F00, 0x542F],
        utf8 [0x542F, 0x52A8],
        utf8 [0x5F00, 0x673A],
        utf8 [0x6253, 0x5F00]]\<rparr>),
    (ActionShutdown, \<lparr>ToolName = ''pve_vm_shutdown'', RequiredState = ''running'', Mutation = True,
      Evidence =
       [utf8 [0x6B63, 0x5E38, 0x5173, 0x95ED],
        utf8 [0x6B63, 0x5E38, 0x5173, 0x673A],
        utf8 [0x4F18, 0x96C5, 0x5173, 0x673A],
        utf8 [0x5173, 0x6389],
        utf8 [0x5173, 0x95ED],
        utf8 [0x5173, 0x673A]]\<rparr>),
    (ActionStop, \<lparr>ToolName = ''pve_vm_stop'', RequiredState = ''running'', Mutation = True,
      Evidence =
       [utf8 [0x5F3A, 0x5236, 0x505C, 0x6B62],
        utf8 [0x5F3A, 0x5236, 0x5173, 0x673A],
        utf8 [0x5F3A, 0x5236, 0x65AD, 0x7535]]\<rparr>),
    (ActionReboot, \<lparr>ToolName = ''pve_vm_reboot'', RequiredState = ''running'', Mutation = True,
      Evidence =
       [utf8 [0x91CD, 0x542F],
        utf8 [0x91CD, 0x65B0, 0x542F, 0x52A8]]\<rparr>)]"

definition zero_metadata :: ActionMetadata where
  "zero_metadata = \<lparr>ToolName = '''', RequiredState = '''', Mutation = False, Evidence = []\<rparr>"

definition Metadata :: "Action \<Rightarrow> ActionMetadata \<times> bool" where
  "Metadata action =
    (case map_of actions action of Some m \<Rightarrow> (m, True) | None \<Rightarrow> (zero_metadata, False))"

section \<open>The tool catalogue\<close>

definition descriptions :: "string list" where
  "descriptions =
    [''Get the current status of a Proxmox VE virtual machine. '' @ utf8 [0x67E5, 0x8BE2,
      0x865A, 0x62DF, 0x673A, 0x5F53, 0x524D, 0x72B6, 0x6001, 0xFF0C, 0x4E0D, 0x6539, 0x53D8,
      0x865A, 0x62DF, 0x673A, 0x3002],
     ''Start or turn on a stopped Proxmox VE virtual machine. '' @ utf8 [0x6253, 0x5F00,
      0x3001, 0x5F00, 0x542F, 0x3001, 0x5F00, 0x673A, 0x6216, 0x542F, 0x52A8, 0x5DF2, 0x505C,
      0x6B62, 0x7684, 0x865A, 0x62DF, 0x673A, 0x3002],
     ''Gracefully shut down a running Proxmox VE virtual machine. Use for '' @
      ''shut down, turn off, normal shutdown, or graceful shutdown unless the '' @
      ''user explicitly requests force. '' @ utf8 [0x5173, 0x6389, 0x3001, 0x5173, 0x95ED,
      0x3001, 0x5173, 0x673A, 0x3001, 0x6B63, 0x5E38, 0x5173, 0x673A, 0x6216, 0x4F18, 0x96C5,
      0x5173, 0x673A, 0x5FC5, 0x987B, 0x4F7F, 0x7528, 0x6B64, 0x5DE5, 0x5177, 0xFF1B, 0x4EC5,
      0x663E, 0x5F0F, 0x5F3A, 0x5236, 0x64CD, 0x4F5C, 0x624D, 0x4E0D, 0x662F, 0x6B64, 0x5DE5,
      0x5177, 0x3002],
     ''Force stop a running Proxmox VE virtual machine only when the user '' @
      ''explicitly asks to force stop or cut power. '' @ utf8 [0x4EC5, 0x5F53, 0x7528, 0x6237,
      0x539F, 0x6587, 0x660E, 0x793A, 0x5F3A, 0x5236, 0x505C, 0x6B62, 0x3001, 0x5F3A, 0x5236,
      0x5173, 0x673A, 0x6216, 0x5F3A, 0x5236, 0x65AD, 0x7535, 0x65F6, 0x4F7F, 0x7528, 0xFF1B,
      0x666E, 0x901A, 0x5173, 0x673A, 0x7981, 0x6B62, 0x4F7F, 0x7528, 0xFF0C, 0x4E14, 0x53EF,
      0x80FD, 0x5BFC, 0x81F4, 0x6570, 0x636E, 0x635F, 0x574F, 0x3002],
     ''Reboot a running Proxmox VE virtual machine. '' @ utf8 [0x91CD, 0x542F, 0x6216, 0x91CD,
      0x65B0, 0x542F, 0x52A8, 0x6B63, 0x5728, 0x8FD0, 0x884C, 0x7684, 0x865A, 0x62DF, 0x673A,
      0x3002]]"

definition tool_order :: "Action list" where
  "tool_order = [ActionGet, ActionStart, ActionShutdown, ActionStop, ActionReboot]"

definition tool_params :: RawMessage where
  \<open>tool_params =
    ''{"type":"object","properties":{"vmid":{"type":"integer",'' @
      ''"description":"Numeric VM ID. '' @ utf8 [0x865A, 0x62DF, 0x673A, 0x6570, 0x5B57] @
      '' ID'' @ utf8 [0x3002] @ ''"}},"required":["vmid"],"additionalProperties":false}''\<close>

definition GraniteTools :: "bool \<Rightarrow> FunctionTool list" where
  "GraniteTools allowForceStop =
    concat (map (\<lambda>(i, action).
      if action = ActionStop \<and> \<not> allowForceStop then []
      else [\<lparr>ft_Type = ''function'',
              ft_Function = \<lparr>fd_Name = ToolName (fst (Metadata action)),
                fd_Description = descriptions ! i, fd_Parameters = tool_params\<rparr>\<rparr>])
      (enumerate 0 tool_order))"

section \<open>The state a VM must be in\<close>

record StateDecision =
  Execute :: bool
  decision_Message :: string

definition verbs :: "(Action \<times> string) list" where
  "verbs =
    [(ActionStart, utf8 [0x542F, 0x52A8]), (ActionShutdown, utf8 [0x5173, 0x95ED]),
     (ActionStop, utf8 [0x5F3A, 0x5236, 0x505C, 0x6B62]), (ActionReboot, utf8 [0x91CD, 0x542F])]"

definition yellow :: string where "yellow = utf8 [0x1F7E1]"
definition green :: string where "green = utf8 [0x1F7E2]"
definition red :: string where "red = utf8 [0x1F534]"

definition state_icon :: "string \<Rightarrow> string" where
  "state_icon state =
    (let icon = yellow;
         icon = (if state = ''running'' then green else icon)
     in if state = ''stopped'' then red else icon)"

definition CheckState :: "Action \<Rightarrow> string \<Rightarrow> int64 \<Rightarrow> StateDecision" where
  "CheckState action state vmid =
    (case Metadata action of (meta, ok) \<Rightarrow>
       if \<not> ok \<or> \<not> Mutation meta then \<lparr>Execute = False, decision_Message = ''''\<rparr>
       else if state = RequiredState meta then \<lparr>Execute = True, decision_Message = ''''\<rparr>
       else \<lparr>Execute = False,
              decision_Message = state_icon state @ '' VM '' @ FormatInt vmid @
                '' '' @ utf8 [0x5DF2, 0x5904, 0x4E8E] @ '' '' @ state @
                '' '' @ utf8 [0x72B6, 0x6001, 0xFF0C, 0x65E0, 0x9700, 0x91CD, 0x590D] @
                (case map_of verbs action of Some v \<Rightarrow> v | None \<Rightarrow> '''') @ utf8 [0x3002]\<rparr>)"

section \<open>Facts on the table\<close>

lemma actions_distinct: "distinct (map fst actions)"
  by code_simp

lemma tool_names_distinct: "distinct (map (ToolName \<circ> snd) actions)"
  by code_simp

lemma evidence_nonempty: "list_all (\<lambda>(a, m). Evidence m \<noteq> [] \<and> [] \<notin> set (Evidence m)) actions"
  by code_simp

lemma evidence_disjoint:
  "list_all (\<lambda>(a, m). list_all (\<lambda>(b, n). a = b \<or> set (Evidence m) \<inter> set (Evidence n) = {}) actions) actions"
  by code_simp

lemma Metadata_ok [simp]:
  "snd (Metadata ActionGet)" "snd (Metadata ActionStart)" "snd (Metadata ActionShutdown)"
  "snd (Metadata ActionStop)" "snd (Metadata ActionReboot)"
  by (simp_all add: Metadata_def actions_def Action_defs)

lemma Metadata_Mutation [simp]:
  "\<not> Mutation (fst (Metadata ActionGet))" "Mutation (fst (Metadata ActionStart))"
  "Mutation (fst (Metadata ActionShutdown))" "Mutation (fst (Metadata ActionStop))"
  "Mutation (fst (Metadata ActionReboot))"
  by (simp_all add: Metadata_def actions_def Action_defs)

lemma Metadata_RequiredState [simp]:
  "RequiredState (fst (Metadata ActionStart)) = ''stopped''"
  "RequiredState (fst (Metadata ActionShutdown)) = ''running''"
  "RequiredState (fst (Metadata ActionStop)) = ''running''"
  "RequiredState (fst (Metadata ActionReboot)) = ''running''"
  by (simp_all add: Metadata_def actions_def Action_defs)

lemma action_keys: "fst ` set actions = {ActionGet, ActionStart, ActionShutdown, ActionStop, ActionReboot}"
  by code_simp

lemma Metadata_member: "(a, m) \<in> set actions \<longleftrightarrow> Metadata a = (m, True)"
  by (auto simp: Metadata_def map_of_eq_Some_iff [OF actions_distinct, symmetric] split: option.splits)

lemma Metadata_ok_iff: "snd (Metadata a) \<longleftrightarrow> a \<in> fst ` set actions"
proof -
  have "snd (Metadata a) \<longleftrightarrow> map_of actions a \<noteq> None"
    by (auto simp: Metadata_def split: option.splits)
  then show ?thesis by (simp add: map_of_eq_None_iff)
qed

lemma Mutation_iff:
  "snd (Metadata a) \<and> Mutation (fst (Metadata a)) \<longleftrightarrow>
    a \<in> {ActionStart, ActionShutdown, ActionStop, ActionReboot}"
  using Metadata_ok_iff [of a] by (auto simp: action_keys)

text \<open>Every decision: when the action is sent, and that a refusal is explained.\<close>

lemma CheckState_Execute:
  "Execute (CheckState a st v) \<longleftrightarrow>
    a = ActionStart \<and> st = ''stopped'' \<or>
    a \<in> {ActionShutdown, ActionStop, ActionReboot} \<and> st = ''running''"
proof -
  have d: "Execute (CheckState a st v) \<longleftrightarrow>
      snd (Metadata a) \<and> Mutation (fst (Metadata a)) \<and> st = RequiredState (fst (Metadata a))"
    by (auto simp: CheckState_def split: prod.splits)
  show ?thesis
    using Mutation_iff [of a] by (auto simp: d)
qed

end
