(* ===== verification/Render.thy ===== *)
theory Render
  imports Gostring
begin

text \<open>
  \<open>internal/render/vm.go\<close>: the Chinese texts of the answers. Go's \<open>/\<close> and \<open>%\<close>
  truncate towards zero; they are only reached for positive numbers here, where they are
  \<open>div\<close> and \<open>mod\<close>.
\<close>

definition Uptime :: "int64 \<Rightarrow> string" where
  "Uptime seconds =
    (if seconds \<le> 0 then ''0 '' @ utf8 [0x79D2]
     else
       let days = seconds div 86400;
           hours = seconds mod 86400 div 3600;
           minutes = seconds mod 3600 div 60;
           secs = seconds mod 60;
           parts = [];
           parts = parts @ (if days > 0 then [FormatInt days @ '' '' @ utf8 [0x5929]] else []);
           parts = parts @ (if hours > 0 then [FormatInt hours @ '' '' @ utf8 [0x5C0F,
             0x65F6]] else []);
           parts = parts @ (if minutes > 0 then [FormatInt minutes @ '' '' @ utf8 [0x5206,
             0x949F]] else []);
           parts = parts @ (if parts = [] then [FormatInt secs @ '' '' @ utf8 [0x79D2]] else [])
       in Join parts '' '')"

definition VMStatus :: "int64 \<Rightarrow> string \<Rightarrow> string \<Rightarrow> int64 \<Rightarrow> string" where
  "VMStatus vmid name status uptime =
    (let label = ''VM '' @ FormatInt vmid @ '' '';
         label = (if name \<noteq> [] then ''VM '' @ FormatInt vmid @ utf8 [0xFF08] @ name @
           utf8 [0xFF09] else label);
         icon = utf8 [0x1F7E1];
         icon = (if status = ''running'' then utf8 [0x1F7E2] else icon);
         icon = (if status = ''stopped'' then utf8 [0x1F534] else icon)
     in if status = ''running''
        then icon @ '' '' @ label @ utf8 [0x5F53, 0x524D, 0x72B6, 0x6001, 0xFF1A] @ status @
          utf8 [0xFF0C, 0x8FD0, 0x884C, 0x65F6, 0x957F] @ '' '' @ Uptime uptime @ utf8 [0x3002]
        else icon @ '' '' @ label @ utf8 [0x5F53, 0x524D, 0x72B6, 0x6001, 0xFF1A] @ status @
          utf8 [0x3002])"

definition Submitted :: "string \<Rightarrow> int64 \<Rightarrow> string" where
  "Submitted action vmid =
    (case map_of
       [(''start'', utf8 [0x25B6, 0xFE0F] @ '' VM '' @ FormatInt vmid @ '' '' @ utf8 [0x7684,
         0x542F, 0x52A8, 0x8BF7, 0x6C42, 0x5DF2, 0x63D0, 0x4EA4, 0x3002]),
        (''shutdown'', utf8 [0x23FB] @ '' VM '' @ FormatInt vmid @ '' '' @ utf8 [0x7684,
          0x6B63, 0x5E38, 0x5173, 0x673A, 0x8BF7, 0x6C42, 0x5DF2, 0x63D0, 0x4EA4, 0x3002]),
        (''stop'', utf8 [0x26A0, 0xFE0F] @ '' VM '' @ FormatInt vmid @ '' '' @ utf8 [0x7684,
          0x5F3A, 0x5236, 0x505C, 0x6B62, 0x8BF7, 0x6C42, 0x5DF2, 0x63D0, 0x4EA4, 0x3002]),
        (''reboot'', utf8 [0x1F504] @ '' VM '' @ FormatInt vmid @ '' '' @ utf8 [0x7684,
          0x91CD, 0x542F, 0x8BF7, 0x6C42, 0x5DF2, 0x63D0, 0x4EA4, 0x3002])] action
     of Some text \<Rightarrow> text | None \<Rightarrow> '''')"

section \<open>What the text of an uptime says\<close>

definition uptime_part :: "int \<Rightarrow> string \<Rightarrow> string list" where
  "uptime_part n unit = (if n > 0 then [FormatInt n @ '' '' @ unit] else [])"

lemma Join_eq_Nil: "[] \<notin> set xs \<Longrightarrow> Join xs sep = [] \<longleftrightarrow> xs = []"
  by (induction xs sep rule: Join.induct) auto

lemma minutes_of:
  fixes s :: int
  shows "s div 86400 = s div 60 div 1440" "s mod 86400 div 3600 = s div 60 mod 1440 div 60"
    "s mod 3600 div 60 = s div 60 mod 60"
proof -
  have small: "(60 * k + s mod 60) div 60 = k" for k by simp
  have m: "s mod 86400 = 60 * (s div 60 mod 1440) + s mod 60" "s mod 3600 = 60 * (s div 60 mod 60) + s mod 60"
  proof -
    have "60 * 1440 = (86400 :: int)" "60 * 60 = (3600 :: int)" by simp_all
    then show "s mod 86400 = 60 * (s div 60 mod 1440) + s mod 60" "s mod 3600 = 60 * (s div 60 mod 60) + s mod 60"
      using zmod_zmult2_eq [of 1440 s 60] zmod_zmult2_eq [of 60 s 60] by (simp_all only:)
  qed
  show "s div 86400 = s div 60 div 1440" using zdiv_zmult2_eq [of 1440 s 60] by simp
  show "s mod 3600 div 60 = s div 60 mod 60" unfolding m by (rule small)
  have "x div 3600 = x div 60 div 60" for x :: int using zdiv_zmult2_eq [of 60 x 60] by simp
  then show "s mod 86400 div 3600 = s div 60 mod 1440 div 60" unfolding m by (simp only: small)
qed

lemma minutes_sum:
  fixes s :: int
  shows "s div 86400 * 86400 + s mod 86400 div 3600 * 3600 + s mod 3600 div 60 * 60 + s mod 60 = s"
proof -
  have "s mod 86400 mod 3600 = s mod 3600" "s mod 3600 mod 60 = s mod 60"
    by (simp_all add: mod_mod_cancel)
  then show ?thesis
    using div_mult_mod_eq [of s 86400] div_mult_mod_eq [of "s mod 86400" 3600]
      div_mult_mod_eq [of "s mod 3600" 60] by linarith
qed

lemma Uptime_parts_positive:
  assumes "60 \<le> (s::int)"
  shows "s div 86400 > 0 \<or> s mod 86400 div 3600 > 0 \<or> s mod 3600 div 60 > 0"
proof (rule ccontr)
  define d h m r where v: "d = s div 86400" "h = s mod 86400 div 3600" "m = s mod 3600 div 60" "r = s mod 60"
  assume "\<not> ?thesis"
  then have "d \<le> 0" "h \<le> 0" "m \<le> 0" unfolding v by linarith+
  moreover have "d * 86400 + h * 3600 + m * 60 + r = s" "r < 60" unfolding v using minutes_sum by simp_all
  ultimately show False using assms by linarith
qed

lemma Uptime_under_a_minute:
  assumes "0 \<le> s" "s < 60"
  shows "Uptime s = FormatInt s @ '' '' @ utf8 [0x79D2]"
proof (cases "s = 0")
  case True
  moreover have "FormatInt 0 = ''0''" by code_simp
  ultimately show ?thesis by (simp add: Uptime_def)
next
  case False
  with assms have "s div 86400 = 0" "s mod 86400 div 3600 = 0" "s mod 3600 div 60 = 0" "s mod 60 = s" "\<not> s \<le> 0"
    by simp_all
  then show ?thesis by (simp add: Uptime_def Let_def)
qed

text \<open>
  C40. A number of seconds under a minute is written as such. From an hour on, and for whole
  minutes, the text lists the days, hours and minutes of the number, each with its unit, zero
  units left out; read back they give the number of seconds, rounded down to whole minutes.
  Nothing is said of numbers between a minute and an hour that are not whole minutes.
\<close>

theorem Uptime_reads_back:
  assumes "0 \<le> s" "s < 60 \<or> 3600 \<le> s \<or> s mod 60 = 0"
  shows "\<exists>d h m. Uptime s =
      (if s < 60 then FormatInt s @ '' '' @ utf8 [0x79D2]
       else Join (uptime_part d (utf8 [0x5929]) @ uptime_part h (utf8 [0x5C0F, 0x65F6]) @
                  uptime_part m (utf8 [0x5206, 0x949F])) '' '')
    \<and> 0 \<le> d \<and> 0 \<le> h \<and> h < 24 \<and> 0 \<le> m \<and> m < 60
    \<and> d * 86400 + h * 3600 + m * 60 + s mod 60 = s"
proof (intro exI conjI)
  let ?d = "s div 86400" and ?h = "s mod 86400 div 3600" and ?m = "s mod 3600 div 60"
  show sum: "?d * 86400 + ?h * 3600 + ?m * 60 + s mod 60 = s"
    by (rule minutes_sum)
  show b: "0 \<le> ?d" "0 \<le> ?h" "?h < 24" "0 \<le> ?m" "?m < 60"
    using assms zdiv_mono1 [of "s mod 86400" 86399 3600] pos_mod_bound [of 86400 s]
    by (simp_all add: pos_imp_zdiv_nonneg_iff minutes_of(3))
  show "Uptime s =
      (if s < 60 then FormatInt s @ '' '' @ utf8 [0x79D2]
       else Join (uptime_part ?d (utf8 [0x5929]) @ uptime_part ?h (utf8 [0x5C0F, 0x65F6]) @
                  uptime_part ?m (utf8 [0x5206, 0x949F])) '' '')"
  proof (cases "s < 60")
    case True
    then show ?thesis using Uptime_under_a_minute [OF assms(1)] by simp
  next
    case False
    then show ?thesis
      using Uptime_parts_positive [of s] by (auto simp: Uptime_def uptime_part_def Let_def)
  qed
qed

theorem Uptime_reads_back_witness:
  "(0::int) \<le> 12588 \<and> (\<exists>d h m. Uptime 12588 =
      Join (uptime_part d (utf8 [0x5929]) @ uptime_part h (utf8 [0x5C0F, 0x65F6]) @
            uptime_part m (utf8 [0x5206, 0x949F])) '' ''
    \<and> 0 \<le> d \<and> 0 \<le> h \<and> h < 24 \<and> 0 \<le> m \<and> m < 60
    \<and> d * 86400 + h * 3600 + m * 60 + 12588 mod 60 = 12588)"
  using Uptime_reads_back [of 12588] by simp

text \<open>From one minute on the seconds of the number are never shown.\<close>

lemma Uptime_drops_seconds:
  assumes "60 \<le> s"
  shows "Uptime s = Uptime (s - s mod 60)"
proof -
  obtain t where t: "t = s - s mod 60" by simp
  then have "t div 60 = s div 60" by (simp add: minus_mod_eq_div_mult)
  then have e: "t div 86400 = s div 86400" "t mod 86400 div 3600 = s mod 86400 div 3600"
    "t mod 3600 div 60 = s mod 3600 div 60"
    by (simp_all only: minutes_of)
  have "\<not> t \<le> 0" "\<not> s \<le> 0" using t assms pos_mod_bound [of 60 s] by linarith+
  then have "Uptime t = Uptime s"
    unfolding Uptime_def Let_def e using Uptime_parts_positive [OF assms] by (simp only: if_False) auto
  then show ?thesis by (simp only: t)
qed

end
