(* ===== verification/Safety.thy ===== *)
theory Safety
  imports Gostring Apierror
begin

text \<open>
  \<open>internal/managed/safety.go\<close>: the checks of the user's text before the model sees it.
  Exactly one VM identifier, no conditional, batch or sequential structure, at most one
  explicit action; negation is recorded for the check of the model's answer.
\<close>

record Input =
  in_Original :: string
  in_VMID :: int64
  in_HasNegation :: bool
  in_Warnings :: "string list"

definition conditions :: "string list" where
  "conditions =
    [utf8 [0x5982, 0x679C], utf8 [0x5047, 0x5982], utf8 [0x8981, 0x662F], utf8 [0x786E, 0x8BA4,
     0x540E], utf8 [0x5B8C, 0x6210, 0x540E]]"

definition batches :: "string list" where
  "batches =
    [utf8 [0x5168, 0x90E8], utf8 [0x6240, 0x6709], utf8 [0x5206, 0x522B], utf8 [0x4F9D,
     0x6B21], utf8 [0x7136, 0x540E], utf8 [0x63A5, 0x7740]]"

definition negations :: "string list" where
  "negations =
    [utf8 [0x4E0D, 0x8981], utf8 [0x522B], utf8 [0x7981, 0x6B62], utf8 [0x53D6, 0x6D88],
     utf8 [0x65E0, 0x9700], utf8 [0x4E0D, 0x5141, 0x8BB8], utf8 [0x4E0D, 0x662F], utf8 [0x6CA1,
     0x6709], utf8 [0x6CA1, 0x5F00]]"

text \<open>\<open>decimalID.FindAllString(original, -1)\<close> for the expression \<open>[0-9]+\<close>.\<close>

function digit_runs :: "string \<Rightarrow> string list" where
  "digit_runs s =
    (case dropWhile (\<lambda>c. \<not> is_digit c) s of
       [] \<Rightarrow> []
     | c # r \<Rightarrow> takeWhile is_digit (c # r) # digit_runs (dropWhile is_digit r))"
  by pat_completeness auto
termination
proof (relation "measure length")
  fix s :: string and c r
  assume "dropWhile (\<lambda>c. \<not> is_digit c) s = c # r"
  then have "length (c # r) \<le> length s" by (metis length_dropWhile_le)
  then show "(dropWhile is_digit r, s) \<in> measure length"
    using length_dropWhile_le [of is_digit r] by simp
qed simp

declare digit_runs.simps [simp del]

definition safetyError :: "string \<Rightarrow> string \<Rightarrow> apierror" where
  "safetyError c message = OpenAI c message ''messages'' 422 None"

text \<open>The loop over the matches; the map \<open>ids\<close> is the list of its distinct keys.\<close>

fun collect_ids :: "string list \<Rightarrow> int64 list \<Rightarrow> apierror + int64 list" where
  "collect_ids [] ids = Inr ids"
| "collect_ids (m # ms) ids =
    (case ParseInt m of
       None \<Rightarrow> Inl (safetyError ''invalid_vmid''
         (utf8 [0x8BF7, 0x6C42, 0x5FC5, 0x987B, 0x5305, 0x542B, 0x4E00, 0x4E2A, 0x6709, 0x6548,
         0x7684, 0x865A, 0x62DF, 0x673A] @ '' ID'' @ utf8 [0x3002]))
     | Some vid \<Rightarrow>
         if vid \<le> 0 then Inl (safetyError ''invalid_vmid''
           (utf8 [0x8BF7, 0x6C42, 0x5FC5, 0x987B, 0x5305, 0x542B, 0x4E00, 0x4E2A, 0x6709, 0x6548,
         0x7684, 0x865A, 0x62DF, 0x673A] @ '' ID'' @ utf8 [0x3002]))
         else collect_ids ms (List.insert vid ids))"

definition containsAny :: "string \<Rightarrow> string list \<Rightarrow> bool" where
  "containsAny text markers = list_ex (\<lambda>marker. Contains text marker) markers"

definition action_markers :: "string list list" where
  "action_markers =
    [[utf8 [0x5F3A, 0x5236, 0x505C, 0x6B62], utf8 [0x5F3A, 0x5236, 0x5173, 0x673A],
      utf8 [0x5F3A, 0x5236, 0x65AD, 0x7535]],
     [utf8 [0x91CD, 0x65B0, 0x542F, 0x52A8], utf8 [0x91CD, 0x542F]],
     [utf8 [0x6B63, 0x5E38, 0x5173, 0x95ED], utf8 [0x6B63, 0x5E38, 0x5173, 0x673A],
      utf8 [0x4F18, 0x96C5, 0x5173, 0x673A], utf8 [0x5173, 0x95ED], utf8 [0x5173, 0x673A]],
     [utf8 [0x5F00, 0x542F], utf8 [0x542F, 0x52A8], utf8 [0x5F00, 0x673A], utf8 [0x6253,
      0x5F00]]]"

fun scan_group :: "string list \<Rightarrow> string \<Rightarrow> bool \<Rightarrow> string \<times> bool" where
  "scan_group [] remaining matched = (remaining, matched)"
| "scan_group (marker # markers) remaining matched =
    (if Contains remaining marker then scan_group markers (ReplaceAll remaining marker '''') True
     else scan_group markers remaining matched)"

fun count_groups :: "string list list \<Rightarrow> string \<Rightarrow> int \<Rightarrow> int" where
  "count_groups [] remaining count = count"
| "count_groups (markers # groups) remaining count =
    (case scan_group markers remaining False of (remaining, matched) \<Rightarrow>
       count_groups groups remaining (if matched then count + 1 else count))"

definition explicitActionCount :: "string \<Rightarrow> int" where
  "explicitActionCount text = count_groups action_markers text 0"

definition complex_command :: apierror where
  "complex_command = safetyError ''complex_managed_command''
    (utf8 [0x4E0D, 0x652F, 0x6301, 0x6761, 0x4EF6, 0x3001, 0x6279, 0x91CF, 0x6216, 0x987A,
         0x5E8F, 0x865A, 0x62DF, 0x673A, 0x64CD, 0x4F5C, 0x3002])"

definition AnalyzeInput :: "string \<Rightarrow> apierror + Input" where
  "AnalyzeInput text =
    (let original = TrimSpace text
     in case collect_ids (digit_runs original) [] of
       Inl e \<Rightarrow> Inl e
     | Inr ids \<Rightarrow>
         if length ids \<noteq> 1 then Inl (safetyError ''single_vmid_required''
           (utf8 [0x6BCF, 0x6B21, 0x8BF7, 0x6C42, 0x5FC5, 0x987B, 0x4E14, 0x53EA, 0x80FD, 0x6307,
         0x5B9A, 0x4E00, 0x4E2A, 0x865A, 0x62DF, 0x673A] @ '' ID'' @ utf8 [0x3002]))
         else if containsAny original (conditions @ batches) then Inl complex_command
         else if Contains original (utf8 [0x7B49]) \<and> Contains original (utf8 [0x518D])
         then Inl complex_command
         else if explicitActionCount original > 1
         then Inl (safetyError ''multiple_actions_not_supported''
           (utf8 [0x6BCF, 0x6B21, 0x8BF7, 0x6C42, 0x53EA, 0x80FD, 0x6267, 0x884C, 0x4E00, 0x4E2A,
         0x865A, 0x62DF, 0x673A, 0x64CD, 0x4F5C, 0x3002]))
         else Inr \<lparr>in_Original = original, in_VMID = hd ids,
                   in_HasNegation = containsAny original negations, in_Warnings = []\<rparr>)"

section \<open>The identifiers of a text\<close>

text \<open>A maximal run of ASCII digits, which is what the expression \<open>[0-9]+\<close> matches.\<close>

definition maximal_run :: "string \<Rightarrow> string \<Rightarrow> bool" where
  "maximal_run d s \<longleftrightarrow> (\<exists>a b. s = a @ d @ b \<and> d \<noteq> [] \<and> list_all is_digit d \<and>
     (a = [] \<or> \<not> is_digit (last a)) \<and> (b = [] \<or> \<not> is_digit (hd b)))"

lemma takeWhile_run:
  "list_all P d \<Longrightarrow> b = [] \<or> \<not> P (hd b) \<Longrightarrow> takeWhile P (d @ b) = d \<and> dropWhile P (d @ b) = b"
  by (induction d) (cases b, auto)+

lemma maximal_run_skip:
  assumes "list_all (\<lambda>c. \<not> is_digit c) p"
  shows "maximal_run d (p @ t) \<longleftrightarrow> maximal_run d t"
proof
  assume "maximal_run d (p @ t)"
  then obtain a b where r: "p @ t = a @ d @ b" "d \<noteq> []" "list_all is_digit d"
    "a = [] \<or> \<not> is_digit (last a)" "b = [] \<or> \<not> is_digit (hd b)"
    by (auto simp: maximal_run_def)
  from r(1) obtain a' where "a = p @ a'"
  proof (cases "length p \<le> length a")
    case True
    with r(1) have "p = take (length p) a" by (metis append_eq_append_conv_if)
    then show ?thesis using that by (metis append_take_drop_id)
  next
    case False
    define q where "q = drop (length a) p"
    from False r(1) have "take (length a) p = a"
      by (metis append_eq_conv_conj linorder_not_le nat_less_le take_append diff_is_0_eq' take_0 append_Nil2)
    then have pq: "p = a @ q" by (metis append_take_drop_id q_def)
    with False r(1) have q: "p = a @ q" "q \<noteq> []" "q @ t = d @ b" by auto
    then have "hd q = hd d" using r(2) by (metis hd_append2)
    then show ?thesis using q r(2,3) assms by (cases q; cases d) auto
  qed
  moreover from this r(4) have "a' = [] \<or> \<not> is_digit (last a')" by auto
  ultimately show "maximal_run d t"
    unfolding maximal_run_def using r by (intro exI [of _ a'] exI [of _ b]) simp
next
  assume "maximal_run d t"
  then obtain a b where "t = a @ d @ b" "d \<noteq> []" "list_all is_digit d"
    "a = [] \<or> \<not> is_digit (last a)" "b = [] \<or> \<not> is_digit (hd b)"
    by (auto simp: maximal_run_def)
  moreover have "p @ a = [] \<or> \<not> is_digit (last (p @ a))" if "a = [] \<or> \<not> is_digit (last a)" for a
    using that assms by (cases p rule: rev_cases) auto
  ultimately show "maximal_run d (p @ t)"
    unfolding maximal_run_def by (metis append.assoc)
qed

lemma maximal_run_first:
  assumes "list_all is_digit e" "e \<noteq> []" "u = [] \<or> \<not> is_digit (hd u)"
  shows "maximal_run d (e @ u) \<longleftrightarrow> d = e \<or> maximal_run d u"
proof
  assume "maximal_run d (e @ u)"
  then obtain a b where r: "e @ u = a @ d @ b" "d \<noteq> []" "list_all is_digit d"
    "a = [] \<or> \<not> is_digit (last a)" "b = [] \<or> \<not> is_digit (hd b)"
    by (auto simp: maximal_run_def)
  show "d = e \<or> maximal_run d u"
  proof (cases "a = []")
    case True
    then show ?thesis using r takeWhile_run [OF r(3,5)] takeWhile_run [OF assms(1,3)] by simp
  next
    case False
    with r(4) have l: "\<not> is_digit (last a)" by simp
    have "length e < length a"
    proof (rule ccontr)
      assume "\<not> length e < length a"
      with r(1) have "a = take (length a) e" by (metis append_eq_append_conv_if linorder_le_less_linear less_or_eq_imp_le)
      then have "set a \<subseteq> set e" by (metis set_take_subset)
      with last_in_set [OF False] assms(1) l show False by (auto simp: list_all_iff)
    qed
    with r(1) obtain a' where "a = e @ a'" "a' \<noteq> []" "u = a' @ d @ b"
      by (auto simp: append_eq_append_conv2)
    with r l show ?thesis by (auto simp: maximal_run_def)
  qed
next
  assume "d = e \<or> maximal_run d u"
  then show "maximal_run d (e @ u)"
  proof
    assume "d = e"
    with assms show ?thesis unfolding maximal_run_def by (intro exI [of _ "[]"] exI [of _ u]) simp
  next
    assume "maximal_run d u"
    then obtain a b where r: "u = a @ d @ b" "d \<noteq> []" "list_all is_digit d"
      "a = [] \<or> \<not> is_digit (last a)" "b = [] \<or> \<not> is_digit (hd b)"
      by (auto simp: maximal_run_def)
    have "a \<noteq> []" using r assms(3) by (cases d) auto
    with r show ?thesis unfolding maximal_run_def
      by (intro exI [of _ "e @ a"] exI [of _ b]) simp
  qed
qed

lemma maximal_run_none: "list_all (\<lambda>c. \<not> is_digit c) p \<Longrightarrow> \<not> maximal_run d p"
  by (cases d) (auto simp: maximal_run_def)

lemma hd_dropWhile_or: "dropWhile P s = [] \<or> \<not> P (hd (dropWhile P s))"
  using hd_dropWhile by blast

lemma set_digit_runs: "set (digit_runs s) = {d. maximal_run d s}"
proof (induction s rule: digit_runs.induct)
  case (1 s)
  let ?p = "takeWhile (\<lambda>c. \<not> is_digit c) s" and ?t = "dropWhile (\<lambda>c. \<not> is_digit c) s"
  have skip: "maximal_run d s \<longleftrightarrow> maximal_run d ?t" for d
    using maximal_run_skip [of ?p d ?t] takeWhile_all [of "\<lambda>c. \<not> is_digit c" s] by simp
  show ?case
  proof (cases ?t)
    case Nil
    then have "digit_runs s = []" by (subst digit_runs.simps) (simp only: list.case)
    then show ?thesis using skip maximal_run_none [of "[]"] unfolding Nil by simp
  next
    case (Cons c r)
    then have c: "is_digit c" using hd_dropWhile [of "\<lambda>c. \<not> is_digit c" s] by auto
    then have "maximal_run d ?t \<longleftrightarrow> d = takeWhile is_digit (c # r) \<or> maximal_run d (dropWhile is_digit r)" for d
      using maximal_run_first [of "takeWhile is_digit (c # r)" "dropWhile is_digit (c # r)" d]
        takeWhile_all [of is_digit "c # r"] hd_dropWhile_or [of is_digit "c # r"] Cons
      by (simp add: takeWhile_dropWhile_id)
    moreover have "digit_runs s = takeWhile is_digit (c # r) # digit_runs (dropWhile is_digit r)"
      using Cons by (subst digit_runs.simps) (simp only: list.case)
    ultimately show ?thesis using "1.IH" [OF Cons] skip by auto
  qed
qed


section \<open>What the checks accept\<close>

lemma containsAny_iff [go_strings]: "containsAny s ms \<longleftrightarrow> (\<exists>m \<in> set ms. sublist m s)"
  by (simp add: containsAny_def list_ex_iff Contains_iff)

lemma collect_ids_Inr:
  "collect_ids ms ids = Inr r \<Longrightarrow> (\<forall>m \<in> set ms. \<exists>v > 0. ParseInt m = Some v) \<and>
     set r = set ids \<union> {v. \<exists>m \<in> set ms. ParseInt m = Some v} \<and> (distinct ids \<longrightarrow> distinct r)"
  by (induction ms ids rule: collect_ids.induct) (auto split: option.splits if_splits)

lemma collect_ids_ok:
  "\<forall>m \<in> set ms. \<exists>v > 0. ParseInt m = Some v \<Longrightarrow> \<exists>r. collect_ids ms ids = Inr r"
  by (induction ms ids rule: collect_ids.induct) auto

text \<open>The loop ends with one identifier exactly when all runs denote the same positive number.\<close>

lemma collect_ids_single:
  "collect_ids ms [] = Inr [v] \<longleftrightarrow> ms \<noteq> [] \<and> 0 < v \<and> (\<forall>m \<in> set ms. ParseInt m = Some v)"
proof
  assume "collect_ids ms [] = Inr [v]"
  note c = collect_ids_Inr [OF this]
  from c have v: "{u. \<exists>m \<in> set ms. ParseInt m = Some u} = {v}" by simp
  then have "ParseInt m = Some v" if "m \<in> set ms" for m using that c by fastforce
  moreover from v have "ms \<noteq> []" by auto
  ultimately show "ms \<noteq> [] \<and> 0 < v \<and> (\<forall>m \<in> set ms. ParseInt m = Some v)"
    using c by (cases ms) auto
next
  assume r: "ms \<noteq> [] \<and> 0 < v \<and> (\<forall>m \<in> set ms. ParseInt m = Some v)"
  then obtain ids where i: "collect_ids ms [] = Inr ids" using collect_ids_ok by metis
  have "set ids = {v}" "distinct ids" using collect_ids_Inr [OF i] r by (cases ms, auto)+
  then have "ids = [v]" by (metis distinct.simps(2) list.set_cases set_ConsD singletonD singletonI
        empty_iff list.exhaust list.set_intros(1) list.set(1) list.set_intros(2))
  with i show "collect_ids ms [] = Inr [v]" by simp
qed

lemma count_groups_mono: "c \<le> count_groups gs s c"
proof (induction gs s c rule: count_groups.induct)
  case (2 markers groups remaining count)
  show ?case
  proof (cases "scan_group markers remaining False")
    case (Pair r m)
    then show ?thesis using "2.IH" [OF Pair [symmetric]] by (auto split: if_splits)
  qed
qed simp

lemma scan_group_miss:
  "(\<forall>m \<in> set ms. \<not> Contains s m) \<Longrightarrow> scan_group ms s b = (s, b)"
  by (induction ms s b rule: scan_group.induct) auto

lemma scan_group_keeps_matched: "snd (scan_group ms s True)"
  by (induction ms s True rule: scan_group.induct) auto

lemma scan_group_hit: "\<exists>m \<in> set ms. Contains s m \<Longrightarrow> snd (scan_group ms s b)"
  by (induction ms s b rule: scan_group.induct) (auto simp: scan_group_keeps_matched)

lemma count_groups_zero:
  "count_groups gs s c = c \<longleftrightarrow> (\<forall>g \<in> set gs. \<forall>m \<in> set g. \<not> Contains s m)"
proof (induction gs s c rule: count_groups.induct)
  case (2 g gs s c)
  show ?case
  proof (cases "\<exists>m \<in> set g. Contains s m")
    case True
    then have "snd (scan_group g s False)" by (rule scan_group_hit)
    with True show ?thesis
      using count_groups_mono [of "c + 1" gs "fst (scan_group g s False)"] by (auto split: prod.splits)
  next
    case False
    then have "scan_group g s False = (s, False)" using scan_group_miss by blast
    with False show ?thesis using "2.IH" by auto
  qed
qed simp

lemma AnalyzeInput_iff:
  "AnalyzeInput text = Inr inp \<longleftrightarrow>
    (\<exists>t. t = TrimSpace text \<and>
      0 < in_VMID inp \<and> (\<exists>d. maximal_run d t) \<and>
      (\<forall>d. maximal_run d t \<longrightarrow> ParseInt d = Some (in_VMID inp)) \<and>
      (\<forall>m \<in> set conditions \<union> set batches. \<not> sublist m t) \<and>
      \<not> (sublist (utf8 [0x7B49]) t \<and> sublist (utf8 [0x518D]) t) \<and>
      explicitActionCount t \<le> 1 \<and>
      inp = \<lparr>in_Original = t, in_VMID = in_VMID inp,
             in_HasNegation = (\<exists>m \<in> set negations. sublist m t), in_Warnings = []\<rparr>)"
proof -
  obtain t where t: "t = TrimSpace text" by simp
  have single: "collect_ids (digit_runs t) [] = Inr [v] \<longleftrightarrow>
      0 < v \<and> (\<exists>d. maximal_run d t) \<and> (\<forall>d. maximal_run d t \<longrightarrow> ParseInt d = Some v)" for v
  proof -
    have "digit_runs t \<noteq> [] \<longleftrightarrow> (\<exists>d. maximal_run d t)"
      using set_digit_runs [of t] by (metis empty_iff list.set(1) list.set_intros(1) mem_Collect_eq neq_Nil_conv)
    then show ?thesis using collect_ids_single [of "digit_runs t" v] set_digit_runs [of t] by auto
  qed
  have "AnalyzeInput text = Inr inp \<longleftrightarrow>
     (\<exists>v. collect_ids (digit_runs t) [] = Inr [v] \<and> \<not> containsAny t (conditions @ batches) \<and>
       \<not> (Contains t (utf8 [0x7B49]) \<and> Contains t (utf8 [0x518D])) \<and> explicitActionCount t \<le> 1 \<and>
       inp = \<lparr>in_Original = t, in_VMID = v, in_HasNegation = containsAny t negations, in_Warnings = []\<rparr>)"
    unfolding AnalyzeInput_def Let_def t [symmetric]
    by (auto split: sum.splits simp: length_Suc_conv not_le)
  then show ?thesis
    unfolding t [symmetric] by (auto simp: single containsAny_iff Contains_iff)
qed

text \<open>The texts that the code accepts, and what it gives for them.\<close>

definition acceptable :: "string \<Rightarrow> Input \<Rightarrow> bool" where
  "acceptable t inp \<longleftrightarrow>
    0 < in_VMID inp \<and> (\<exists>d. maximal_run d t) \<and>
    (\<forall>d. maximal_run d t \<longrightarrow> ParseInt d = Some (in_VMID inp)) \<and>
    (\<forall>m \<in> set conditions \<union> set batches. \<not> sublist m t) \<and>
    \<not> (sublist (utf8 [0x7B49]) t \<and> sublist (utf8 [0x518D]) t) \<and>
    explicitActionCount t \<le> 1 \<and>
    inp = \<lparr>in_Original = t, in_VMID = in_VMID inp,
           in_HasNegation = (\<exists>m \<in> set negations. sublist m t), in_Warnings = []\<rparr>"

text \<open>
  The texts whose numbers and actions have only one reading. The design document wants negative
  and ambiguous numbers and several actions rejected, and the code lets some of these pass (see
  the end of this theory), so that nothing is claimed of the acceptance of other texts. The
  numbers are clear when there is no sign, point or other ASCII punctuation, no dash, sign, point
  or digit of another script, no word for negative, no leading zero, and no letter right behind a
  digit. The actions are clear when no word for an action is there that the count does not know,
  and no word of a question beside one that it knows.
\<close>

definition number_marks :: "string list" where
  "number_marks = map (\<lambda>r. utf8 [r])
    ([0x2010, 0x2011, 0x2012, 0x2013, 0x2014, 0x2015, 0x2212, 0xFE63, 0xFF0B, 0xFF0C, 0xFF0D, 0xFF0E, 0x8D1F, 0x70B9] @
     [0xFF10, 0xFF11, 0xFF12, 0xFF13, 0xFF14, 0xFF15, 0xFF16, 0xFF17, 0xFF18, 0xFF19])"

definition clear_numbers :: "string \<Rightarrow> bool" where
  "clear_numbers t \<longleftrightarrow>
    list_all (\<lambda>c. c = CHR '' '' \<or> is_digit c \<or> is_letter c \<or> 128 \<le> code c) t \<and>
    list_all (\<lambda>m. \<not> Contains t m) number_marks \<and>
    list_all (\<lambda>d. hd d \<noteq> CHR ''0'') (digit_runs t) \<and>
    list_all (\<lambda>(c, c'). \<not> (is_digit c \<and> is_letter c')) (zip t (tl t))"

definition other_actions :: "string list" where
  "other_actions = [utf8 [0x5173, 0x6389], utf8 [0x505C, 0x6389], utf8 [0x91CD, 0x7F6E]]"

definition plain_stops :: "string list" where
  "plain_stops = [utf8 [0x505C, 0x6B62], utf8 [0x65AD, 0x7535]]"

definition questions :: "string list" where
  "questions = [utf8 [0x67E5, 0x8BE2], utf8 [0x67E5, 0x770B], utf8 [0x72B6, 0x6001],
     utf8 [0x662F, 0x5426, 0x8FD0, 0x884C], utf8 [0x5F00, 0x7740, 0x5417]]"

definition clear_actions :: "string \<Rightarrow> bool" where
  "clear_actions t \<longleftrightarrow>
    \<not> containsAny t other_actions \<and>
    (containsAny t plain_stops \<longrightarrow> containsAny t (hd action_markers)) \<and>
    (explicitActionCount t = 0 \<or> \<not> containsAny t questions)"

definition clear_text :: "string \<Rightarrow> bool" where
  "clear_text t \<longleftrightarrow> clear_numbers t \<and> clear_actions t"

lemma AnalyzeInput_acceptable: "AnalyzeInput text = Inr inp \<longleftrightarrow> acceptable (TrimSpace text) inp"
  unfolding AnalyzeInput_iff acceptable_def by simp


definition sample_text :: string where
  "sample_text = utf8 [0x542F, 0x52A8] @ '' VM 3052''"

lemma sample_text_accepted:
  "AnalyzeInput sample_text =
    Inr \<lparr>in_Original = sample_text, in_VMID = 3052, in_HasNegation = False, in_Warnings = []\<rparr>"
  by code_simp

lemma sample_texts_clear:
  "clear_text (TrimSpace sample_text)"
  "clear_text (utf8 [0x5F3A, 0x5236, 0x505C, 0x6B62] @ '' VM3052'')"
  "clear_text (utf8 [0x67E5, 0x8BE2] @ '' VM 3052 '' @ utf8 [0x72B6, 0x6001, 0xFF1F])"
  "\<not> clear_text (utf8 [0x542F, 0x52A8] @ '' VM -3052'')"
  "\<not> clear_text (utf8 [0x5173, 0x6389, 0x5E76, 0x91CD, 0x542F] @ '' VM 3052'')"
  by code_simp+


text \<open>
  The count of explicit actions is zero exactly when no action word of the table occurs in
  the text: cutting out the longer words never hides a shorter one.
\<close>

lemma explicitActionCount_zero:
  "explicitActionCount text = 0 \<longleftrightarrow> \<not> (\<exists>g \<in> set action_markers. \<exists>m \<in> set g. sublist m text)"
  using count_groups_zero [of action_markers "text" 0]
  by (auto simp: explicitActionCount_def Contains_iff)

lemma AnalyzeInput_fields:
  assumes "AnalyzeInput text = Inr inp"
  shows "in_Original inp = TrimSpace text" "0 < in_VMID inp" "int64_range (in_VMID inp)"
    "in_HasNegation inp \<longleftrightarrow> (\<exists>m \<in> set negations. sublist m (TrimSpace text))"
    "in_Warnings inp = []"
proof -
  obtain d where r: "0 < in_VMID inp" "maximal_run d (TrimSpace text)"
    "ParseInt d = Some (in_VMID inp)"
    and e: "inp = \<lparr>in_Original = TrimSpace text, in_VMID = in_VMID inp,
        in_HasNegation = (\<exists>m \<in> set negations. sublist m (TrimSpace text)), in_Warnings = []\<rparr>"
    using assms unfolding AnalyzeInput_iff by metis
  show "0 < in_VMID inp" "int64_range (in_VMID inp)" using r ParseInt_range by auto
  show "in_Original inp = TrimSpace text" by (subst e) simp
  show "in_Warnings inp = []" by (subst e) simp
  show "in_HasNegation inp \<longleftrightarrow> (\<exists>m \<in> set negations. sublist m (TrimSpace text))" by (subst e) simp
qed

lemma AnalyzeInput_trimmed: "AnalyzeInput (TrimSpace text) = AnalyzeInput text"
  by (simp add: AnalyzeInput_def TrimSpace_idem)

text \<open>
  A sign in front of the digits is not read: a text that asks for the VM -3052 is taken as one
  for the VM 3052, where the design document asks for the rejection of negative numbers.
\<close>

lemma AnalyzeInput_ignores_minus:
  "\<exists>inp. AnalyzeInput (utf8 [0x542F, 0x52A8] @ '' VM -3052'') = Inr inp \<and> in_VMID inp = 3052"
proof -
  have "(case AnalyzeInput (utf8 [0x542F, 0x52A8] @ '' VM -3052'') of
      Inr inp \<Rightarrow> in_VMID inp = 3052 | Inl e \<Rightarrow> False)" by code_simp
  then show ?thesis by (cases "AnalyzeInput (utf8 [0x542F, 0x52A8] @ '' VM -3052'')") auto
qed

text \<open>
  The word for switching off that the evidence of the shutdown action lists first among its
  short forms is missing from the count, so that a text with it and the word for a reboot
  passes this check (the check of the tool call then rejects it).
\<close>

lemma AnalyzeInput_two_actions:
  "\<exists>inp. AnalyzeInput (utf8 [0x5173, 0x6389, 0x5E76, 0x91CD, 0x542F] @ '' VM 3052'') = Inr inp"
proof -
  have "(case AnalyzeInput (utf8 [0x5173, 0x6389, 0x5E76, 0x91CD, 0x542F] @ '' VM 3052'') of
      Inr inp \<Rightarrow> True | Inl e \<Rightarrow> False)" by code_simp
  then show ?thesis
    by (cases "AnalyzeInput (utf8 [0x5173, 0x6389, 0x5E76, 0x91CD, 0x542F] @ '' VM 3052'')") auto
qed

end
