(* ===== verification/Json.thy ===== *)
theory Json
  imports Gostring
begin

text \<open>
  What the program uses of Go's \<open>encoding/json\<close>: the scanner, the decoder into typed
  values, and the encoder. The rules that the program's behaviour rests on are kept: the
  nesting limit, numbers read into integers only when they are integer literals in range,
  keys that match a field without regard to case, repeated keys that decode into the same
  field again, a type mismatch that is reported at the end of the decoding, text that follows
  a value in a stream.
\<close>

section \<open>Values and the scanner\<close>

text \<open>An element of an array and a member of an object carry their text in the document.\<close>

datatype json =
    JNull
  | JBool bool
  | JNum string
  | JStr string
  | JArr "(string \<times> json) list"
  | JObj "(string \<times> string \<times> json) list"

definition is_ws :: "char \<Rightarrow> bool" where
  "is_ws c \<longleftrightarrow> c = CHR 0x20 \<or> c = CHR 0x09 \<or> c = CHR 0x0D \<or> c = CHR 0x0A"

definition skip_ws :: "string \<Rightarrow> string" where
  "skip_ws s = dropWhile is_ws s"

definition hex_val :: "char \<Rightarrow> int option" where
  "hex_val c =
    (let n = code c in
     if 48 \<le> n \<and> n \<le> 57 then Some (n - 48)
     else if 97 \<le> n \<and> n \<le> 102 then Some (n - 87)
     else if 65 \<le> n \<and> n \<le> 70 then Some (n - 55)
     else None)"

definition is_hex :: "char \<Rightarrow> bool" where
  "is_hex c \<longleftrightarrow> hex_val c \<noteq> None"

definition simple_escape :: "char \<Rightarrow> char option" where
  "simple_escape c =
    (if c = CHR 0x22 \<or> c = CHR 0x5C \<or> c = CHR 0x2F then Some c
     else if c = CHR ''b'' then Some CHR 0x08
     else if c = CHR ''f'' then Some CHR 0x0C
     else if c = CHR ''n'' then Some CHR 0x0A
     else if c = CHR ''r'' then Some CHR 0x0D
     else if c = CHR ''t'' then Some CHR 0x09
     else None)"

text \<open>The text of a string up to its closing quote, and what follows the quote.\<close>

fun scan_str :: "string \<Rightarrow> (string \<times> string) option" where
  "scan_str [] = None"
| "scan_str (c # s) =
    (if c = CHR 0x22 then Some ([], s)
     else if c = CHR 0x5C then
       (case s of
          [] \<Rightarrow> None
        | e # t \<Rightarrow>
            if simple_escape e \<noteq> None then map_option (\<lambda>(b, r). (c # e # b, r)) (scan_str t)
            else if e = CHR ''u'' then
              (case t of
                 h1 # h2 # h3 # h4 # u \<Rightarrow>
                   if is_hex h1 \<and> is_hex h2 \<and> is_hex h3 \<and> is_hex h4
                   then map_option (\<lambda>(b, r). (c # e # h1 # h2 # h3 # h4 # b, r)) (scan_str u)
                   else None
               | _ \<Rightarrow> None)
            else None)
     else if code c < 0x20 then None
     else map_option (\<lambda>(b, r). (c # b, r)) (scan_str s))"

text \<open>\<open>getu4\<close>: the value of an escape \<open>\uXXXX\<close> at the front of a text.\<close>

definition getu4 :: "string \<Rightarrow> int option" where
  "getu4 s =
    (case s of
       b # u # h1 # h2 # h3 # h4 # r \<Rightarrow>
         if b = CHR 0x5C \<and> u = CHR ''u'' then
           (case (hex_val h1, hex_val h2, hex_val h3, hex_val h4) of
              (Some x1, Some x2, Some x3, Some x4) \<Rightarrow> Some (x1 * 4096 + x2 * 256 + x3 * 16 + x4)
            | _ \<Rightarrow> None)
         else None
     | _ \<Rightarrow> None)"

text \<open>The bytes that the text of a string stands for.\<close>

function unquote :: "string \<Rightarrow> string" where
  "unquote [] = []"
| "unquote (c # s) =
    (if c = CHR 0x5C then
       (case getu4 (c # s) of
          Some r \<Rightarrow>
            let s6 = drop 5 s in
            if 0xD800 \<le> r \<and> r < 0xE000 then
              (case getu4 s6 of
                 Some r1 \<Rightarrow>
                   if r < 0xDC00 \<and> 0xDC00 \<le> r1 \<and> r1 < 0xE000
                   then enc_rune ((r - 0xD800) * 1024 + (r1 - 0xDC00) + 0x10000) @ unquote (drop 6 s6)
                   else enc_rune 0xFFFD @ unquote s6
               | None \<Rightarrow> enc_rune 0xFFFD @ unquote s6)
            else enc_rune r @ unquote s6
        | None \<Rightarrow>
            (case s of
               [] \<Rightarrow> []
             | e # t \<Rightarrow> (case simple_escape e of Some x \<Rightarrow> [x] | None \<Rightarrow> []) @ unquote t))
     else if code c < 0x80 then c # unquote s
     else enc_rune (fst (decode_rune (c # s))) @ unquote (snd (decode_rune (c # s))))"
  by pat_completeness auto
termination
proof (relation "measure length")
  fix c :: char and s :: string
  show "(snd (decode_rune (c # s)), c # s) \<in> measure length"
    using decode_rune_shorter [of "c # s"] by simp
qed auto

declare unquote.simps(2) [simp del]

text \<open>A number literal at the front of a text, and what follows it.\<close>

definition scan_digits :: "string \<Rightarrow> (string \<times> string) option" where
  "scan_digits s =
    (if takeWhile is_digit s = [] then None else Some (takeWhile is_digit s, dropWhile is_digit s))"

definition scan_int :: "string \<Rightarrow> (string \<times> string) option" where
  "scan_int s =
    (case s of [] \<Rightarrow> None
     | c # r \<Rightarrow> if c = CHR ''0'' then Some ([c], r) else scan_digits s)"

definition scan_frac :: "string \<Rightarrow> (string \<times> string) option" where
  "scan_frac s =
    (case s of
       c # r \<Rightarrow> if c = CHR ''.'' then map_option (\<lambda>(d, t). (c # d, t)) (scan_digits r)
                else Some ([], s)
     | [] \<Rightarrow> Some ([], []))"

definition scan_exp :: "string \<Rightarrow> (string \<times> string) option" where
  "scan_exp s =
    (case s of
       c # r \<Rightarrow>
         if c = CHR ''e'' \<or> c = CHR ''E'' then
           (case r of
              sg # q \<Rightarrow>
                if sg = CHR ''+'' \<or> sg = CHR ''-''
                then map_option (\<lambda>(d, t). (c # sg # d, t)) (scan_digits q)
                else map_option (\<lambda>(d, t). (c # d, t)) (scan_digits r)
            | [] \<Rightarrow> None)
         else Some ([], s)
     | [] \<Rightarrow> Some ([], []))"

definition scan_num :: "string \<Rightarrow> (string \<times> string) option" where
  "scan_num s =
    (let (sg, s0) = (case s of c # r \<Rightarrow> if c = CHR ''-'' then ([c], r) else ([], s) | [] \<Rightarrow> ([], [])) in
     case scan_int s0 of None \<Rightarrow> None
     | Some (i, s1) \<Rightarrow>
         (case scan_frac s1 of None \<Rightarrow> None
          | Some (f, s2) \<Rightarrow>
              (case scan_exp s2 of None \<Rightarrow> None
               | Some (e, s3) \<Rightarrow> Some (sg @ i @ f @ e, s3))))"

text \<open>The text that was read from \<open>s\<close> when \<open>r\<close> is left of it.\<close>

definition read_from :: "string \<Rightarrow> string \<Rightarrow> string" where
  "read_from s r = take (length s - length r) s"

definition max_depth :: int where
  "max_depth = 10000"

text \<open>
  The value at the front of a text that starts with no white space. The first argument is
  fuel; the length of the text is always enough (\<open>parse_value_fuel\<close> below). The second is
  the number of open objects and arrays.
\<close>

fun parse_value :: "nat \<Rightarrow> int \<Rightarrow> string \<Rightarrow> (json \<times> string) option"
  and parse_elems :: "nat \<Rightarrow> int \<Rightarrow> string \<Rightarrow> ((string \<times> json) list \<times> string) option"
  and parse_members :: "nat \<Rightarrow> int \<Rightarrow> string \<Rightarrow> ((string \<times> string \<times> json) list \<times> string) option"
where
  "parse_value 0 d s = None"
| "parse_value (Suc n) d s =
    (case s of
       [] \<Rightarrow> None
     | c # r \<Rightarrow>
         if c = CHR ''{'' then
           if d \<ge> max_depth then None
           else if HasPrefix (skip_ws r) ''}'' then Some (JObj [], tl (skip_ws r))
           else map_option (\<lambda>(ms, t). (JObj ms, t)) (parse_members n (d + 1) (skip_ws r))
         else if c = CHR ''['' then
           if d \<ge> max_depth then None
           else if HasPrefix (skip_ws r) '']'' then Some (JArr [], tl (skip_ws r))
           else map_option (\<lambda>(es, t). (JArr es, t)) (parse_elems n (d + 1) (skip_ws r))
         else if c = CHR 0x22 then map_option (\<lambda>(b, t). (JStr (unquote b), t)) (scan_str r)
         else if HasPrefix s ''null'' then Some (JNull, drop 4 s)
         else if HasPrefix s ''true'' then Some (JBool True, drop 4 s)
         else if HasPrefix s ''false'' then Some (JBool False, drop 5 s)
         else map_option (\<lambda>(l, t). (JNum l, t)) (scan_num s))"
| "parse_elems 0 d s = None"
| "parse_elems (Suc n) d s =
    (case parse_value n d s of
       None \<Rightarrow> None
     | Some (v, r) \<Rightarrow>
         (case skip_ws r of
            [] \<Rightarrow> None
          | c # t \<Rightarrow>
              if c = CHR '']'' then Some ([(read_from s r, v)], t)
              else if c = CHR '','' then
                map_option (\<lambda>(es, u). ((read_from s r, v) # es, u)) (parse_elems n d (skip_ws t))
              else None))"
| "parse_members 0 d s = None"
| "parse_members (Suc n) d s =
    (case s of
       [] \<Rightarrow> None
     | q # s1 \<Rightarrow>
         if q \<noteq> CHR 0x22 then None
         else case scan_str s1 of
           None \<Rightarrow> None
         | Some (key, s2) \<Rightarrow>
             (case skip_ws s2 of
                [] \<Rightarrow> None
              | c # s3 \<Rightarrow>
                  if c \<noteq> CHR '':'' then None
                  else case parse_value n d (skip_ws s3) of
                    None \<Rightarrow> None
                  | Some (v, r) \<Rightarrow>
                      (case skip_ws r of
                         [] \<Rightarrow> None
                       | e # t \<Rightarrow>
                           if e = CHR ''}''
                           then Some ([(unquote key, read_from (skip_ws s3) r, v)], t)
                           else if e = CHR '','' then
                             map_option (\<lambda>(ms, u). ((unquote key, read_from (skip_ws s3) r, v) # ms, u))
                               (parse_members n d (skip_ws t))
                           else None)))"

definition parse :: "string \<Rightarrow> (json \<times> string) option" where
  "parse s = parse_value (Suc (length s)) 0 (skip_ws s)"

text \<open>
  \<open>Decoder.Decode\<close> on a stream: the next value and the text after it, the end of the
  stream, or an error. \<open>Unmarshal\<close> wants one value and nothing but white space after it.
\<close>

datatype next_value = EndOfStream | BadValue | NextValue json string

definition next_json :: "string \<Rightarrow> next_value" where
  "next_json s =
    (if skip_ws s = [] then EndOfStream
     else case parse s of None \<Rightarrow> BadValue | Some (v, r) \<Rightarrow> NextValue v r)"

definition whole_json :: "string \<Rightarrow> json option" where
  "whole_json s =
    (case parse s of None \<Rightarrow> None | Some (v, r) \<Rightarrow> if skip_ws r = [] then Some v else None)"

section \<open>The fuel is enough\<close>

lemma skip_ws_length: "length (skip_ws s) \<le> length s"
  by (simp add: skip_ws_def length_dropWhile_le)

lemma scan_str_shorter: "scan_str s = Some (b, r) \<Longrightarrow> length r < length s"
proof (induction s arbitrary: b rule: scan_str.induct)
  case (2 c s)
  consider (quote) "c = CHR 0x22"
    | (escape) e t where "c = CHR 0x5C" "s = e # t" "simple_escape e \<noteq> None"
    | (unicode) e h1 h2 h3 h4 u where "c = CHR 0x5C" "s = e # h1 # h2 # h3 # h4 # u"
        "simple_escape e = None" "e = CHR ''u''" "is_hex h1 \<and> is_hex h2 \<and> is_hex h3 \<and> is_hex h4"
    | (plain) "c \<noteq> CHR 0x22" "c \<noteq> CHR 0x5C" "\<not> code c < 0x20"
    using "2.prems" by (auto split: list.splits if_splits)
  then show ?case
  proof cases
    case escape
    then obtain b' where "scan_str t = Some (b', r)" using "2.prems" by auto
    from "2.IH"(1) [OF _ escape(1,2,3) this] escape show ?thesis by simp
  next
    case unicode
    then obtain b' where "scan_str u = Some (b', r)" using "2.prems" by auto
    from "2.IH"(2) [OF _ unicode(1,2) _ unicode(4) refl refl refl refl unicode(5) this] unicode
    show ?thesis by simp
  next
    case plain
    then obtain b' where "scan_str s = Some (b', r)" using "2.prems" by auto
    from "2.IH"(3) [OF plain this] show ?thesis by simp
  qed (use "2.prems" in simp)
qed simp

lemma scan_digits_shorter: "scan_digits s = Some (b, r) \<Longrightarrow> length r < length s"
proof -
  assume "scan_digits s = Some (b, r)"
  then have "takeWhile is_digit s \<noteq> []" "r = dropWhile is_digit s" by (auto simp: scan_digits_def split: if_splits)
  then show ?thesis
    using length_append [of "takeWhile is_digit s" "dropWhile is_digit s"] by simp
qed

lemma scan_int_shorter: "scan_int s = Some (b, r) \<Longrightarrow> length r < length s"
  by (auto simp: scan_int_def split: list.splits if_splits dest: scan_digits_shorter)

lemma scan_frac_shorter: "scan_frac s = Some (b, r) \<Longrightarrow> length r \<le> length s"
  by (auto simp: scan_frac_def split: list.splits if_splits dest: scan_digits_shorter)

lemma scan_exp_shorter: "scan_exp s = Some (b, r) \<Longrightarrow> length r \<le> length s"
  by (auto simp: scan_exp_def split: list.splits if_splits dest!: scan_digits_shorter)

lemma scan_num_shorter: "scan_num s = Some (b, r) \<Longrightarrow> length r < length s"
  by (auto simp: scan_num_def Let_def split: prod.splits list.splits if_splits option.splits
      dest!: scan_int_shorter scan_frac_shorter scan_exp_shorter)

lemma drop_prefix_shorter: "HasPrefix (c # s) p \<Longrightarrow> p \<noteq> [] \<Longrightarrow> length (drop (length p) (c # s)) < length (c # s)"
  by (cases p) (auto simp: HasPrefix_def)

lemma skip_ws_Cons: "skip_ws s = c # t \<Longrightarrow> Suc (length t) \<le> length s"
  using skip_ws_length [of s] by simp

lemma fuel_elems_step:
  assumes "parse_value n d s = Some (v, r)" "skip_ws r = c # t"
  shows "parse_elems (Suc n) d s =
    (if c = CHR '']'' then Some ([(read_from s r, v)], t)
     else if c = CHR '','' then
       map_option (\<lambda>(es, u). ((read_from s r, v) # es, u)) (parse_elems n d (skip_ws t))
     else None)"
  using assms by simp

text \<open>
  Whatever the fuel of a successful run, the number of characters it has read is fuel enough
  for the same result.
\<close>

lemma parse_fuel_aux:
  "parse_value n d s = Some (v, r) \<Longrightarrow>
     length r < length s \<and> (\<forall>m \<ge> length s - length r. parse_value m d s = Some (v, r))"
  "parse_elems n d s = Some (es, r) \<Longrightarrow>
     length r < length s \<and> (\<forall>m \<ge> length s - length r. parse_elems m d s = Some (es, r))"
  "parse_members n d s = Some (ms, r) \<Longrightarrow>
     length r < length s \<and> (\<forall>m \<ge> length s - length r. parse_members m d s = Some (ms, r))"
proof (induction n d s and n d s and n d s arbitrary: v r and es r and ms r
    rule: parse_value_parse_elems_parse_members.induct)
  case (2 n d s)
  from "2.prems" obtain c t where s: "s = c # t" by (cases s) auto
  have tl: "length (skip_ws t) - Suc 0 < Suc (length t)"
    using skip_ws_length [of t] by linarith
  consider (brace) "c = CHR ''{''" "\<not> HasPrefix (skip_ws t) ''}''"
    | (bracket) "c = CHR ''[''" "\<not> HasPrefix (skip_ws t) '']''"
    | (flat) "\<not> (c = CHR ''{'' \<and> \<not> HasPrefix (skip_ws t) ''}'')"
        "\<not> (c = CHR ''['' \<and> \<not> HasPrefix (skip_ws t) '']'')"
    by blast
  then show ?case
  proof cases
    case brace
    then obtain ms where ms: "d < max_depth" "parse_members n (d + 1) (skip_ws t) = Some (ms, r)" "v = JObj ms"
      using "2.prems" s by (auto split: if_splits)
    from "2.IH"(1) [OF s brace(1) _ brace(2) ms(2)] ms(1)
    have IH: "length r < length (skip_ws t)"
      "\<forall>m \<ge> length (skip_ws t) - length r. parse_members m (d + 1) (skip_ws t) = Some (ms, r)"
      by simp_all
    have "parse_value m d s = Some (v, r)" if mb: "m \<ge> length s - length r" for m
    proof -
      obtain m' where "m = Suc m'" "m' \<ge> length (skip_ws t) - length r"
        using mb IH(1) skip_ws_length [of t] s by (cases m) auto
      with IH brace ms s show ?thesis by simp
    qed
    with IH(1) skip_ws_length [of t] s show ?thesis by simp
  next
    case bracket
    then obtain es where es: "d < max_depth" "parse_elems n (d + 1) (skip_ws t) = Some (es, r)" "v = JArr es"
      using "2.prems" s by (auto split: if_splits)
    from "2.IH"(2) [OF s _ bracket(1) _ bracket(2) es(2)] es(1) bracket(1)
    have IH: "length r < length (skip_ws t)"
      "\<forall>m \<ge> length (skip_ws t) - length r. parse_elems m (d + 1) (skip_ws t) = Some (es, r)"
      by simp_all
    have "parse_value m d s = Some (v, r)" if mb: "m \<ge> length s - length r" for m
    proof -
      obtain m' where "m = Suc m'" "m' \<ge> length (skip_ws t) - length r"
        using mb IH(1) skip_ws_length [of t] s by (cases m) auto
      with IH bracket es s show ?thesis by simp
    qed
    with IH(1) skip_ws_length [of t] s show ?thesis by simp
  next
    case flat
    have len: "length r < length s"
      using "2.prems" s flat tl
      by (auto split: if_splits simp: HasPrefix_def less_SucI dest!: scan_str_shorter scan_num_shorter
          simp del: HasPrefix_def)
    have any: "parse_value (Suc m') d s = Some (v, r)" for m'
      using "2.prems" s flat by (auto split: if_splits)
    show ?thesis
    proof (intro conjI allI impI)
      fix m assume "m \<ge> length s - length r"
      with len have "m \<noteq> 0" by linarith
      then have "m = Suc (m - 1)" by simp
      moreover have "parse_value (Suc (m - 1)) d s = Some (v, r)" by (rule any)
      ultimately show "parse_value m d s = Some (v, r)" by (rule ssubst [of m "Suc (m - 1)" "\<lambda>k. parse_value k d s = Some (v, r)"])
    qed (rule len)
  qed
next
  case (4 n d s)
  from "4.prems" obtain v1 r1 where v1: "parse_value n d s = Some (v1, r1)" by (auto split: option.splits)
  note IH1 = "4.IH"(1) [OF v1]
  obtain c t where t: "skip_ws r1 = c # t" using "4.prems" v1 by (auto split: list.splits)
  have l: "Suc (length t) \<le> length r1" by (rule skip_ws_Cons [OF t])
  show ?case
  proof (cases "c = CHR '']''")
    case True
    with "4.prems" v1 t have e: "es = [(read_from s r1, v1)]" "r = t" by simp_all
    have "parse_elems m d s = Some (es, r)" if mb: "m \<ge> length s - length r" for m
    proof -
      obtain m' where "m = Suc m'" "m' \<ge> length s - length r1"
        using mb IH1 l e by (cases m) auto
      then show ?thesis using IH1 t True e by simp
    qed
    with IH1 l e show ?thesis by simp
  next
    case False
    with "4.prems" v1 t have c: "c = CHR '',''" by (auto split: if_splits)
    with "4.prems" v1 t obtain es' where e: "parse_elems n d (skip_ws t) = Some (es', r)"
      "es = (read_from s r1, v1) # es'" by auto
    note IH2 = "4.IH"(2) [OF v1 refl t False c e(1)]
    have "parse_elems m d s = Some (es, r)" if mb: "m \<ge> length s - length r" for m
    proof -
      obtain m' where "m = Suc m'" "m' \<ge> length s - length r1" "m' \<ge> length (skip_ws t) - length r"
        using mb IH1 IH2 l skip_ws_length [of t] by (cases m) auto
      then show ?thesis using IH1 IH2 t c e by simp
    qed
    with IH1 IH2 l skip_ws_length [of t] show ?thesis by simp
  qed
next
  case (6 n d s)
  from "6.prems" obtain s1 where s: "s = CHR 0x22 # s1" by (auto split: list.splits if_splits)
  with "6.prems" obtain key s2 where k: "scan_str s1 = Some (key, s2)" by (auto split: option.splits)
  with "6.prems" s obtain s3 where s3: "skip_ws s2 = CHR '':'' # s3" by (auto split: list.splits if_splits)
  with "6.prems" s k obtain v1 r1 where v1: "parse_value n d (skip_ws s3) = Some (v1, r1)"
    by (auto split: option.splits)
  with "6.prems" s k s3 obtain c t where t: "skip_ws r1 = c # t" by (auto split: list.splits)
  note IH1 = "6.IH"(1) [OF s _ k refl s3 _ v1, simplified]
  have l: "Suc (length t) \<le> length r1" "length s2 < length s1" "Suc (length s3) \<le> length s2"
    "length (skip_ws s3) \<le> length s3"
    using skip_ws_Cons [OF t] scan_str_shorter [OF k] skip_ws_Cons [OF s3] skip_ws_length [of s3] by simp_all
  show ?case
  proof (cases "c = CHR ''}''")
    case True
    with "6.prems" s k s3 v1 t have e: "ms = [(unquote key, read_from (skip_ws s3) r1, v1)]" "r = t"
      by simp_all
    have "parse_members m d s = Some (ms, r)" if mb: "m \<ge> length s - length r" for m
    proof -
      obtain m' where "m = Suc m'" "m' \<ge> length (skip_ws s3) - length r1"
        using mb IH1 l e s by (cases m) auto
      then show ?thesis using IH1 s k s3 t True e by simp
    qed
    with IH1 l e s show ?thesis by simp
  next
    case False
    with "6.prems" s k s3 v1 t have c: "c = CHR '',''" by (auto split: if_splits)
    with "6.prems" s k s3 v1 t obtain ms' where e: "parse_members n d (skip_ws t) = Some (ms', r)"
      "ms = (unquote key, read_from (skip_ws s3) r1, v1) # ms'" by auto
    note IH2 = "6.IH"(2) [OF s _ k refl s3 _ v1 refl t False c e(1), simplified]
    have "parse_members m d s = Some (ms, r)" if mb: "m \<ge> length s - length r" for m
    proof -
      obtain m' where "m = Suc m'" "m' \<ge> length (skip_ws s3) - length r1"
        "m' \<ge> length (skip_ws t) - length r"
        using mb IH1 IH2 l s skip_ws_length [of t] by (cases m) auto
      then show ?thesis using IH1 IH2 s k s3 t c e by simp
    qed
    with IH1 IH2 l s skip_ws_length [of t] show ?thesis by simp
  qed
qed simp_all

lemma parse_value_fuel:
  "parse_value n 0 (skip_ws s) = Some (v, r) \<Longrightarrow> parse s = Some (v, r)"
proof -
  assume "parse_value n 0 (skip_ws s) = Some (v, r)"
  from parse_fuel_aux(1) [OF this] have "\<forall>m \<ge> length (skip_ws s) - length r. parse_value m 0 (skip_ws s) = Some (v, r)"
    by simp
  then show ?thesis using skip_ws_length [of s] by (simp add: parse_def del: parse_value.simps)
qed

end
