(* ===== verification/Decode.thy ===== *)
theory Decode
  imports Json
begin

text \<open>
  Decoding of JSON into typed values, as \<open>encoding/json\<close> does it. A decoder takes the text
  of a value, the value, and what the destination held before; it gives what the destination
  holds afterwards and whether all went well. A value of the wrong type leaves the destination
  as it was, is remembered as an error, and the decoding goes on; \<open>null\<close> leaves a plain
  destination alone. A repeated key decodes into the same field again. Of the array behind a
  slice only the visible part is kept.
\<close>

type_synonym 'a decoder = "string \<Rightarrow> json \<Rightarrow> 'a \<Rightarrow> 'a \<times> bool"
type_synonym 'r field = "string \<times> 'r decoder"

definition dec_string :: "string decoder" where
  "dec_string raw j old = (case j of JNull \<Rightarrow> (old, True) | JStr s \<Rightarrow> (s, True) | _ \<Rightarrow> (old, False))"

definition dec_bool :: "bool decoder" where
  "dec_bool raw j old = (case j of JNull \<Rightarrow> (old, True) | JBool b \<Rightarrow> (b, True) | _ \<Rightarrow> (old, False))"

text \<open>A number is read into an integer only when its literal is an integer in range.\<close>

definition dec_int64 :: "int64 decoder" where
  "dec_int64 raw j old =
    (case j of
       JNull \<Rightarrow> (old, True)
     | JNum l \<Rightarrow> (case ParseInt l of Some n \<Rightarrow> (n, True) | None \<Rightarrow> (old, False))
     | _ \<Rightarrow> (old, False))"

text \<open>
  A \<open>float64\<close>: only whether the literal is in range matters, and that is whether its
  exact value rounds to a finite number.
\<close>

definition float_limit :: int where
  "float_limit = 2 ^ 1024 - 2 ^ 970"

definition float_ok :: "string \<Rightarrow> bool" where
  "float_ok l =
    (let l = (if HasPrefix l ''-'' then tl l else l);
         i = takeWhile is_digit l; r = dropWhile is_digit l;
         f = (if HasPrefix r ''.'' then takeWhile is_digit (tl r) else []);
         r = (if HasPrefix r ''.'' then dropWhile is_digit (tl r) else r);
         m = the (parse_digits 0 (i @ f));
         (neg, ds) = split_sign (tl r);
         e = (if r = [] then 0 else (if neg then -1 else 1) * the (parse_digits 0 ds)) - int (length f)
     in m = 0 \<or> (if e \<ge> 0 then e \<le> 309 \<and> m * 10 ^ nat e < float_limit
                 else m < float_limit * 10 ^ nat (- e)))"

definition dec_float64 :: "string decoder" where
  "dec_float64 raw j old =
    (case j of
       JNull \<Rightarrow> (old, True)
     | JNum l \<Rightarrow> (if float_ok l then (l, True) else (old, False))
     | _ \<Rightarrow> (old, False))"

text \<open>A \<open>json.RawMessage\<close> takes the text of any value, \<open>null\<close> included.\<close>

definition dec_raw :: "string decoder" where
  "dec_raw raw j old = (raw, True)"

text \<open>A pointer: \<open>null\<close> makes it nil, anything else decodes into a fresh or the old target.\<close>

definition dec_ptr :: "'a decoder \<Rightarrow> 'a \<Rightarrow> 'a option decoder" where
  "dec_ptr dec zero raw j old =
    (case j of
       JNull \<Rightarrow> (None, True)
     | _ \<Rightarrow> (case dec raw j (case old of Some x \<Rightarrow> x | None \<Rightarrow> zero) of (x, ok) \<Rightarrow> (Some x, ok)))"

fun dec_elems :: "'a decoder \<Rightarrow> 'a \<Rightarrow> (string \<times> json) list \<Rightarrow> 'a list \<Rightarrow> 'a list \<times> bool" where
  "dec_elems dec zero [] old = ([], True)"
| "dec_elems dec zero ((raw, j) # es) old =
    (case dec raw j (case old of [] \<Rightarrow> zero | x # xs \<Rightarrow> x) of
       (y, ok) \<Rightarrow> (case dec_elems dec zero es (tl old) of (ys, oks) \<Rightarrow> (y # ys, ok \<and> oks)))"

definition dec_slice :: "'a decoder \<Rightarrow> 'a \<Rightarrow> 'a list decoder" where
  "dec_slice dec zero raw j old =
    (case j of
       JNull \<Rightarrow> ([], True)
     | JArr es \<Rightarrow> dec_elems dec zero es old
     | _ \<Rightarrow> (old, False))"

text \<open>
  The key of a member finds the field of the same name, case aside: ASCII letters are folded
  to upper case, and so are the two other runes that fold to an ASCII letter.
\<close>

definition fold_rune :: "rune \<Rightarrow> rune" where
  "fold_rune r =
    (if 97 \<le> r \<and> r \<le> 122 then r - 32
     else if r = 0x017F then 83
     else if r = 0x212A then 75
     else r)"

definition fold_name :: "string \<Rightarrow> rune list" where
  "fold_name s = map fold_rune (runes s)"

definition find_field :: "'r field list \<Rightarrow> string \<Rightarrow> 'r decoder option" where
  "find_field fields key =
    map_option snd (find (\<lambda>(name, dec). fold_name name = fold_name key) fields)"

text \<open>With \<open>strict\<close> an unknown key is an error (\<open>DisallowUnknownFields\<close>).\<close>

fun dec_members :: "bool \<Rightarrow> 'r field list \<Rightarrow> (string \<times> string \<times> json) list \<Rightarrow> 'r \<Rightarrow> 'r \<times> bool" where
  "dec_members strict fields [] r = (r, True)"
| "dec_members strict fields ((key, raw, j) # ms) r =
    (case find_field fields key of
       Some dec \<Rightarrow>
         (case dec raw j r of (r, ok) \<Rightarrow>
           (case dec_members strict fields ms r of (r, oks) \<Rightarrow> (r, ok \<and> oks)))
     | None \<Rightarrow> (case dec_members strict fields ms r of (r, oks) \<Rightarrow> (r, \<not> strict \<and> oks)))"

definition dec_struct :: "bool \<Rightarrow> 'r field list \<Rightarrow> 'r decoder" where
  "dec_struct strict fields raw j old =
    (case j of
       JNull \<Rightarrow> (old, True)
     | JObj ms \<Rightarrow> dec_members strict fields ms old
     | _ \<Rightarrow> (old, False))"

text \<open>A field: its name, the decoder of its type, and how the record is read and updated.\<close>

definition fld :: "string \<Rightarrow> 'a decoder \<Rightarrow> ('r \<Rightarrow> 'a) \<Rightarrow> (('a \<Rightarrow> 'a) \<Rightarrow> 'r \<Rightarrow> 'r) \<Rightarrow> 'r field" where
  "fld name dec get upd =
    (name, \<lambda>raw j r. (case dec raw j (get r) of (x, ok) \<Rightarrow> (upd (\<lambda>_. x) r, ok)))"

text \<open>
  \<open>Decoder.Decode\<close> and \<open>Unmarshal\<close> into a destination that holds \<open>old\<close>: a syntax
  error leaves it alone, an error of type does not.
\<close>

datatype 'a decoded = DecodeEOF | DecodeFailed 'a | Decoded 'a string

definition decode_next :: "'a decoder \<Rightarrow> 'a \<Rightarrow> string \<Rightarrow> 'a decoded" where
  "decode_next dec old s =
    (case next_json s of
       EndOfStream \<Rightarrow> DecodeEOF
     | BadValue \<Rightarrow> DecodeFailed old
     | NextValue j r \<Rightarrow>
         (case dec (read_from (skip_ws s) r) j old of
            (x, True) \<Rightarrow> Decoded x r | (x, False) \<Rightarrow> DecodeFailed x))"

definition unmarshal :: "'a decoder \<Rightarrow> 'a \<Rightarrow> string \<Rightarrow> 'a option" where
  "unmarshal dec old s =
    (case whole_json s of
       None \<Rightarrow> None
     | Some j \<Rightarrow> (case dec s j old of (x, ok) \<Rightarrow> if ok then Some x else None))"

text \<open>\<open>io.LimitReader\<close>: at most \<open>n\<close> bytes of a body.\<close>

definition LimitReader :: "string \<Rightarrow> int \<Rightarrow> string" where
  "LimitReader s n = (if int (length s) \<le> n then s else take (nat n) s)"

lemma LimitReader_prefix: "prefix (LimitReader s n) s"
  by (simp add: LimitReader_def take_is_prefix)

lemma dec_string_Decoded: "dec_string raw j old = (x, True) \<Longrightarrow> j = JStr x \<or> j = JNull \<and> x = old"
  by (auto simp: dec_string_def split: json.splits)

lemma dec_int64_Decoded:
  "dec_int64 raw j old = (x, True) \<Longrightarrow> (\<exists>l. j = JNum l \<and> ParseInt l = Some x) \<or> j = JNull \<and> x = old"
  by (auto simp: dec_int64_def split: json.splits option.splits)

end
