(* ===== verification/Encode.thy ===== *)
theory Encode
  imports Json
begin

text \<open>
  The encoder of \<open>encoding/json\<close> as the program uses it: strings with the HTML characters
  escaped, integers, booleans, objects in the order of the fields of a struct (or of the
  sorted keys of a map), and the text of a \<open>json.RawMessage\<close>, which is checked and made
  compact. Encoding fails only for a raw message that is not JSON.
\<close>

definition backslash :: char where "backslash = CHR 0x5C"
definition quote :: char where "quote = CHR 0x22"

definition esc_ascii :: "char \<Rightarrow> string" where
  "esc_ascii c =
    (let n = code c in
     if c = quote \<or> c = backslash then [backslash, c]
     else if n = 8 then [backslash, CHR ''b'']
     else if n = 12 then [backslash, CHR ''f'']
     else if n = 10 then [backslash, CHR ''n'']
     else if n = 13 then [backslash, CHR ''r'']
     else if n = 9 then [backslash, CHR ''t'']
     else if n < 0x20 \<or> c = CHR ''<'' \<or> c = CHR ''>'' \<or> c = CHR 0x26
     then [backslash, CHR ''u'', CHR ''0'', CHR ''0'', hex_digit (n div 16), hex_digit (n mod 16)]
     else [c])"

lemma decode_rune_pair: "(r, t) = decode_rune (c # s) \<Longrightarrow> length t < Suc (length s)"
  using decode_rune_shorter [of "c # s"] by (cases "decode_rune (c # s)") simp

function escape :: "string \<Rightarrow> string" where
  "escape [] = []"
| "escape (c # s) =
    (if code c < 0x80 then esc_ascii c @ escape s
     else
       (case decode_rune (c # s) of (r, t) \<Rightarrow>
         (if r = 0xFFFD \<and> \<not> HasPrefix (c # s) (enc_rune 0xFFFD) then backslash # ''ufffd''
          else if r = 0x2028 \<or> r = 0x2029 then backslash # ''u202'' @ [hex_digit (r mod 16)]
          else enc_rune r) @ escape t))"
  by pat_completeness auto
termination
  by (relation "measure length") (auto dest: decode_rune_pair)

declare escape.simps(2) [simp del]

definition enc_string :: "string \<Rightarrow> string" where
  "enc_string s = quote # escape s @ [quote]"

definition enc_int :: "int \<Rightarrow> string" where
  "enc_int n = FormatInt n"

definition enc_bool :: "bool \<Rightarrow> string" where
  "enc_bool b = (if b then ''true'' else ''false'')"

definition enc_array :: "string list \<Rightarrow> string" where
  "enc_array xs = ''['' @ Join xs '','' @ '']''"

definition enc_object :: "(string \<times> string) list \<Rightarrow> string" where
  "enc_object fields =
    CHR 0x7B # Join (map (\<lambda>(k, v). enc_string k @ '':'' @ v) fields) '','' @ [CHR 0x7D]"

text \<open>Compaction of a raw message; the first argument says whether it is inside a string.\<close>

fun compact :: "bool \<Rightarrow> string \<Rightarrow> string" where
  "compact b [] = []"
| "compact b (c # s) =
    (if c = CHR ''<'' \<or> c = CHR ''>'' \<or> c = CHR 0x26 then
       [backslash, CHR ''u'', CHR ''0'', CHR ''0'', hex_digit (code c div 16), hex_digit (code c mod 16)]
         @ compact b s
     else if code c = 0xE2 then
       (case s of
          c1 # c2 # t \<Rightarrow>
            if code c1 = 0x80 \<and> (code c2 = 0xA8 \<or> code c2 = 0xA9)
            then backslash # ''u202'' @ [hex_digit (code c2 mod 16)] @ compact b t
            else c # compact b s
        | _ \<Rightarrow> c # compact b s)
     else if b then
       if c = backslash then (case s of e # t \<Rightarrow> c # e # compact b t | [] \<Rightarrow> [c])
       else c # compact (c \<noteq> quote) s
     else if is_ws c then compact b s
     else c # compact (c = quote) s)"

definition enc_raw :: "string \<Rightarrow> string option" where
  "enc_raw raw =
    (if raw = [] then Some ''null''
     else case whole_json raw of None \<Rightarrow> None | Some j \<Rightarrow> Some (compact False raw))"

section \<open>Reading back an encoded string\<close>

lemma scan_str_plain:
  assumes "list_all (\<lambda>c. c \<noteq> quote \<and> c \<noteq> backslash \<and> 0x20 \<le> code c) p"
  shows "scan_str (p @ s) = map_option (\<lambda>(b, r). (p @ b, r)) (scan_str s)"
  using assms
proof (induction p)
  case Nil
  show ?case by (cases "scan_str s") auto
next
  case (Cons c p)
  then show ?case by (cases "scan_str s") (auto simp: quote_def backslash_def)
qed

text \<open>The three shapes of an escaped ASCII character.\<close>

definition esc_shape :: "char \<Rightarrow> bool" where
  "esc_shape c \<longleftrightarrow>
    (let p = esc_ascii c in
       p = [c] \<and> c \<noteq> quote \<and> c \<noteq> backslash \<and> 0x20 \<le> code c \<or>
       length p = 2 \<and> hd p = backslash \<and> simple_escape (p ! 1) = Some c \<and> p ! 1 \<noteq> CHR ''u'' \<or>
       length p = 6 \<and> take 4 p = [backslash, CHR ''u'', CHR ''0'', CHR ''0''] \<and>
         hex_val (p ! 4) = Some (code c div 16) \<and> hex_val (p ! 5) = Some (code c mod 16))"

lemma esc_shape_all: "list_all (\<lambda>n. esc_shape (byte n)) [0..127]"
  by code_simp

lemma esc_ascii_cases [consumes 1, case_names plain short unicode]:
  assumes "code c < 0x80"
  obtains (plain) "esc_ascii c = [c]" "c \<noteq> quote" "c \<noteq> backslash" "0x20 \<le> code c"
  | (short) e where "esc_ascii c = [backslash, e]" "simple_escape e = Some c" "e \<noteq> CHR ''u''"
  | (unicode) h1 h2 where "esc_ascii c = [backslash, CHR ''u'', CHR ''0'', CHR ''0'', h1, h2]"
      "hex_val h1 = Some (code c div 16)" "hex_val h2 = Some (code c mod 16)"
proof -
  have "code c \<in> set [0..127]" using assms code_bounds [of c] by simp
  then have "esc_shape c" using esc_shape_all by (metis byte_code list_all_iff)
  then show ?thesis
    using that unfolding esc_shape_def Let_def
    by (auto simp: numeral_eq_Suc length_Suc_conv)
qed

lemma scan_str_esc_ascii:
  assumes "code c < 0x80"
  shows "scan_str (esc_ascii c @ s) = map_option (\<lambda>(b, r). (esc_ascii c @ b, r)) (scan_str s)"
  using assms
proof (cases rule: esc_ascii_cases)
  case plain
  then show ?thesis using scan_str_plain [of "[c]" s] by simp
next
  case (short e)
  then show ?thesis by (cases "scan_str s") (auto simp: backslash_def)
next
  case (unicode h1 h2)
  moreover have "simple_escape CHR ''u'' = None" "is_hex CHR ''0''" by code_simp+
  ultimately show ?thesis by (cases "scan_str s") (auto simp: backslash_def is_hex_def)
qed

lemma unquote_esc_ascii:
  assumes "code c < 0x80"
  shows "unquote (esc_ascii c @ s) = c # unquote s"
  using assms
proof (cases rule: esc_ascii_cases)
  case plain
  then show ?thesis using assms by (simp add: unquote.simps(2) backslash_def)
next
  case (short e)
  then show ?thesis by (simp add: unquote.simps(2) backslash_def getu4_def split: list.split)
next
  case (unicode h1 h2)
  let ?n = "code c"
  have "?n div 16 * 16 + ?n mod 16 = ?n" by simp
  moreover have "hex_val CHR ''0'' = Some 0" by code_simp
  moreover have "enc_rune ?n = [c]"
    using assms code_bounds [of c] by (simp add: enc_rune_def valid_rune_def enc_valid_def)
  ultimately show ?thesis
    using unicode assms by (simp add: unquote.simps(2) backslash_def getu4_def Let_def)
qed

lemma enc_valid_high:
  assumes "valid_rune r" "0x80 \<le> r"
  shows "list_all (\<lambda>c. 0x80 \<le> code c) (enc_valid r)"
proof -
  have b: "0 \<le> r" "r \<le> 0x10FFFF" using assms by (simp_all add: valid_rune_def)
  obtain x y z w where n: "r = x * 262144 + y * 4096 + z * 64 + w"
    "0 \<le> x" "0 \<le> y" "y < 64" "0 \<le> z" "z < 64" "0 \<le> w" "w < 64"
    and d: "r div 262144 = x" "r div 4096 = x * 64 + y" "r div 64 = x * 4096 + y * 64 + z"
    "r mod 64 = w" "r div 64 mod 64 = z" "r div 4096 mod 64 = y"
    by (rule base64_digits [OF b(1)])
  have "x \<le> 4" using n b by linarith
  have tail: "0x80 \<le> code (byte (0x80 + y))" "0x80 \<le> code (byte (0x80 + z))" "0x80 \<le> code (byte (0x80 + w))"
    using n(2-8) by (simp_all add: code_byte_small del: code_byte)
  have nr: "\<not> r < 0x80" using assms by simp
  consider "r < 0x800" | "0x800 \<le> r" "r < 0x10000" | "0x10000 \<le> r" by linarith
  then show ?thesis
  proof cases
    case 1
    then have "0 \<le> r div 64" "r div 64 < 32" using b(1) by (simp_all add: pos_imp_zdiv_nonneg_iff)
    then have "0x80 \<le> code (byte (0xC0 + r div 64))" by (simp add: code_byte_small del: code_byte)
    moreover have "enc_valid r = [byte (0xC0 + r div 64), byte (0x80 + w)]"
      using 1 nr by (simp only: enc_valid_def d(4) if_True if_False)
    ultimately show ?thesis using tail by simp
  next
    case 2
    have "\<not> r < 0x800" using 2 by linarith
    then have e: "enc_valid r = [byte (0xE0 + r div 4096), byte (0x80 + z), byte (0x80 + w)]"
      using 2 nr by (simp only: enc_valid_def d(4,5) if_True if_False)
    have "0 \<le> r div 4096" "r div 4096 < 16" using 2 b(1) by (simp_all add: pos_imp_zdiv_nonneg_iff)
    then have "0x80 \<le> code (byte (0xE0 + r div 4096))" by (simp add: code_byte_small del: code_byte)
    then show ?thesis using tail by (simp add: e)
  next
    case 3
    have "\<not> r < 0x800" "\<not> r < 0x10000" using 3 by linarith+
    then have "enc_valid r = [byte (0xF0 + x), byte (0x80 + y), byte (0x80 + z), byte (0x80 + w)]"
      using nr by (simp only: enc_valid_def d(1,4,5,6) if_False)
    moreover have "0x80 \<le> code (byte (0xF0 + x))"
      using n(2) \<open>x \<le> 4\<close> by (simp add: code_byte_small del: code_byte)
    ultimately show ?thesis using tail by simp
  qed
qed

definition esc_rune :: "rune \<Rightarrow> string" where
  "esc_rune r =
    (if r < 0x80 then esc_ascii (byte r)
     else if r = 0x2028 \<or> r = 0x2029 then backslash # ''u202'' @ [hex_digit (r mod 16)]
     else enc_valid r)"

lemma escape_rune:
  assumes "valid_rune r"
  shows "escape (enc_valid r @ s) = esc_rune r @ escape s"
proof (cases "r < 0x80")
  case True
  then show ?thesis
    using assms by (simp add: enc_valid_def esc_rune_def escape.simps(2) valid_rune_def)
next
  case False
  then obtain c t where c: "enc_valid r = c # t" "0x80 \<le> code c"
    using enc_valid_high [OF assms] enc_valid_ne [of r] by (cases "enc_valid r") auto
  have d: "decode_rune (c # t @ s) = (r, s)" using decode_enc_valid [OF assms, of s] c by simp
  have e: "enc_rune r = enc_valid r" using assms by (simp add: enc_rune_def)
  have w: "\<not> (r = 0xFFFD \<and> \<not> HasPrefix (c # t @ s) (enc_rune 0xFFFD))"
    using c(1) e by (auto simp: HasPrefix_def)
  show ?thesis
    using c False d w e by (auto simp: escape.simps(2) esc_rune_def)
qed

lemma scan_str_esc_rune:
  assumes "valid_rune r"
  shows "scan_str (esc_rune r @ s) = map_option (\<lambda>(b, r'). (esc_rune r @ b, r')) (scan_str s)"
proof -
  consider "r < 0x80" | "0x80 \<le> r" "r = 0x2028 \<or> r = 0x2029" | "0x80 \<le> r" "\<not> (r = 0x2028 \<or> r = 0x2029)"
    by linarith
  then show ?thesis
  proof cases
    case 1
    then show ?thesis
      using assms scan_str_esc_ascii [of "byte r" s] by (simp add: esc_rune_def valid_rune_def)
  next
    case 2
    then obtain h where h: "esc_rune r = backslash # ''u202'' @ [h]" "is_hex h"
    proof -
      have "is_hex (hex_digit (0x2028 mod 16))" "is_hex (hex_digit (0x2029 mod 16))" by code_simp+
      with 2 that show ?thesis by (auto simp: esc_rune_def)
    qed
    moreover have "simple_escape CHR ''u'' = None" "is_hex CHR ''2''" "is_hex CHR ''0''" by code_simp+
    ultimately show ?thesis by (cases "scan_str s") (auto simp: backslash_def)
  next
    case 3
    then have "list_all (\<lambda>c. c \<noteq> quote \<and> c \<noteq> backslash \<and> 0x20 \<le> code c) (enc_valid r)"
      using enc_valid_high [OF assms] by (auto simp: list_all_iff quote_def backslash_def code_def)
    with 3 show ?thesis by (simp add: esc_rune_def scan_str_plain)
  qed
qed

lemma unquote_esc_rune:
  assumes "valid_rune r"
  shows "unquote (esc_rune r @ s) = enc_valid r @ unquote s"
proof -
  consider "r < 0x80" | "r = 0x2028 \<or> r = 0x2029" | "0x80 \<le> r" "\<not> (r = 0x2028 \<or> r = 0x2029)"
    by linarith
  then show ?thesis
  proof cases
    case 1
    then show ?thesis using assms unquote_esc_ascii [of "byte r" s]
      by (simp add: esc_rune_def valid_rune_def enc_valid_def)
  next
    case 2
    have g: "getu4 (backslash # CHR ''u'' # CHR ''2'' # CHR ''0'' # CHR ''2'' # hex_digit (r mod 16) # s) = Some r"
    proof -
      have "hex_val CHR ''2'' = Some 2" "hex_val CHR ''0'' = Some 0"
        "hex_val (hex_digit (0x2028 mod 16)) = Some 8" "hex_val (hex_digit (0x2029 mod 16)) = Some 9"
        by code_simp+
      with 2 show ?thesis by (auto simp: getu4_def backslash_def)
    qed
    have "enc_rune r = enc_valid r" using assms by (simp add: enc_rune_def)
    with 2 g show ?thesis by (auto simp: esc_rune_def unquote.simps(2) Let_def backslash_def)
  next
    case 3
    then obtain c t where c: "enc_valid r = c # t" "0x80 \<le> code c"
      using enc_valid_high [OF assms] enc_valid_ne [of r] by (cases "enc_valid r") auto
    have "decode_rune (c # t @ s) = (r, s)" using decode_enc_valid [OF assms, of s] c by simp
    moreover have "c \<noteq> CHR 0x5C" using c(2) by (auto simp: code_def)
    ultimately show ?thesis
      using 3 c assms by (simp add: esc_rune_def unquote.simps(2) enc_rune_def)
  qed
qed

lemma enc_valid_rune: "valid_rune r \<Longrightarrow> enc_rune r = enc_valid r"
  by (simp add: enc_rune_def)

lemma scan_escape:
  "list_all valid_rune rs \<Longrightarrow> scan_str (escape (utf8 rs) @ quote # s) = Some (escape (utf8 rs), s)"
proof (induction rs)
  case Nil
  show ?case by (simp add: quote_def)
next
  case (Cons r rs)
  then show ?case by (simp add: utf8_Cons enc_valid_rune escape_rune scan_str_esc_rune)
qed

lemma unquote_escape: "list_all valid_rune rs \<Longrightarrow> unquote (escape (utf8 rs)) = utf8 rs"
  by (induction rs) (simp_all add: utf8_Cons enc_valid_rune escape_rune unquote_esc_rune)

lemma parse_enc_string:
  assumes "list_all valid_rune rs"
  shows "parse (enc_string (utf8 rs) @ s) = Some (JStr (utf8 rs), s)"
proof -
  have "skip_ws (quote # t) = quote # t" for t by (simp add: skip_ws_def is_ws_def quote_def)
  then show ?thesis
    using scan_escape [OF assms, of s] unquote_escape [OF assms]
    by (simp add: parse_def enc_string_def quote_def)
qed

end
