(* ===== verification/Url.thy ===== *)
theory Url
  imports Json
begin

text \<open>
  \<open>url.Parse\<close> of \<open>net/url\<close>, which decides whether a request can be built and whether the
  configured address of the infrastructure service is an origin.
\<close>

record URL =
  Scheme :: string
  Opaque :: string
  UserInfo :: bool
  Host :: string
  Path :: string
  RawQuery :: string
  Fragment :: string

text \<open>\<open>strings.Cut\<close> at a byte, and the position of its last occurrence.\<close>

definition cut :: "char \<Rightarrow> string \<Rightarrow> string \<times> string" where
  "cut c s = (takeWhile (\<lambda>d. d \<noteq> c) s, drop 1 (dropWhile (\<lambda>d. d \<noteq> c) s))"

definition cut_last :: "char \<Rightarrow> string \<Rightarrow> (string \<times> string) option" where
  "cut_last c s =
    (if c \<in> set s
     then Some (rev (drop 1 (dropWhile (\<lambda>d. d \<noteq> c) (rev s))), rev (takeWhile (\<lambda>d. d \<noteq> c) (rev s)))
     else None)"

definition ascii_lower :: "string \<Rightarrow> string" where
  "ascii_lower s = map (\<lambda>c. if 65 \<le> code c \<and> code c \<le> 90 then byte (code c + 32) else c) s"

text \<open>\<open>getScheme\<close>: an error, or the scheme and the rest.\<close>

fun get_scheme :: "string \<Rightarrow> string \<Rightarrow> string \<Rightarrow> (string \<times> string) option" where
  "get_scheme raw seen [] = Some ([], raw)"
| "get_scheme raw seen (c # s) =
    (if is_letter c then get_scheme raw (seen @ [c]) s
     else if is_digit c \<or> c \<in> set ''+-.'' then
       (if seen = [] then Some ([], raw) else get_scheme raw (seen @ [c]) s)
     else if c = CHR '':'' then (if seen = [] then None else Some (seen, s))
     else Some ([], raw))"

datatype encoding = EncodePath | EncodeUserPassword | EncodeHost | EncodeZone | EncodeFragment

text \<open>\<open>shouldEscape\<close> for the host and the zone.\<close>

definition escape_in_host :: "char \<Rightarrow> bool" where
  "escape_in_host c \<longleftrightarrow>
    \<not> (is_letter c \<or> is_digit c \<or> c \<in> set ''!$&()*+,;=:[]<>-_.~'' \<or> c = CHR 0x27 \<or> c = CHR 0x22)"

fun unescape :: "encoding \<Rightarrow> string \<Rightarrow> string option" where
  "unescape mode [] = Some []"
| "unescape mode (c # s) =
    (if c = CHR ''%'' then
       (case s of
          a # b # t \<Rightarrow>
            (case (hex_val a, hex_val b) of
               (Some x, Some y) \<Rightarrow>
                 let v = byte (16 * x + y) in
                 if mode = EncodeHost \<and> x < 8 \<and> \<not> (a = CHR ''2'' \<and> b = CHR ''5'') then None
                 else if mode = EncodeZone \<and> \<not> (a = CHR ''2'' \<and> b = CHR ''5'') \<and> v \<noteq> CHR 0x20
                   \<and> escape_in_host v then None
                 else map_option (Cons v) (unescape mode t)
             | _ \<Rightarrow> None)
        | _ \<Rightarrow> None)
     else if (mode = EncodeHost \<or> mode = EncodeZone) \<and> code c < 0x80 \<and> escape_in_host c then None
     else map_option (Cons c) (unescape mode s))"

definition validOptionalPort :: "string \<Rightarrow> bool" where
  "validOptionalPort port =
    (case port of [] \<Rightarrow> True | c # ds \<Rightarrow> c = CHR '':'' \<and> list_all is_digit ds)"

fun cut_at :: "string \<Rightarrow> string \<Rightarrow> (string \<times> string) option" where
  "cut_at pat [] = (if pat = [] then Some ([], []) else None)"
| "cut_at pat (c # s) =
    (if HasPrefix (c # s) pat then Some ([], c # s)
     else map_option (\<lambda>(a, b). (c # a, b)) (cut_at pat s))"

definition parseHost :: "string \<Rightarrow> string option" where
  "parseHost host =
    (if HasPrefix host ''['' then
       (case cut_last CHR '']'' host of
          None \<Rightarrow> None
        | Some (inner, colonPort) \<Rightarrow>
            if \<not> validOptionalPort colonPort then None
            else (case cut_at ''%25'' inner of
                None \<Rightarrow> unescape EncodeHost host
              | Some (h, zone) \<Rightarrow>
                  (case (unescape EncodeHost h, unescape EncodeZone zone,
                         unescape EncodeHost (CHR '']'' # colonPort)) of
                     (Some a, Some b, Some c) \<Rightarrow> Some (a @ b @ c)
                   | _ \<Rightarrow> None)))
     else
       (case cut_last CHR '':'' host of
          Some (h, port) \<Rightarrow>
            if validOptionalPort (CHR '':'' # port) then unescape EncodeHost host else None
        | None \<Rightarrow> unescape EncodeHost host))"

definition validUserinfo :: "string \<Rightarrow> bool" where
  "validUserinfo s =
    list_all (\<lambda>c. is_letter c \<or> is_digit c \<or> c \<in> set ''-._:~!$&()*+,;=%@'' \<or> c = CHR 0x27) s"

text \<open>\<open>parseAuthority\<close>: whether there is user information, and the host.\<close>

definition parseAuthority :: "string \<Rightarrow> (bool \<times> string) option" where
  "parseAuthority authority =
    (case cut_last CHR 0x40 authority of
       None \<Rightarrow> map_option (Pair False) (parseHost authority)
     | Some (userinfo, h) \<Rightarrow>
         (case parseHost h of
            None \<Rightarrow> None
          | Some host \<Rightarrow>
              if \<not> validUserinfo userinfo then None
              else if unescape EncodeUserPassword userinfo = None then None
              else Some (True, host)))"

definition has_ctl :: "string \<Rightarrow> bool" where
  "has_ctl s = list_ex (\<lambda>c. code c < 0x20 \<or> code c = 0x7F) s"

definition split_query :: "string \<Rightarrow> string \<times> string" where
  "split_query rest = cut CHR ''?'' rest"

definition url_Parse :: "string \<Rightarrow> URL option" where
  "url_Parse rawURL =
    (let (u, frag) = cut CHR ''#'' rawURL in
     if has_ctl u then None
     else if u = ''*'' then
       map_option (\<lambda>f. \<lparr>Scheme = '''', Opaque = '''', UserInfo = False, Host = '''', Path = ''*'',
         RawQuery = '''', Fragment = f\<rparr>) (unescape EncodeFragment frag)
     else case get_scheme u [] u of
       None \<Rightarrow> None
     | Some (scheme, rest) \<Rightarrow>
         let scheme = ascii_lower scheme; (rest, query) = split_query rest in
         if \<not> HasPrefix rest ''/'' \<and> scheme \<noteq> [] then
           map_option (\<lambda>f. \<lparr>Scheme = scheme, Opaque = rest, UserInfo = False, Host = '''', Path = '''',
             RawQuery = query, Fragment = f\<rparr>) (unescape EncodeFragment frag)
         else if \<not> HasPrefix rest ''/'' \<and> CHR '':'' \<in> set (fst (cut CHR ''/'' rest)) then None
         else
           case (if (scheme \<noteq> [] \<or> \<not> HasPrefix rest ''///'') \<and> HasPrefix rest ''//''
                 then (case (takeWhile (\<lambda>c. c \<noteq> CHR ''/'') (drop 2 rest),
                             dropWhile (\<lambda>c. c \<noteq> CHR ''/'') (drop 2 rest)) of
                   (authority, rest) \<Rightarrow> map_option (\<lambda>(user, host). (user, host, rest)) (parseAuthority authority))
                 else Some (False, '''', rest)) of
             None \<Rightarrow> None
           | Some (user, host, rest) \<Rightarrow>
               (case (unescape EncodePath rest, unescape EncodeFragment frag) of
                  (Some path, Some f) \<Rightarrow>
                    Some \<lparr>Scheme = scheme, Opaque = '''', UserInfo = user, Host = host, Path = path,
                          RawQuery = query, Fragment = f\<rparr>
                | _ \<Rightarrow> None))"

end
