(* ===== verification/Http.thy ===== *)
theory Http
  imports Url Decode
begin

text \<open>
  What the two clients use of \<open>net/http\<close>. A request is what is handed to the client's
  \<open>Do\<close>; the outcome is an error of the network or a response. The network answers each
  request as it likes, knowing all the exchanges before it: it is a parameter of every
  operation that sends a request, and the history of the exchanges is threaded through.
  Redirects are not followed (\<open>CheckRedirect\<close> returns \<open>ErrUseLastResponse\<close>), so one call
  of \<open>Do\<close> is one exchange.
\<close>

record HttpRequest =
  req_Method :: string
  req_URL :: string
  req_Header :: "(string \<times> string) list"
  req_Body :: string

text \<open>
  The body of a response with whether reading it ends in an error instead of the end of the
  body.
\<close>

record HttpResponse =
  StatusCode :: int
  resp_Header :: "(string \<times> string) list"
  resp_Body :: string
  resp_BodyError :: bool

text \<open>A failure says whether it is a timeout and whether it comes from the name service.\<close>

datatype outcome = Failure bool bool | Answer HttpResponse

type_synonym exchange = "HttpRequest \<times> outcome"
type_synonym history = "exchange list"
type_synonym network = "history \<Rightarrow> HttpRequest \<Rightarrow> outcome"

definition http_Do :: "network \<Rightarrow> HttpRequest \<Rightarrow> history \<Rightarrow> outcome \<times> history" where
  "http_Do net req h = (net h req, h @ [(req, net h req)])"

text \<open>\<open>http.NewRequestWithContext\<close> fails only for an address that cannot be parsed.\<close>

definition NewRequest :: "string \<Rightarrow> string \<Rightarrow> string \<Rightarrow> HttpRequest option" where
  "NewRequest method url body =
    (if url_Parse url = None then None
     else Some \<lparr>req_Method = method, req_URL = url, req_Header = [], req_Body = body\<rparr>)"

definition header_Set :: "string \<Rightarrow> string \<Rightarrow> HttpRequest \<Rightarrow> HttpRequest" where
  "header_Set k v req =
    req\<lparr>req_Header := filter (\<lambda>(k', v'). ascii_lower k' \<noteq> ascii_lower k) (req_Header req) @ [(k, v)]\<rparr>"

definition header_Get :: "string \<Rightarrow> (string \<times> string) list \<Rightarrow> string" where
  "header_Get k hs =
    (case find (\<lambda>(k', v). ascii_lower k' = ascii_lower k) hs of Some (k', v) \<Rightarrow> v | None \<Rightarrow> '''')"

definition header_Values :: "string \<Rightarrow> (string \<times> string) list \<Rightarrow> string list" where
  "header_Values k hs = map snd (filter (\<lambda>(k', v). ascii_lower k' = ascii_lower k) hs)"

definition responseLimit :: int where
  "responseLimit = 1048576"

lemma http_Do_history: "http_Do net req h = (o1, h') \<Longrightarrow> h' = h @ [(req, o1)]"
  by (auto simp: http_Do_def)

lemma NewRequest_fields:
  "NewRequest m u b = Some r \<Longrightarrow> req_Method r = m \<and> req_URL r = u \<and> req_Body r = b"
  by (auto simp: NewRequest_def split: if_splits)

lemma header_Set_fields [simp]:
  "req_Method (header_Set k v r) = req_Method r" "req_URL (header_Set k v r) = req_URL r"
  "req_Body (header_Set k v r) = req_Body r"
  by (simp_all add: header_Set_def)

end
