(* ===== verification/Config.thy ===== *)
theory Config
  imports Url
begin

text \<open>
  \<open>internal/config/config.go\<close>: the configuration, read from a file and overridden by the
  environment, and its validation. The reader of the file is a library of the framework: what
  it returns is an argument here. A duration is a number of nanoseconds.
\<close>

type_synonym duration = int64

section \<open>Numbers, truth values and durations as text\<close>

text \<open>\<open>strconv.ParseBool\<close>.\<close>

definition ParseBool :: "string \<Rightarrow> bool option" where
  "ParseBool s =
    (if s \<in> set [''1'', ''t'', ''T'', ''true'', ''TRUE'', ''True''] then Some True
     else if s \<in> set [''0'', ''f'', ''F'', ''false'', ''FALSE'', ''False''] then Some False
     else None)"

text \<open>
  \<open>time.ParseDuration\<close>: a sign, then numbers with an optional fraction and a unit.
\<close>

definition unit_map :: "(string \<times> int) list" where
  "unit_map =
    [(''ns'', 1), (''us'', 1000), (utf8 [0xB5, 0x73], 1000), (utf8 [0x3BC, 0x73], 1000),
     (''ms'', 1000000), (''s'', 1000000000), (''m'', 60000000000), (''h'', 3600000000000)]"

abbreviation two63 :: int where "two63 \<equiv> 9223372036854775808"

definition number_char :: "char \<Rightarrow> bool" where
  "number_char c \<longleftrightarrow> c = CHR ''.'' \<or> is_digit c"

text \<open>The loop of \<open>leadingFraction\<close> stops adding digits once the number would overflow.\<close>

fun leading_fraction :: "string \<Rightarrow> int \<Rightarrow> int \<Rightarrow> int \<times> int" where
  "leading_fraction [] f scale = (f, scale)"
| "leading_fraction (c # s) f scale =
    (let y = f * 10 + (code c - 48) in
     if f > (two63 - 1) div 10 \<or> y > two63 then (f, scale) else leading_fraction s y (scale * 10))"

text \<open>
  The fraction is computed in 64-bit floating point numbers. Only positive numbers of a moderate
  size occur, so that such a number is a significand of 53 bits with an exponent of two; an
  operation gives the number nearest to the exact result, the even one of two. The result is cut
  to whole nanoseconds.
\<close>

type_synonym float64 = "int \<times> int"

fun bit_length :: "int \<Rightarrow> nat" where
  "bit_length n = (if n \<le> 0 then 0 else Suc (bit_length (n div 2)))"

declare bit_length.simps [simp del]

definition nearest_even :: "int \<Rightarrow> int \<Rightarrow> int" where
  "nearest_even n d =
    (let q = n div d; r = n mod d in if 2 * r < d \<or> 2 * r = d \<and> even q then q else q + 1)"

text \<open>The quotient of \<open>n\<close> and \<open>d\<close>, without its exponent \<open>e\<close>.\<close>

definition scaled :: "int \<Rightarrow> int \<Rightarrow> int \<Rightarrow> int \<times> int" where
  "scaled n d e = (if 0 \<le> e then (n, d * 2 ^ nat e) else (n * 2 ^ nat (- e), d))"

definition float_quotient :: "int \<Rightarrow> int \<Rightarrow> float64" where
  "float_quotient n d =
    (let e = int (bit_length n) - int (bit_length d) - 53;
         e = (case scaled n d e of (n', d') \<Rightarrow> if 2 ^ 53 * d' \<le> n' then e + 1 else e)
     in case scaled n d e of (n', d') \<Rightarrow> (nearest_even n' d', e))"

definition float_product :: "float64 \<Rightarrow> float64 \<Rightarrow> float64" where
  "float_product x y = (case float_quotient (fst x * fst y) 1 of (m, e) \<Rightarrow> (m, e + snd x + snd y))"

definition float_truncate :: "float64 \<Rightarrow> int" where
  "float_truncate x = (case scaled (fst x) 1 (- snd x) of (n, d) \<Rightarrow> n div d)"

definition fraction :: "int \<Rightarrow> int \<Rightarrow> int \<Rightarrow> int" where
  "fraction f unit scale =
    (if 0 < f then float_truncate (float_product (float_quotient f 1) (float_quotient unit scale)) else 0)"

text \<open>A third of an hour in 19 digits is 20 minutes, as the library's own tests have it.\<close>

lemma third_of_an_hour: "fraction 3333333333333333333 3600000000000 10000000000000000000 = 1200000000000"
  by code_simp

function parse_units :: "string \<Rightarrow> int \<Rightarrow> int option" where
  "parse_units s d =
    (if s = [] then Some d
     else if \<not> number_char (hd s) then None
     else
       let ds = takeWhile is_digit s; s1 = dropWhile is_digit s;
           v = the (parse_digits 0 ds);
           dot = HasPrefix s1 ''.'';
           fs = (if dot then takeWhile is_digit (tl s1) else []);
           s2 = (if dot then dropWhile is_digit (tl s1) else s1);
           (f, scale) = leading_fraction fs 0 1;
           u = takeWhile (\<lambda>c. \<not> number_char c) s2; s3 = dropWhile (\<lambda>c. \<not> number_char c) s2
       in if v > two63 then None
          else if ds = [] \<and> fs = [] then None
          else if u = [] then None
          else case map_of unit_map u of
            None \<Rightarrow> None
          | Some unit \<Rightarrow>
              if v > two63 div unit then None
              else let v = v * unit + fraction f unit scale in
                if v > two63 then None
                else if d + v > two63 then None
                else parse_units s3 (d + v))"
  by pat_completeness auto
termination
proof (relation "measure (\<lambda>(s, d). length s)", goal_cases)
  case (2 s d ds s1 v dot fs s2 x f scale u s3 unit v')
  have "length s3 < length s2" if "u \<noteq> []"
    using that 2 length_append [of u s3] by (cases u) auto
  moreover have "length s2 \<le> length s1"
    using 2 length_dropWhile_le [of is_digit "tl s1"] by auto
  moreover have "length s1 \<le> length s" using 2 length_dropWhile_le by auto
  ultimately show ?case using 2 by auto
qed simp

declare parse_units.simps [simp del]

definition ParseDuration :: "string \<Rightarrow> duration option" where
  "ParseDuration s =
    (case split_sign s of (neg, r) \<Rightarrow>
       if r = ''0'' then Some 0
       else if r = [] then None
       else case parse_units r 0 of
         None \<Rightarrow> None
       | Some d \<Rightarrow> if neg then Some (- d) else if d > two63 - 1 then None else Some d)"

section \<open>The configuration\<close>

record RestConf =
  rest_Host :: string
  rest_Port :: int

record GraniteConfig =
  ModelID :: string
  StartupTimeout :: duration
  RequestTimeout :: duration
  Threads :: int
  ContextSize :: int
  MaxTokens :: int
  MaxMessageLength :: int
  AllowForceStop :: bool
  ActionDedupWindow :: duration

record InfraControlConfig =
  BaseURL :: string
  APIToken :: string
  Timeout :: duration

record Config =
  cfg_RestConf :: RestConf
  APIKey :: string
  Granite :: GraniteConfig
  InfraControl :: InfraControlConfig

record fileGranite =
  f_ModelID :: string
  f_StartupTimeout :: string
  f_RequestTimeout :: string
  f_ActionDedupWindow :: string
  f_Threads :: int
  f_ContextSize :: int
  f_MaxTokens :: int
  f_MaxMessageLength :: int
  f_AllowForceStop :: bool

record fileConfig =
  file_RestConf :: RestConf
  file_Granite :: fileGranite
  file_BaseURL :: string
  file_Timeout :: string

type_synonym environment = "string \<Rightarrow> string option"

definition Getenv :: "environment \<Rightarrow> string \<Rightarrow> string" where
  "Getenv env name = (case env name of Some v \<Rightarrow> v | None \<Rightarrow> '''')"

definition envOr :: "environment \<Rightarrow> string \<Rightarrow> string \<Rightarrow> string" where
  "envOr env name fallback = (case env name of Some value \<Rightarrow> value | None \<Rightarrow> fallback)"

definition invalid_env :: "string \<Rightarrow> goerror" where
  "invalid_env name = ErrorText (name @ '' is invalid'')"

definition envInt :: "environment \<Rightarrow> string \<Rightarrow> int \<Rightarrow> goerror + int" where
  "envInt env name fallback =
    (case env name of
       None \<Rightarrow> Inr fallback
     | Some value \<Rightarrow> (case ParseInt value of None \<Rightarrow> Inl (invalid_env name) | Some n \<Rightarrow> Inr n))"

definition envBool :: "environment \<Rightarrow> string \<Rightarrow> bool \<Rightarrow> goerror + bool" where
  "envBool env name fallback =
    (case env name of
       None \<Rightarrow> Inr fallback
     | Some value \<Rightarrow> (case ParseBool value of None \<Rightarrow> Inl (invalid_env name) | Some b \<Rightarrow> Inr b))"

definition envDuration :: "environment \<Rightarrow> string \<Rightarrow> string \<Rightarrow> goerror + duration" where
  "envDuration env name fallback =
    (case ParseDuration (envOr env name fallback) of
       None \<Rightarrow> Inl (invalid_env name)
     | Some d \<Rightarrow> Inr d)"

definition validOrigin :: "string \<Rightarrow> bool" where
  "validOrigin value =
    (case url_Parse value of
       None \<Rightarrow> False
     | Some u \<Rightarrow>
         \<not> (Scheme u \<noteq> ''http'' \<and> Scheme u \<noteq> ''https'' \<or> Host u = '''' \<or> UserInfo u
            \<or> Path u \<noteq> '''' \<and> Path u \<noteq> ''/'' \<or> RawQuery u \<noteq> '''' \<or> Fragment u \<noteq> ''''))"

definition checks :: "Config \<Rightarrow> (bool \<times> string) list" where
  "checks c =
    [(APIKey c = '''', ''GRANITE_API_KEY is required''),
     (APIToken (InfraControl c) = '''', ''INFRA_CONTROL_API_TOKEN is required''),
     (TrimSpace (ModelID (Granite c)) = '''', ''GRANITE_MODEL_ID is required''),
     (Threads (Granite c) < 1 \<or> Threads (Granite c) > 16,
      ''GRANITE_THREADS must be between 1 and 16''),
     (ContextSize (Granite c) < 1024 \<or> ContextSize (Granite c) > 8192,
      ''GRANITE_CONTEXT_SIZE must be between 1024 and 8192''),
     (MaxTokens (Granite c) < 1 \<or> MaxTokens (Granite c) > 512,
      ''GRANITE_MAX_TOKENS must be between 1 and 512''),
     (MaxMessageLength (Granite c) < 1, ''GRANITE_MAX_MESSAGE_LENGTH must be positive''),
     (StartupTimeout (Granite c) \<le> 0, ''GRANITE_STARTUP_TIMEOUT must be positive''),
     (RequestTimeout (Granite c) \<le> 0, ''GRANITE_REQUEST_TIMEOUT must be positive''),
     (ActionDedupWindow (Granite c) \<le> 0, ''GRANITE_ACTION_DEDUP_WINDOW must be positive''),
     (Timeout (InfraControl c) \<le> 0, ''INFRA_CONTROL_TIMEOUT must be positive'')]"

definition Validate :: "Config \<Rightarrow> goerror option" where
  "Validate c =
    (case find fst (checks c) of
       Some (bad, message) \<Rightarrow> Some (ErrorText message)
     | None \<Rightarrow>
         if \<not> validOrigin (BaseURL (InfraControl c))
         then Some (ErrorText ''INFRA_CONTROL_API_BASE_URL is invalid'')
         else None)"

text \<open>The first argument is what the reader of the file returned, \<open>None\<close> for an error.\<close>

definition Load :: "fileConfig option \<Rightarrow> environment \<Rightarrow> goerror + Config" where
  "Load file env =
    (case file of
       None \<Rightarrow> Inl (ErrorText ''load configuration'')
     | Some raw \<Rightarrow>
     andThen (envInt env ''GRANITE_THREADS'' (f_Threads (file_Granite raw))) (\<lambda>threads.
     andThen (envInt env ''GRANITE_CONTEXT_SIZE'' (f_ContextSize (file_Granite raw))) (\<lambda>contextSize.
     andThen (envInt env ''GRANITE_MAX_TOKENS'' (f_MaxTokens (file_Granite raw))) (\<lambda>maxTokens.
     andThen (envInt env ''GRANITE_MAX_MESSAGE_LENGTH'' (f_MaxMessageLength (file_Granite raw))) (\<lambda>maxMessage.
     andThen (envDuration env ''GRANITE_STARTUP_TIMEOUT'' (f_StartupTimeout (file_Granite raw))) (\<lambda>startup.
     andThen (envDuration env ''GRANITE_REQUEST_TIMEOUT'' (f_RequestTimeout (file_Granite raw))) (\<lambda>request.
     andThen (envDuration env ''GRANITE_ACTION_DEDUP_WINDOW'' (f_ActionDedupWindow (file_Granite raw))) (\<lambda>dedup.
     andThen (envDuration env ''INFRA_CONTROL_TIMEOUT'' (file_Timeout raw)) (\<lambda>upstream.
     andThen (envBool env ''GRANITE_ALLOW_FORCE_STOP'' (f_AllowForceStop (file_Granite raw))) (\<lambda>allowStop.
     let cfg = \<lparr>cfg_RestConf = file_RestConf raw, APIKey = Getenv env ''GRANITE_API_KEY'',
           Granite = \<lparr>ModelID = envOr env ''GRANITE_MODEL_ID'' (f_ModelID (file_Granite raw)),
             StartupTimeout = startup, RequestTimeout = request, Threads = threads,
             ContextSize = contextSize, MaxTokens = maxTokens, MaxMessageLength = maxMessage,
             AllowForceStop = allowStop, ActionDedupWindow = dedup\<rparr>,
           InfraControl = \<lparr>BaseURL = TrimRight (TrimSpace
               (envOr env ''INFRA_CONTROL_API_BASE_URL'' (file_BaseURL raw))) CHR ''/'',
             APIToken = Getenv env ''INFRA_CONTROL_API_TOKEN'', Timeout = upstream\<rparr>\<rparr>
     in case Validate cfg of Some e \<Rightarrow> Inl e | None \<Rightarrow> Inr cfg))))))))))"

section \<open>What a validated configuration promises\<close>

text \<open>The bounds that \<open>Validate\<close> checks, and the two secrets and the name that it requires.\<close>

definition in_bounds :: "Config \<Rightarrow> bool" where
  "in_bounds c \<longleftrightarrow>
    APIKey c \<noteq> '''' \<and> APIToken (InfraControl c) \<noteq> '''' \<and> TrimSpace (ModelID (Granite c)) \<noteq> '''' \<and>
    Threads (Granite c) \<in> {1..16} \<and> ContextSize (Granite c) \<in> {1024..8192} \<and>
    MaxTokens (Granite c) \<in> {1..512} \<and> 1 \<le> MaxMessageLength (Granite c) \<and>
    0 < StartupTimeout (Granite c) \<and> 0 < RequestTimeout (Granite c) \<and>
    0 < ActionDedupWindow (Granite c) \<and> 0 < Timeout (InfraControl c)"

lemma find_fst: "find fst xs = (if list_all (\<lambda>x. \<not> fst x) xs then None else Some (hd (filter fst xs)))"
  by (induction xs) auto

lemma checks_pass: "list_all (\<lambda>x. \<not> fst x) (checks c) \<longleftrightarrow> in_bounds c"
  by (simp add: checks_def in_bounds_def not_less not_le conj_assoc)

lemma Validate_None: "Validate c = None \<longleftrightarrow> in_bounds c \<and> validOrigin (BaseURL (InfraControl c))"
  by (auto simp: Validate_def find_fst checks_pass split: prod.splits)

text \<open>
  A configuration passes exactly when both secrets and the name of the model are there, every
  number is within its bounds and every duration positive, and the address of the
  infrastructure service is an origin. Otherwise the error names the first check that fails.
\<close>

lemma Validate_decides:
  "Validate c =
    (if in_bounds c
     then if validOrigin (BaseURL (InfraControl c)) then None
          else Some (ErrorText ''INFRA_CONTROL_API_BASE_URL is invalid'')
     else Some (ErrorText (snd (hd (filter fst (checks c))))))"
  by (simp add: Validate_def find_fst checks_pass split: prod.splits)

lemma envInt_Inr: "envInt env name d = Inr n \<longleftrightarrow>
    (case env name of None \<Rightarrow> n = d | Some t \<Rightarrow> ParseInt t = Some n)"
  by (auto simp: envInt_def split: option.splits)

lemma envBool_Inr: "envBool env name d = Inr b \<longleftrightarrow>
    (case env name of None \<Rightarrow> b = d | Some t \<Rightarrow> ParseBool t = Some b)"
  by (auto simp: envBool_def split: option.splits)

lemma envDuration_Inr: "envDuration env name d = Inr n \<longleftrightarrow> ParseDuration (envOr env name d) = Some n"
  by (auto simp: envDuration_def split: option.splits)

lemma Load_Inr:
  "Load file env = Inr cfg \<longleftrightarrow>
    (\<exists>raw. file = Some raw \<and> Validate cfg = None \<and> cfg_RestConf cfg = file_RestConf raw \<and>
      envInt env ''GRANITE_THREADS'' (f_Threads (file_Granite raw)) = Inr (Threads (Granite cfg)) \<and>
      envInt env ''GRANITE_CONTEXT_SIZE'' (f_ContextSize (file_Granite raw)) = Inr (ContextSize (Granite cfg)) \<and>
      envInt env ''GRANITE_MAX_TOKENS'' (f_MaxTokens (file_Granite raw)) = Inr (MaxTokens (Granite cfg)) \<and>
      envInt env ''GRANITE_MAX_MESSAGE_LENGTH'' (f_MaxMessageLength (file_Granite raw)) =
        Inr (MaxMessageLength (Granite cfg)) \<and>
      envDuration env ''GRANITE_STARTUP_TIMEOUT'' (f_StartupTimeout (file_Granite raw)) =
        Inr (StartupTimeout (Granite cfg)) \<and>
      envDuration env ''GRANITE_REQUEST_TIMEOUT'' (f_RequestTimeout (file_Granite raw)) =
        Inr (RequestTimeout (Granite cfg)) \<and>
      envDuration env ''GRANITE_ACTION_DEDUP_WINDOW'' (f_ActionDedupWindow (file_Granite raw)) =
        Inr (ActionDedupWindow (Granite cfg)) \<and>
      envDuration env ''INFRA_CONTROL_TIMEOUT'' (file_Timeout raw) = Inr (Timeout (InfraControl cfg)) \<and>
      envBool env ''GRANITE_ALLOW_FORCE_STOP'' (f_AllowForceStop (file_Granite raw)) =
        Inr (AllowForceStop (Granite cfg)) \<and>
      APIKey cfg = Getenv env ''GRANITE_API_KEY'' \<and>
      ModelID (Granite cfg) = envOr env ''GRANITE_MODEL_ID'' (f_ModelID (file_Granite raw)) \<and>
      BaseURL (InfraControl cfg) =
        TrimRight (TrimSpace (envOr env ''INFRA_CONTROL_API_BASE_URL'' (file_BaseURL raw))) CHR ''/'' \<and>
      APIToken (InfraControl cfg) = Getenv env ''INFRA_CONTROL_API_TOKEN'')" (is "_ = ?R")
proof
  assume "Load file env = Inr cfg"
  then show ?R by (auto simp: Load_def andThen_Inr_iff Let_def split: option.splits)
next
  assume ?R
  then obtain raw where "file = Some raw" by blast
  obtain rc ak g ic where c: "cfg = \<lparr>cfg_RestConf = rc, APIKey = ak, Granite = g, InfraControl = ic\<rparr>"
    by (cases cfg)
  obtain a1 a2 a3 a4 a5 a6 a7 a8 a9 where "g = \<lparr>ModelID = a1, StartupTimeout = a2, RequestTimeout = a3,
      Threads = a4, ContextSize = a5, MaxTokens = a6, MaxMessageLength = a7, AllowForceStop = a8,
      ActionDedupWindow = a9\<rparr>" by (cases g)
  moreover obtain b1 b2 b3 where "ic = \<lparr>BaseURL = b1, APIToken = b2, Timeout = b3\<rparr>" by (cases ic)
  ultimately show "Load file env = Inr cfg"
    using \<open>?R\<close> c by (auto simp: Load_def)
qed


section \<open>The address of the infrastructure service\<close>

lemma get_scheme_append:
  "get_scheme raw seen s = Some (scheme, rest) \<Longrightarrow> scheme \<noteq> [] \<Longrightarrow> get_scheme (raw @ p) seen (s @ p) = Some (scheme, rest @ p)"
  by (induction raw seen s rule: get_scheme.induct) (auto split: if_splits)

lemma get_scheme_suffix:
  "get_scheme raw seen s = Some (scheme, rest) \<Longrightarrow> scheme \<noteq> [] \<Longrightarrow> \<exists>a. s = a @ rest \<and> a \<noteq> []"
  by (induction raw seen s rule: get_scheme.induct) (auto split: if_splits)

lemma unescape_plain: "CHR ''%'' \<notin> set s \<Longrightarrow> unescape EncodePath s = Some s"
  by (induction EncodePath s rule: unescape.induct) auto

lemma unescape_path_Nil: "unescape EncodePath s = Some [] \<Longrightarrow> s = []"
  by (induction EncodePath s rule: unescape.induct) (auto split: if_splits list.splits option.splits prod.splits)


lemma cut_absent: "c \<notin> set s \<Longrightarrow> cut c s = (s, [])"
  by (induction s) (auto simp: cut_def)

lemma ascii_lower_Nil [simp]: "ascii_lower s = [] \<longleftrightarrow> s = []"
  by (simp add: ascii_lower_def)

text \<open>An origin without query and fragment signs, in the parts that the parser finds in it.\<close>

lemma origin_parts:
  assumes "validOrigin base" "CHR ''#'' \<notin> set base" "CHR ''?'' \<notin> set base" "base = [] \<or> last base \<noteq> CHR ''/''"
  obtains scheme authority host where
    "get_scheme base [] base = Some (scheme, ''//'' @ authority)" "ascii_lower scheme \<in> {''http'', ''https''}"
    "CHR ''/'' \<notin> set authority" "parseAuthority authority = Some (False, host)" "host \<noteq> []"
    "\<not> has_ctl base" "CHR ''?'' \<notin> set authority"
proof -
  obtain u where u: "url_Parse base = Some u" "Scheme u \<in> {''http'', ''https''}" "Host u \<noteq> []" "\<not> UserInfo u"
    "Path u = [] \<or> Path u = ''/''"
    using assms(1) by (auto simp: validOrigin_def split: option.splits)
  have c: "cut CHR ''#'' base = (base, [])" by (rule cut_absent [OF assms(2)])
  have ne: "base \<noteq> ''*''" "\<not> has_ctl base"
    using u(1,3) by (auto simp: url_Parse_def c split: if_splits)
  obtain scheme rest where s: "get_scheme base [] base = Some (scheme, rest)"
    using u(1) ne by (auto simp: url_Parse_def c split: option.splits)
  have q: "cut CHR ''?'' rest = (rest, [])" if "scheme \<noteq> []"
    using get_scheme_suffix [OF s that] assms(3) by (intro cut_absent) auto
  have "ascii_lower scheme = Scheme u"
    using u(1) ne s by (auto simp: url_Parse_def c Let_def split: if_splits option.splits prod.splits)
  then have sch: "scheme \<noteq> []" "ascii_lower scheme \<in> {''http'', ''https''}"
    using u(2) by (auto simp: ascii_lower_def)
  have slash: "HasPrefix rest ''//''"
    using u(1,3) ne s sch(1) q by (auto simp: url_Parse_def c Let_def split_query_def split: if_splits option.splits)
  then obtain r where r: "rest = ''//'' @ r" by (auto simp: HasPrefix_def prefix_def)
  let ?a = "takeWhile (\<lambda>c. c \<noteq> CHR ''/'') r" and ?p = "dropWhile (\<lambda>c. c \<noteq> CHR ''/'') r"
  have p: "parseAuthority ?a = Some (False, Host u)" "unescape EncodePath ?p = Some (Path u)"
    using u(1,4) ne s sch(1) q [OF sch(1)] slash r
    by (auto simp: url_Parse_def c Let_def split_query_def HasPrefix_def split: if_splits option.splits)
  have "?p = []"
  proof (rule ccontr)
    assume n: "?p \<noteq> []"
    then obtain t where t: "?p = CHR ''/'' # t" 
      using hd_dropWhile [OF n] by (cases ?p) simp_all
    then have "unescape EncodePath t = Some []" using p(2) u(5) by auto
    then have "?p = ''/''" using t unescape_path_Nil by simp
    then have "last r = CHR ''/''"
      using takeWhile_dropWhile_id [of "\<lambda>c. c \<noteq> CHR ''/''" r] by (metis last_appendR last_ConsL not_Cons_self2)
    moreover have "r \<noteq> []" using n by auto
    ultimately have "last base = CHR ''/''" using get_scheme_suffix [OF s sch(1)] r by auto
    moreover have "base \<noteq> []" using get_scheme_suffix [OF s sch(1)] by auto
    ultimately show False using assms(4) by simp
  qed
  then have a: "?a = r" using takeWhile_dropWhile_id [of "\<lambda>c. c \<noteq> CHR ''/''" r] by simp
  have "CHR ''/'' \<notin> set r" using a by (metis (mono_tags, lifting) set_takeWhileD)
  moreover have "CHR ''?'' \<notin> set r" using get_scheme_suffix [OF s sch(1)] r assms(3) by auto
  ultimately show ?thesis
    using that s r sch(2) p(1) a u(3) ne(2) by metis
qed

text \<open>A path behind the origin is what the parser finds as the path.\<close>

lemma origin_path:
  assumes "validOrigin base" "CHR ''#'' \<notin> set base" "CHR ''?'' \<notin> set base" "base = [] \<or> last base \<noteq> CHR ''/''"
    and "p = CHR ''/'' # q" "set p \<inter> set ''#?%'' = {}" "\<not> has_ctl p"
  shows "\<exists>u. url_Parse (base @ p) = Some u \<and> Path u = p \<and> RawQuery u = [] \<and> Fragment u = [] \<and> \<not> UserInfo u \<and>
    Scheme u \<in> {''http'', ''https''} \<and> (\<exists>v. url_Parse base = Some v \<and> Host u = Host v)"
proof -
  obtain scheme authority host where o:
    "get_scheme base [] base = Some (scheme, ''//'' @ authority)" "ascii_lower scheme \<in> {''http'', ''https''}"
    "CHR ''/'' \<notin> set authority" "parseAuthority authority = Some (False, host)" "host \<noteq> []"
    "\<not> has_ctl base" "CHR ''?'' \<notin> set authority"
    using origin_parts [OF assms(1-4)] by blast
  have sch: "scheme \<noteq> []" using o(2) by (auto simp: ascii_lower_def)
  have g: "get_scheme (base @ p) [] (base @ p) = Some (scheme, ''//'' @ authority @ p)"
    using get_scheme_append [OF o(1) sch, of p] by simp
  have c: "cut CHR ''#'' (base @ p) = (base @ p, [])" "cut CHR ''#'' base = (base, [])"
    "cut CHR ''?'' (''//'' @ authority @ p) = (''//'' @ authority @ p, [])"
    "cut CHR ''?'' (''//'' @ authority) = (''//'' @ authority, [])"
    using assms(2,3,6) o(7) by (auto intro!: cut_absent)
  have w: "takeWhile (\<lambda>c. c \<noteq> CHR ''/'') (authority @ p) = authority"
    "dropWhile (\<lambda>c. c \<noteq> CHR ''/'') (authority @ p) = p"
    "takeWhile (\<lambda>c. c \<noteq> CHR ''/'') authority = authority"
    "dropWhile (\<lambda>c. c \<noteq> CHR ''/'') authority = []"
    using o(3) assms(5) by (auto simp: takeWhile_append dropWhile_append)
  have h: "\<not> has_ctl (base @ p)" using o(6) assms(7) by (simp add: has_ctl_def)
  have n: "base @ p \<noteq> ''*''" "base \<noteq> ''*''"
    using get_scheme_suffix [OF o(1) sch] by auto
  have e: "unescape EncodePath p = Some p" using assms(6) by (intro unescape_plain) auto
  show ?thesis
    using sch n h o(2,4,6)
    by (simp add: url_Parse_def Let_def split_query_def HasPrefix_def c [simplified] g [simplified] o(1) [simplified] w e
        del: takeWhile_eq_all_conv dropWhile_eq_Nil_conv)
qed

section \<open>What a loaded configuration is\<close>

text \<open>
  C39. A configuration that is loaded has passed the validation, and every setting is the one of
  the environment where the variable is set, also to an empty text, and that of the file where
  it is not; the two secrets come from the environment alone.
\<close>

theorem Load_accepts:
  assumes "Load file env = Inr cfg"
  shows "\<exists>raw. file = Some raw \<and> in_bounds cfg \<and> validOrigin (BaseURL (InfraControl cfg)) \<and>
    (case env ''GRANITE_THREADS'' of None \<Rightarrow> Threads (Granite cfg) = f_Threads (file_Granite raw)
       | Some t \<Rightarrow> ParseInt t = Some (Threads (Granite cfg))) \<and>
    (case env ''GRANITE_CONTEXT_SIZE'' of None \<Rightarrow> ContextSize (Granite cfg) = f_ContextSize (file_Granite raw)
       | Some t \<Rightarrow> ParseInt t = Some (ContextSize (Granite cfg))) \<and>
    (case env ''GRANITE_MAX_TOKENS'' of None \<Rightarrow> MaxTokens (Granite cfg) = f_MaxTokens (file_Granite raw)
       | Some t \<Rightarrow> ParseInt t = Some (MaxTokens (Granite cfg))) \<and>
    (case env ''GRANITE_MAX_MESSAGE_LENGTH'' of
         None \<Rightarrow> MaxMessageLength (Granite cfg) = f_MaxMessageLength (file_Granite raw)
       | Some t \<Rightarrow> ParseInt t = Some (MaxMessageLength (Granite cfg))) \<and>
    (case env ''GRANITE_ALLOW_FORCE_STOP'' of
         None \<Rightarrow> AllowForceStop (Granite cfg) = f_AllowForceStop (file_Granite raw)
       | Some t \<Rightarrow> ParseBool t = Some (AllowForceStop (Granite cfg))) \<and>
    ParseDuration (envOr env ''GRANITE_STARTUP_TIMEOUT'' (f_StartupTimeout (file_Granite raw))) =
      Some (StartupTimeout (Granite cfg)) \<and>
    ParseDuration (envOr env ''GRANITE_REQUEST_TIMEOUT'' (f_RequestTimeout (file_Granite raw))) =
      Some (RequestTimeout (Granite cfg)) \<and>
    ParseDuration (envOr env ''GRANITE_ACTION_DEDUP_WINDOW'' (f_ActionDedupWindow (file_Granite raw))) =
      Some (ActionDedupWindow (Granite cfg)) \<and>
    ParseDuration (envOr env ''INFRA_CONTROL_TIMEOUT'' (file_Timeout raw)) = Some (Timeout (InfraControl cfg)) \<and>
    env ''GRANITE_API_KEY'' = Some (APIKey cfg) \<and> env ''INFRA_CONTROL_API_TOKEN'' = Some (APIToken (InfraControl cfg)) \<and>
    ModelID (Granite cfg) = envOr env ''GRANITE_MODEL_ID'' (f_ModelID (file_Granite raw)) \<and>
    BaseURL (InfraControl cfg) =
      TrimRight (TrimSpace (envOr env ''INFRA_CONTROL_API_BASE_URL'' (file_BaseURL raw))) CHR ''/''"
proof -
  obtain raw where raw: "file = Some raw" using assms by (auto simp: Load_Inr)
  have L: "Load (Some raw) env = Inr cfg" using assms raw by simp
  have b: "in_bounds cfg" "validOrigin (BaseURL (InfraControl cfg))"
    using L by (auto simp: Load_Inr Validate_None)
  then have s: "APIKey cfg \<noteq> ''''" "APIToken (InfraControl cfg) \<noteq> ''''" by (auto simp: in_bounds_def)
  have g: "env n = Some v" if "v = Getenv env n" "v \<noteq> ''''" for n v
    using that by (auto simp: Getenv_def split: option.splits)
  show ?thesis
    using L [unfolded Load_Inr] b s
    by (intro exI [of _ raw]) (simp add: raw envInt_Inr envBool_Inr envDuration_Inr g)
qed

section \<open>A concrete configuration\<close>

definition sample_file :: fileConfig where
  "sample_file = \<lparr>file_RestConf = \<lparr>rest_Host = ''0.0.0.0'', rest_Port = 8080\<rparr>,
     file_Granite = \<lparr>f_ModelID = ''granite-4.0-350m'', f_StartupTimeout = ''2m'', f_RequestTimeout = ''30s'',
       f_ActionDedupWindow = ''30s'', f_Threads = 4, f_ContextSize = 2048, f_MaxTokens = 128,
       f_MaxMessageLength = 1000, f_AllowForceStop = False\<rparr>,
     file_BaseURL = ''http://infra:8080/'', file_Timeout = ''10s''\<rparr>"

definition sample_environment :: environment where
  "sample_environment = map_of [(''GRANITE_API_KEY'', ''key''), (''INFRA_CONTROL_API_TOKEN'', ''secret''),
     (''GRANITE_THREADS'', ''8''), (''GRANITE_STARTUP_TIMEOUT'', ''1m30.5s'')]"

lemma sample_Load:
  "(case Load (Some sample_file) sample_environment of Inl e \<Rightarrow> None
    | Inr cfg \<Rightarrow> Some (Threads (Granite cfg), StartupTimeout (Granite cfg), BaseURL (InfraControl cfg))) =
   Some (8, 90500000000, ''http://infra:8080'')"
  by code_simp

theorem Load_accepts_witness:
  "\<exists>cfg. Load (Some sample_file) sample_environment = Inr cfg \<and> in_bounds cfg \<and> Threads (Granite cfg) = 8"
proof -
  obtain cfg where c: "Load (Some sample_file) sample_environment = Inr cfg" "Threads (Granite cfg) = 8"
    using sample_Load by (auto split: sum.splits)
  from Load_accepts [OF c(1)] c show ?thesis by blast
qed

text \<open>
  An address that ends in a sign that starts a query or a fragment passes as an origin, and the
  path of a request that is put behind it is not a path any more.
\<close>

lemma validOrigin_query:
  "validOrigin ''http://infra?'' \<and> map_option Path (url_Parse (''http://infra?'' @ ''/api/v1/pve/vms/1'')) = Some ''''"
  by code_simp

lemma validOrigin_fragment:
  "validOrigin ''http://infra#'' \<and> map_option Path (url_Parse (''http://infra#'' @ ''/api/v1/pve/vms/1'')) = Some ''''"
  by code_simp

section \<open>Durations\<close>

lemma takeWhile_digits:
  assumes "list_all is_digit ds" "u = [] \<or> \<not> is_digit (hd u)"
  shows "takeWhile is_digit (ds @ u) = ds" "dropWhile is_digit (ds @ u) = u"
  using assms by (induction ds; cases u; auto)+

lemma unit_shape: "(u, k) \<in> set unit_map \<Longrightarrow>
    u \<noteq> [] \<and> list_all (\<lambda>c. \<not> number_char c) u \<and> 0 < k \<and> map_of unit_map u = Some k"
proof -
  have "list_all (\<lambda>(u, k). u \<noteq> [] \<and> list_all (\<lambda>c. \<not> number_char c) u \<and> 0 < k \<and> map_of unit_map u = Some k) unit_map"
    by code_simp
  then show "(u, k) \<in> set unit_map \<Longrightarrow> ?thesis" by (auto simp: list_all_iff)
qed

lemma ParseDuration_number:
  assumes "0 \<le> n" "(u, k) \<in> set unit_map"
  shows "ParseDuration (FormatInt n @ u) = (if n * k < two63 then Some (n * k) else None)"
proof -
  have d: "list_all is_digit (FormatInt n)" "parse_digits 0 (FormatInt n) = Some n" "FormatInt n \<noteq> []"
    using assms FormatInt_digits parse_digits_itoa_pos by (auto simp: FormatInt_def)
  obtain c cs where c: "FormatInt n = c # cs" "is_digit c" using d by (cases "FormatInt n") auto
  obtain e es where u: "u = e # es" "\<not> number_char e" "list_all (\<lambda>c. \<not> number_char c) u" "0 < k" "map_of unit_map u = Some k"
    using unit_shape [OF assms(2)] by (cases u) auto
  have t: "takeWhile is_digit (FormatInt n @ u) = FormatInt n" "dropWhile is_digit (FormatInt n @ u) = u"
    "takeWhile (\<lambda>c. \<not> number_char c) u = u" "dropWhile (\<lambda>c. \<not> number_char c) u = []"
    "\<not> HasPrefix u ''.''" "number_char c"
    using takeWhile_digits [OF d(1), of u] u c(2) by (auto simp: number_char_def HasPrefix_def list_all_iff)
  have "split_sign (FormatInt n @ u) = (False, FormatInt n @ u)"
    using c digit_not_sign by (simp add: split_sign_def)
  moreover have "FormatInt n @ u \<noteq> ''0''" using u(1) c(1) by auto
  moreover have "parse_units (FormatInt n @ u) 0 = (if n * k \<le> two63 then Some (n * k) else None)"
  proof -
    have z: "parse_units [] x = Some x" for x by (simp add: parse_units.simps)
    have "n \<le> two63 div k \<longleftrightarrow> n * k \<le> two63"
    proof
      assume "n \<le> two63 div k"
      then have "n * k \<le> two63 div k * k" using u(4) by (simp add: mult_right_mono)
      also have "\<dots> \<le> two63" using div_mult_mod_eq [of two63 k] pos_mod_sign [OF u(4), of two63] by linarith
      finally show "n * k \<le> two63" .
    next
      assume "n * k \<le> two63"
      then show "n \<le> two63 div k" using zdiv_mono1 [of "n * k" two63 k] u(4) by simp
    qed
    moreover have "n \<le> n * k" using u(4) assms(1) by (simp add: mult_le_cancel_left1)
    moreover have "number_char (hd (FormatInt n @ u))" "FormatInt n @ u \<noteq> []" "u \<noteq> []"
      using c t(6) u(1) by simp_all
    ultimately show ?thesis
      by (subst parse_units.simps)
        (simp add: t(1-5) d(2,3) u(5) z fraction_def Let_def not_le [symmetric] del: takeWhile_eq_all_conv dropWhile_eq_Nil_conv)
  qed
  ultimately show ?thesis using u(1) by (auto simp: ParseDuration_def c(1))
qed

text \<open>
  A duration given as a whole number of a unit is that number of nanoseconds when it fits into
  64 bits, and refused otherwise: it never wraps around to another duration.
\<close>

lemma duration_never_wraps:
  assumes "0 \<le> n" "(u, k) \<in> set unit_map" "envOr env name fallback = FormatInt n @ u"
  shows "envDuration env name fallback =
    (if n * k \<le> int64_max then Inr (n * k) else Inl (ErrorText (name @ '' is invalid'')))"
  using ParseDuration_number [OF assms(1,2)] assms(3) by (simp add: envDuration_def invalid_env_def)

end
