(* ===== verification/GraniteClient.thy ===== *)
theory GraniteClient
  imports Http Encode Apierror Openai
begin

text \<open>
  \<open>internal/granite/client.go\<close>: the client of the local model. One request asks the model
  to choose a tool; the answer must hold exactly one tool call.
\<close>

record ToolCall =
  tc_Type :: string
  tc_Name :: string
  tc_Arguments :: string

record GraniteClient =
  gc_endpoint :: string
  gc_key :: string
  gc_model :: string
  gc_maxTokens :: int

definition NewGraniteClient :: "string \<Rightarrow> string \<Rightarrow> string \<Rightarrow> int \<Rightarrow> GraniteClient" where
  "NewGraniteClient endpoint key model maxTokens =
    \<lparr>gc_endpoint = TrimRight endpoint CHR ''/'' @ ''/v1/chat/completions'', gc_key = key,
     gc_model = model, gc_maxTokens = maxTokens\<rparr>"

definition upstream :: "goerror \<Rightarrow> apierror" where
  "upstream err = OpenAI ''granite_request_failed'' (''Granite '' @ utf8 [0x6A21, 0x578B,
      0x8BF7, 0x6C42, 0x5931, 0x8D25, 0x3002]) '''' 502 (Some err)"

section \<open>The request\<close>

definition enc_FunctionTool :: "FunctionTool \<Rightarrow> string option" where
  "enc_FunctionTool t =
    map_option (\<lambda>params. enc_object
      [(''type'', enc_string (ft_Type t)),
       (''function'', enc_object
         ([(''name'', enc_string (fd_Name (ft_Function t)))] @
          (if fd_Description (ft_Function t) = [] then []
           else [(''description'', enc_string (fd_Description (ft_Function t)))]) @
          [(''parameters'', params)]))])
      (enc_raw (fd_Parameters (ft_Function t)))"

text \<open>An empty list of tools is a nil slice, and a failed encoding leaves an empty body.\<close>

definition select_body :: "GraniteClient \<Rightarrow> string \<Rightarrow> FunctionTool list \<Rightarrow> string" where
  "select_body c message tools =
    (case those (map enc_FunctionTool tools) of
       None \<Rightarrow> ''''
     | Some ts \<Rightarrow> enc_object
         [(''model'', enc_string (gc_model c)),
          (''messages'', enc_array [enc_object
             [(''content'', enc_string message), (''role'', enc_string ''user'')]]),
          (''tools'', if ts = [] then ''null'' else enc_array ts),
          (''temperature'', ''0''), (''top_p'', ''1''), (''seed'', enc_int 42),
          (''max_tokens'', enc_int (gc_maxTokens c)), (''tool_choice'', enc_string ''required''),
          (''stream'', enc_bool False)])"

section \<open>The answer\<close>

record wire_function =
  wf_Name :: string
  wf_Arguments :: string

record wire_call =
  wc_Type :: string
  wc_Function :: wire_function

record wire_message =
  wm_ToolCalls :: "wire_call list"

record wire_choice =
  wch_Message :: wire_message

record wire =
  w_Choices :: "wire_choice list"

definition dec_wire_function :: "wire_function decoder" where
  "dec_wire_function = dec_struct False
    [fld ''name'' dec_string wf_Name wf_Name_update,
     fld ''arguments'' dec_string wf_Arguments wf_Arguments_update]"

definition dec_wire_call :: "wire_call decoder" where
  "dec_wire_call = dec_struct False
    [fld ''type'' dec_string wc_Type wc_Type_update,
     fld ''function'' dec_wire_function wc_Function wc_Function_update]"

definition zero_wire_call :: wire_call where
  "zero_wire_call = \<lparr>wc_Type = '''', wc_Function = \<lparr>wf_Name = '''', wf_Arguments = ''''\<rparr>\<rparr>"

definition dec_wire_message :: "wire_message decoder" where
  "dec_wire_message = dec_struct False
    [fld ''tool_calls'' (dec_slice dec_wire_call zero_wire_call) wm_ToolCalls wm_ToolCalls_update]"

definition dec_wire_choice :: "wire_choice decoder" where
  "dec_wire_choice = dec_struct False
    [fld ''message'' dec_wire_message wch_Message wch_Message_update]"

definition dec_wire :: "wire decoder" where
  "dec_wire = dec_struct False
    [fld ''choices'' (dec_slice dec_wire_choice \<lparr>wch_Message = \<lparr>wm_ToolCalls = []\<rparr>\<rparr>)
       w_Choices w_Choices_update]"

text \<open>From the calls of the one choice to the answer.\<close>

definition one_call :: "wire_call list \<Rightarrow> apierror + ToolCall" where
  "one_call calls =
    (if calls = [] then Inl (OpenAI ''tool_call_required''
       (utf8 [0x6A21, 0x578B, 0x672A, 0x80FD, 0x786E, 0x5B9A, 0x8981, 0x6267, 0x884C, 0x7684,
           0x865A, 0x62DF, 0x673A, 0x64CD, 0x4F5C, 0xFF0C, 0x8BF7, 0x660E, 0x786E, 0x8BF4,
           0x660E, 0x67E5, 0x8BE2, 0x3001, 0x5F00, 0x542F, 0x3001, 0x6B63, 0x5E38, 0x5173,
           0x673A, 0x3001, 0x5F3A, 0x5236, 0x505C, 0x6B62, 0x6216, 0x91CD, 0x542F, 0x3002])
       ''messages'' 422 None)
     else if length calls \<noteq> 1 then Inl (OpenAI ''multiple_tool_calls_not_supported''
       (utf8 [0x6BCF, 0x6B21, 0x8BF7, 0x6C42, 0x53EA, 0x80FD, 0x6267, 0x884C, 0x4E00, 0x4E2A,
           0x865A, 0x62DF, 0x673A, 0x64CD, 0x4F5C, 0x3002]) ''messages'' 422 None)
     else Inr \<lparr>tc_Type = wc_Type (hd calls), tc_Name = wf_Name (wc_Function (hd calls)),
               tc_Arguments = wf_Arguments (wc_Function (hd calls))\<rparr>)"

text \<open>
  Reading stops one byte after the limit, so an error of the body is only seen within it.
\<close>

definition read_answer :: "HttpResponse \<Rightarrow> apierror + ToolCall" where
  "read_answer resp =
    (let data = LimitReader (resp_Body resp) (responseLimit + 1) in
     if resp_BodyError resp \<and> int (length (resp_Body resp)) \<le> responseLimit
        \<or> int (length data) > responseLimit \<or> StatusCode resp \<noteq> 200
     then Inl (upstream (ErrorText (''invalid Granite response status '' @ FormatInt (StatusCode resp))))
     else case unmarshal dec_wire \<lparr>w_Choices = []\<rparr> data of
       None \<Rightarrow> Inl (upstream (ErrorText ''invalid Granite JSON''))
     | Some w \<Rightarrow>
         if length (w_Choices w) \<noteq> 1 then Inl (upstream (ErrorText ''invalid Granite JSON''))
         else one_call (wm_ToolCalls (wch_Message (hd (w_Choices w)))))"

definition Select ::
  "network \<Rightarrow> GraniteClient \<Rightarrow> string \<Rightarrow> FunctionTool list \<Rightarrow> history \<Rightarrow> (apierror + ToolCall) \<times> history"
where
  "Select net c message tools h =
    (case NewRequest ''POST'' (gc_endpoint c) (select_body c message tools) of
       None \<Rightarrow> (Inl (upstream (ErrorText ''parse'')), h)
     | Some req \<Rightarrow>
         let req = header_Set ''Authorization'' (''Bearer '' @ gc_key c) req;
             req = header_Set ''Content-Type'' ''application/json'' req
         in case http_Do net req h of
           (Failure timeout dns, h) \<Rightarrow> (Inl (upstream (NetError timeout dns)), h)
         | (Answer resp, h) \<Rightarrow> (read_answer resp, h))"

section \<open>What the client does\<close>

text \<open>At most one exchange, with the model, and never anything but that.\<close>

lemma Select_history:
  assumes "Select net c message tools h = (r, h')"
  obtains "h' = h" | req o1 where "h' = h @ [(req, o1)]" "req_URL req = gc_endpoint c"
proof (cases "NewRequest ''POST'' (gc_endpoint c) (select_body c message tools)")
  case None
  then show ?thesis using assms that(1) by (simp add: Select_def)
next
  case (Some req)
  then show ?thesis
    using assms that(2) NewRequest_fields [OF Some]
    by (auto simp: Select_def Let_def http_Do_def split: prod.splits outcome.splits)
qed

text \<open>\<open>managed.Selector\<close>, for the code that calls it: one question to the model at most.\<close>

locale selector =
  fixes select :: "string \<Rightarrow> FunctionTool list \<Rightarrow> history \<Rightarrow> (apierror + ToolCall) \<times> history"
    and endpoint :: string
  assumes select_sends: "select message tools h = (r, h') \<Longrightarrow>
      h' = h \<or> (\<exists>req out. h' = h @ [(req, out)] \<and> req_URL req = endpoint)"
    and select_call: "select message tools h = (Inr call, h') \<Longrightarrow>
      \<exists>req resp. h' = h @ [(req, Answer resp)] \<and> req_URL req = endpoint \<and> read_answer resp = Inr call"

interpretation model: selector "Select net c" "gc_endpoint c" for net c
proof (unfold_locales, goal_cases)
  case (1 message tools h r h')
  then show ?case by (rule Select_history) blast+
next
  case (2 message tools h call h')
  obtain req where n: "NewRequest ''POST'' (gc_endpoint c) (select_body c message tools) = Some req"
    using 2 by (auto simp: Select_def split: option.splits)
  then show ?case
    using 2 NewRequest_fields [OF n]
    by (auto simp: Select_def Let_def http_Do_def split: prod.splits outcome.splits)
qed

lemma one_call_Inr:
  "one_call calls = Inr call \<longleftrightarrow>
    (\<exists>c. calls = [c] \<and> call = \<lparr>tc_Type = wc_Type c, tc_Name = wf_Name (wc_Function c),
       tc_Arguments = wf_Arguments (wc_Function c)\<rparr>)"
  by (cases calls; cases "tl calls") (auto simp: one_call_def)

lemma read_answer_Inr:
  "read_answer resp = Inr call \<longleftrightarrow>
    \<not> resp_BodyError resp \<and> int (length (resp_Body resp)) \<le> responseLimit \<and> StatusCode resp = 200 \<and>
    (\<exists>c. unmarshal dec_wire \<lparr>w_Choices = []\<rparr> (resp_Body resp) =
        Some \<lparr>w_Choices = [\<lparr>wch_Message = \<lparr>wm_ToolCalls = [c]\<rparr>\<rparr>]\<rparr> \<and>
      call = \<lparr>tc_Type = wc_Type c, tc_Name = wf_Name (wc_Function c),
         tc_Arguments = wf_Arguments (wc_Function c)\<rparr>)"
proof (cases "int (length (resp_Body resp)) \<le> responseLimit")
  case True
  then have d: "LimitReader (resp_Body resp) (responseLimit + 1) = resp_Body resp"
    by (simp add: LimitReader_def)
  have w: "(\<exists>w. X = Some w \<and> length (w_Choices w) = 1 \<and> wm_ToolCalls (wch_Message (hd (w_Choices w))) = [c])
      \<longleftrightarrow> X = Some \<lparr>w_Choices = [\<lparr>wch_Message = \<lparr>wm_ToolCalls = [c]\<rparr>\<rparr>]\<rparr>" for X c
  proof
    assume "\<exists>w. X = Some w \<and> length (w_Choices w) = 1 \<and> wm_ToolCalls (wch_Message (hd (w_Choices w))) = [c]"
    then obtain w where w: "X = Some w" "length (w_Choices w) = 1"
      "wm_ToolCalls (wch_Message (hd (w_Choices w))) = [c]" by blast
    then obtain x where x: "w_Choices w = [x]" by (auto simp: length_Suc_conv)
    obtain m where m: "wch_Message x = m" by simp
    have "w = \<lparr>w_Choices = [\<lparr>wch_Message = \<lparr>wm_ToolCalls = [c]\<rparr>\<rparr>]\<rparr>"
      using w(3) x by (cases w; cases x; cases "wch_Message x") auto
    with w(1) show "X = Some \<lparr>w_Choices = [\<lparr>wch_Message = \<lparr>wm_ToolCalls = [c]\<rparr>\<rparr>]\<rparr>" by simp
  qed auto
  show ?thesis
    using True
    by (auto simp: read_answer_def Let_def d one_call_Inr simp flip: w split: option.splits)
next
  case False
  then have "int (length (LimitReader (resp_Body resp) (responseLimit + 1))) > responseLimit"
    by (simp add: LimitReader_def responseLimit_def)
  then show ?thesis using False by (simp add: read_answer_def Let_def)
qed

text \<open>
  C31. A tool call is accepted from the model only when it answered 200 with a complete body
  within the limit that is one JSON document with exactly one choice holding exactly one tool
  call; then it is the type, the name and the arguments of that call, after exactly one
  request.
\<close>

theorem Select_accepts:
  assumes "Select net c message tools h = (Inr call, h')"
  shows "\<exists>req resp w. h' = h @ [(req, Answer resp)] \<and> req_URL req = gc_endpoint c \<and>
    StatusCode resp = 200 \<and> \<not> resp_BodyError resp \<and> int (length (resp_Body resp)) \<le> responseLimit \<and>
    unmarshal dec_wire \<lparr>w_Choices = []\<rparr> (resp_Body resp) =
      Some \<lparr>w_Choices = [\<lparr>wch_Message = \<lparr>wm_ToolCalls = [w]\<rparr>\<rparr>]\<rparr> \<and>
    call = \<lparr>tc_Type = wc_Type w, tc_Name = wf_Name (wc_Function w),
            tc_Arguments = wf_Arguments (wc_Function w)\<rparr>"
  using model.select_call [OF assms] unfolding read_answer_Inr by blast

section \<open>A concrete model\<close>

definition sample_client :: GraniteClient where
  "sample_client = NewGraniteClient ''http://127.0.0.1:18080'' ''key'' ''granite-4.0-350m'' 128"

definition wire_text :: "string \<Rightarrow> string \<Rightarrow> string" where
  "wire_text tool arguments = enc_object [(''choices'', enc_array [enc_object [(''message'', enc_object
     [(''content'', ''null''), (''tool_calls'', enc_array [enc_object
        [(''type'', enc_string ''function''), (''function'', enc_object
           [(''name'', enc_string tool), (''arguments'', enc_string arguments)])]])])]])]"

definition model_answer :: "string \<Rightarrow> string \<Rightarrow> outcome" where
  "model_answer tool arguments = Answer
     \<lparr>StatusCode = 200, resp_Header = [], resp_Body = wire_text tool arguments, resp_BodyError = False\<rparr>"

definition start_arguments :: string where
  "start_arguments = enc_object [(''vmid'', enc_int 3052)]"

definition sample_model :: network where
  "sample_model h req = model_answer ''pve_vm_start'' start_arguments"

lemma sample_Select:
  "fst (Select sample_model sample_client ''hello'' [] []) =
    Inr \<lparr>tc_Type = ''function'', tc_Name = ''pve_vm_start'', tc_Arguments = start_arguments\<rparr>"
  by code_simp

theorem Select_accepts_witness:
  "\<exists>call h'. Select sample_model sample_client ''hello'' [] [] = (Inr call, h') \<and> length h' = 1"
proof -
  obtain r h' where s: "Select sample_model sample_client ''hello'' [] [] = (r, h')"
    by (cases "Select sample_model sample_client ''hello'' [] []")
  with sample_Select obtain call where r: "r = Inr call" by simp
  from Select_accepts [OF s [unfolded r]] show ?thesis using s r by auto
qed

end
