(* ===== verification/Dedup.thy ===== *)
theory Dedup
  imports Prelude Machine
begin

text \<open>
  \<open>internal/dedup/store.go\<close>: concurrent calls for one key run the function once, and the
  result of a call that asks for it is kept for a window of time. The map goes from keys to
  addresses of entries, since a waiting call holds on to the entry it has found even when the
  map has forgotten it. Times are nanoseconds; the clock never runs backwards.

  The two critical sections of \<open>Do\<close> are the operations \<open>enter\<close> and \<open>finish\<close>; between
  them the function runs without the lock. \<open>Do\<close> composes them for one goroutine, and the
  step relation below interleaves those of many.
\<close>

section \<open>The store\<close>

datatype CachePolicy = DoNotCache | Cache

type_synonym time = int
type_synonym addr = nat

text \<open>\<open>e_done\<close> says that the channel is closed; a zero time of expiry is \<open>None\<close>.\<close>

record ('v, 'e) entry =
  e_done :: bool
  e_value :: "'v option"
  e_err :: "'e option"
  e_expires :: "time option"

record ('v, 'e) Store =
  entries :: "string \<Rightarrow> addr option"
  heap :: "('v, 'e) entry list"
  window :: int

record ('v, 'e) DoResult =
  Value :: "'v option"
  Err :: "'e option"
  Deduplicated :: bool

definition new_store :: "int \<Rightarrow> ('v, 'e) Store" where
  "new_store w = \<lparr>entries = (\<lambda>k. None), heap = [], window = w\<rparr>"

definition new_entry :: "('v, 'e) entry" where
  "new_entry = \<lparr>e_done = False, e_value = None, e_err = None, e_expires = None\<rparr>"

datatype entered = Wait addr | Run addr

text \<open>The first critical section: wait for the entry that is found, or run with a new one.\<close>

definition enter :: "string \<Rightarrow> time \<Rightarrow> ('v, 'e) Store \<Rightarrow> entered \<times> ('v, 'e) Store" where
  "enter key now s =
    (let start = (\<lambda>s. (Run (length (heap s)),
           s\<lparr>heap := heap s @ [new_entry], entries := (entries s)(key \<mapsto> length (heap s))\<rparr>)) in
     case entries s key of
       Some old \<Rightarrow>
         (case e_expires (heap s ! old) of
            None \<Rightarrow> (Wait old, s)
          | Some t \<Rightarrow>
              if now < t then (Wait old, s)
              else start (s\<lparr>entries := (entries s)(key := None)\<rparr>))
     | None \<Rightarrow> start s)"

text \<open>The second critical section, after the function has returned.\<close>

definition finish ::
  "string \<Rightarrow> addr \<Rightarrow> 'v option \<Rightarrow> CachePolicy \<Rightarrow> 'e option \<Rightarrow> time \<Rightarrow> ('v, 'e) Store \<Rightarrow> ('v, 'e) Store"
where
  "finish key a v policy err now s =
    (let e = (heap s ! a)\<lparr>e_value := v, e_err := err\<rparr>;
         s' = (case policy of
                 Cache \<Rightarrow> s\<lparr>heap := (heap s)[a := e\<lparr>e_expires := Some (now + window s), e_done := True\<rparr>]\<rparr>
               | DoNotCache \<Rightarrow> s\<lparr>heap := (heap s)[a := e\<lparr>e_done := True\<rparr>],
                                 entries := (entries s)(key := None)\<rparr>)
     in s')"

text \<open>What a waiting call returns: the result of the entry, or the end of its context.\<close>

definition waited :: "addr \<Rightarrow> ('v, 'e) Store \<Rightarrow> ('v, 'e) DoResult" where
  "waited a s = \<lparr>Value = e_value (heap s ! a), Err = e_err (heap s ! a), Deduplicated = True\<rparr>"

definition canceled :: "'e \<Rightarrow> ('v, 'e) DoResult" where
  "canceled ctxErr = \<lparr>Value = None, Err = Some ctxErr, Deduplicated = True\<rparr>"

definition ran :: "'v option \<Rightarrow> 'e option \<Rightarrow> ('v, 'e) DoResult" where
  "ran v err = \<lparr>Value = v, Err = err, Deduplicated = False\<rparr>"

text \<open>
  \<open>Do\<close> for one goroutine, while no other changes the store: \<open>now\<close> and \<open>later\<close> are what
  the clock says at the two critical sections, and \<open>ctx\<close> is how the context ends if the entry
  that is found never gets done, with a flag that the context is over before the wait and the
  \<open>select\<close>, which may take either where both are possible, takes it although the entry is done.
  The function works on a state \<open>w\<close> of its own.
\<close>

definition Do ::
  "string \<Rightarrow> time \<Rightarrow> time \<Rightarrow> bool \<times> 'e \<Rightarrow> ('w \<Rightarrow> ('v option \<times> CachePolicy \<times> 'e option) \<times> 'w)
    \<Rightarrow> ('v, 'e) Store \<Rightarrow> 'w \<Rightarrow> ('v, 'e) DoResult \<times> ('v, 'e) Store \<times> 'w"
where
  "Do key now later ctx fn s w =
    (case enter key now s of
       (Wait old, s) \<Rightarrow> ((if e_done (heap s ! old) \<and> \<not> fst ctx then waited old s else canceled (snd ctx)), s, w)
     | (Run current, s) \<Rightarrow>
         (case fn w of
            ((v, policy, err), w) \<Rightarrow> (ran v err, finish key current v policy err later s, w)))"

section \<open>Well-formed stores and the abstract table\<close>

text \<open>
  Every address of the map is allocated and no two keys share one; an entry in the map is
  being run exactly while it has no time of expiry, and is done when it has one.
\<close>

definition wf_store :: "('v, 'e) Store \<Rightarrow> bool" where
  "wf_store s \<longleftrightarrow>
    (\<forall>k a. entries s k = Some a \<longrightarrow> a < length (heap s)) \<and>
    (\<forall>k l a. entries s k = Some a \<longrightarrow> entries s l = Some a \<longrightarrow> k = l) \<and>
    (\<forall>k a. entries s k = Some a \<longrightarrow> (e_done (heap s ! a) \<longleftrightarrow> e_expires (heap s ! a) \<noteq> None)) \<and>
    (\<forall>a < length (heap s). e_expires (heap s ! a) \<noteq> None \<longrightarrow> e_done (heap s ! a))"

text \<open>What the store promises: each key is free, being run, or holds a result until a time.\<close>

datatype ('v, 'e) slot = Free | Pending | Held "'v option" "'e option" time

definition slot_of :: "('v, 'e) Store \<Rightarrow> string \<Rightarrow> ('v, 'e) slot" where
  "slot_of s k =
    (case entries s k of
       None \<Rightarrow> Free
     | Some a \<Rightarrow>
         (case e_expires (heap s ! a) of
            None \<Rightarrow> Pending
          | Some t \<Rightarrow> Held (e_value (heap s ! a)) (e_err (heap s ! a)) t))"

definition blocks :: "('v, 'e) slot \<Rightarrow> time \<Rightarrow> bool" where
  "blocks x now = (case x of Free \<Rightarrow> False | Pending \<Rightarrow> True | Held v e t \<Rightarrow> now < t)"

lemma wf_new_store: "wf_store (new_store w)"
  by (simp add: wf_store_def new_store_def)

lemma slot_new_store [simp]: "slot_of (new_store w) k = Free"
  by (simp add: slot_of_def new_store_def)

lemma enter_Wait:
  "enter k now s = (Wait a, s') \<longleftrightarrow> s' = s \<and> entries s k = Some a \<and> blocks (slot_of s k) now"
  by (auto simp: enter_def slot_of_def blocks_def Let_def split: option.splits)

lemma enter_Run:
  "enter k now s = (Run a, s') \<longleftrightarrow>
    a = length (heap s) \<and> \<not> blocks (slot_of s k) now \<and>
    s' = s\<lparr>heap := heap s @ [new_entry], entries := (entries s)(k \<mapsto> length (heap s))\<rparr>"
  by (auto simp: enter_def slot_of_def blocks_def Let_def split: option.splits)

lemma wf_entry: "wf_store s \<Longrightarrow> entries s k = Some a \<Longrightarrow> a < length (heap s)"
  by (simp add: wf_store_def)

lemma enter_wf: "wf_store s \<Longrightarrow> enter k now s = (r, s') \<Longrightarrow> wf_store s'"
proof (cases r)
  case (Run a)
  assume wf: "wf_store s" and "enter k now s = (r, s')"
  then have s': "s' = s\<lparr>heap := heap s @ [new_entry], entries := (entries s)(k \<mapsto> length (heap s))\<rparr>"
    using Run by (simp add: enter_Run)
  show ?thesis
    using wf unfolding s' wf_store_def
    by (auto simp: nth_append new_entry_def less_Suc_eq dest: less_imp_neq)
qed (simp add: enter_Wait)

text \<open>The first critical section on the abstract table.\<close>

lemma enter_slots:
  assumes "wf_store s" "enter k now s = (r, s')"
  shows "slot_of s' =
    (case r of Wait a \<Rightarrow> slot_of s | Run a \<Rightarrow> (slot_of s)(k := Pending))"
proof (cases r)
  case (Run a)
  with assms show ?thesis
    by (auto simp: enter_Run slot_of_def fun_eq_iff nth_append new_entry_def
        dest: wf_entry split: option.splits)
qed (use assms in \<open>simp add: enter_Wait\<close>)

lemma finish_wf:
  assumes "wf_store s" "entries s k = Some a"
  shows "wf_store (finish k a v p e now s)"
  using assms unfolding wf_store_def
  by (cases p) (auto simp: finish_def Let_def nth_list_update split: if_splits)

text \<open>The second critical section on the abstract table.\<close>

lemma finish_slots:
  assumes "wf_store s" "entries s k = Some a"
  shows "slot_of (finish k a v p e now s) =
    (slot_of s)(k := (case p of Cache \<Rightarrow> Held v e (now + window s) | DoNotCache \<Rightarrow> Free))"
proof -
  have "entries s l \<noteq> Some a" if "l \<noteq> k" for l
    using assms that by (auto simp: wf_store_def)
  moreover have "a < length (heap s)" using assms by (rule wf_entry)
  ultimately show ?thesis
    using assms(2)
    by (cases p) (auto simp: finish_def Let_def slot_of_def fun_eq_iff nth_list_update
        split: option.splits)
qed

lemma finish_window [simp]: "window (finish k a v p e now s) = window s"
  by (cases p) (simp_all add: finish_def Let_def)

lemma enter_window: "enter k now s = (r, s') \<Longrightarrow> window s' = window s"
  by (cases r) (auto simp: enter_Wait enter_Run)

section \<open>Many goroutines\<close>

text \<open>
  A goroutine that calls \<open>Do\<close> is idle, waits for an entry, runs its function for an entry,
  or has returned. The log of the starts and the ends of the runs, the newest first, is what
  the properties speak about.
\<close>

datatype ('v, 'e) thread =
    Idle
  | Waiting string addr
  | Running string addr
  | Returned string "('v, 'e) DoResult"

datatype ('v, 'e) event =
    Started string addr time
  | Finished string addr "'v option" CachePolicy "'e option" time

record ('v, 'e) system =
  store :: "('v, 'e) Store"
  threads :: "nat \<Rightarrow> ('v, 'e) thread"
  clock :: time
  log :: "('v, 'e) event list"

definition initial :: "int \<Rightarrow> time \<Rightarrow> ('v, 'e) system" where
  "initial w t = \<lparr>store = new_store w, threads = (\<lambda>i. Idle), clock = t, log = []\<rparr>"

inductive step :: "('v, 'e) system \<Rightarrow> ('v, 'e) system \<Rightarrow> bool" where
  tick: "clock s \<le> t \<Longrightarrow> step s (s\<lparr>clock := t\<rparr>)"
| enter_wait:
    "threads s i = Idle \<Longrightarrow> enter k (clock s) (store s) = (Wait a, st) \<Longrightarrow>
     step s (s\<lparr>store := st, threads := (threads s)(i := Waiting k a)\<rparr>)"
| enter_run:
    "threads s i = Idle \<Longrightarrow> enter k (clock s) (store s) = (Run a, st) \<Longrightarrow>
     step s (s\<lparr>store := st, threads := (threads s)(i := Running k a),
              log := Started k a (clock s) # log s\<rparr>)"
| finish:
    "threads s i = Running k a \<Longrightarrow>
     step s (s\<lparr>store := finish k a v p e (clock s) (store s),
              threads := (threads s)(i := Returned k (ran v e)),
              log := Finished k a v p e (clock s) # log s\<rparr>)"
| wake:
    "threads s i = Waiting k a \<Longrightarrow> e_done (heap (store s) ! a) \<Longrightarrow>
     step s (s\<lparr>threads := (threads s)(i := Returned k (waited a (store s)))\<rparr>)"
| cancel:
    "threads s i = Waiting k a \<Longrightarrow>
     step s (s\<lparr>threads := (threads s)(i := Returned k (canceled c))\<rparr>)"
| again: "threads s i = Returned k r \<Longrightarrow> step s (s\<lparr>threads := (threads s)(i := Idle)\<rparr>)"

inductive reachable :: "int \<Rightarrow> ('v, 'e) system \<Rightarrow> bool" for w where
  start: "reachable w (initial w t)"
| next_step: "reachable w s \<Longrightarrow> step s s' \<Longrightarrow> reachable w s'"

text \<open>The runs and the entries belong together.\<close>

definition runs_ok :: "('v, 'e) system \<Rightarrow> bool" where
  "runs_ok s \<longleftrightarrow>
    wf_store (store s) \<and>
    (\<forall>i k a. threads s i = Running k a \<longrightarrow>
       entries (store s) k = Some a \<and> e_expires (heap (store s) ! a) = None) \<and>
    (\<forall>i j k l a. threads s i = Running k a \<longrightarrow> threads s j = Running l a \<longrightarrow> i = j) \<and>
    (\<forall>k a. entries (store s) k = Some a \<longrightarrow> e_expires (heap (store s) ! a) = None \<longrightarrow>
       (\<exists>i. threads s i = Running k a)) \<and>
    (\<forall>i k a. threads s i = Waiting k a \<longrightarrow> a < length (heap (store s)) \<and>
       (e_done (heap (store s) ! a) \<or> (\<exists>j. threads s j = Running k a)))"

text \<open>Every result that is handed out is that of a finished run, or the end of a context.\<close>

definition came_from :: "('v, 'e) system \<Rightarrow> string \<Rightarrow> addr \<Rightarrow> 'v option \<Rightarrow> 'e option \<Rightarrow> bool" where
  "came_from s k a v e \<longleftrightarrow> (\<exists>p t. Finished k a v p e t \<in> set (log s))"

definition results_ok :: "('v, 'e) system \<Rightarrow> bool" where
  "results_ok s \<longleftrightarrow>
    (\<forall>k a. entries (store s) k = Some a \<longrightarrow> e_done (heap (store s) ! a) \<longrightarrow>
       came_from s k a (e_value (heap (store s) ! a)) (e_err (heap (store s) ! a))) \<and>
    (\<forall>i k a. threads s i = Waiting k a \<longrightarrow> e_done (heap (store s) ! a) \<longrightarrow>
       came_from s k a (e_value (heap (store s) ! a)) (e_err (heap (store s) ! a))) \<and>
    (\<forall>i k r. threads s i = Returned k r \<longrightarrow>
       (\<exists>a. came_from s k a (Value r) (Err r)) \<or> (\<exists>c. r = canceled c))"

text \<open>A run that asked to be kept blocks its key for the window.\<close>

definition kept :: "('v, 'e) system \<Rightarrow> bool" where
  "kept s \<longleftrightarrow>
    (\<forall>k a v e t. Finished k a v Cache e t \<in> set (log s) \<longrightarrow> t \<le> clock s \<and>
       (clock s < t + window (store s) \<longrightarrow>
          (\<exists>v e. slot_of (store s) k = Held v e (t + window (store s)))))"

definition windows_ok :: "('v, 'e) system \<Rightarrow> bool" where
  "windows_ok s \<longleftrightarrow>
    (\<forall>newer older k b u a v e t. log s = newer @ Started k b u # older \<longrightarrow>
       Finished k a v Cache e t \<in> set older \<longrightarrow> t + window (store s) \<le> u)"

lemma runs_okI:
  assumes "wf_store (store s)"
    "\<And>i k a. threads s i = Running k a \<Longrightarrow>
       entries (store s) k = Some a \<and> e_expires (heap (store s) ! a) = None"
    "\<And>i j k l a. threads s i = Running k a \<Longrightarrow> threads s j = Running l a \<Longrightarrow> i = j"
    "\<And>k a. entries (store s) k = Some a \<Longrightarrow> e_expires (heap (store s) ! a) = None \<Longrightarrow>
       \<exists>i. threads s i = Running k a"
    "\<And>i k a. threads s i = Waiting k a \<Longrightarrow> a < length (heap (store s)) \<and>
       (e_done (heap (store s) ! a) \<or> (\<exists>j. threads s j = Running k a))"
  shows "runs_ok s"
  unfolding runs_ok_def using assms by blast

lemma runs_ok_wf: "runs_ok s \<Longrightarrow> wf_store (store s)"
  by (simp add: runs_ok_def)

lemma wf_expires: "wf_store s \<Longrightarrow> entries s k = Some a \<Longrightarrow> e_done (heap s ! a) \<longleftrightarrow> e_expires (heap s ! a) \<noteq> None"
  by (simp add: wf_store_def)

lemma wf_inj: "wf_store s \<Longrightarrow> entries s k = Some a \<Longrightarrow> entries s l = Some a \<Longrightarrow> k = l"
  unfolding wf_store_def by blast

lemma running_entry:
  assumes "runs_ok s" "threads s i = Running k a"
  shows "entries (store s) k = Some a" "e_expires (heap (store s) ! a) = None"
    "\<not> e_done (heap (store s) ! a)" "a < length (heap (store s))" "slot_of (store s) k = Pending"
proof -
  show e: "entries (store s) k = Some a" "e_expires (heap (store s) ! a) = None"
    using assms unfolding runs_ok_def by blast+
  show "\<not> e_done (heap (store s) ! a)" "a < length (heap (store s))" "slot_of (store s) k = Pending"
    using wf_expires [OF runs_ok_wf [OF assms(1)] e(1)] wf_entry [OF runs_ok_wf [OF assms(1)] e(1)] e
    by (simp_all add: slot_of_def)
qed

lemma running_unique:
  "runs_ok s \<Longrightarrow> threads s i = Running k a \<Longrightarrow> threads s j = Running l a \<Longrightarrow> i = j"
  unfolding runs_ok_def by blast

lemma pending_running:
  "runs_ok s \<Longrightarrow> entries (store s) k = Some a \<Longrightarrow> e_expires (heap (store s) ! a) = None \<Longrightarrow>
    \<exists>i. threads s i = Running k a"
  unfolding runs_ok_def by blast

lemma waiting_ok:
  "runs_ok s \<Longrightarrow> threads s i = Waiting k a \<Longrightarrow> a < length (heap (store s)) \<and>
    (e_done (heap (store s) ! a) \<or> (\<exists>j. threads s j = Running k a))"
  unfolding runs_ok_def by blast

text \<open>Two runs for one key are the same run.\<close>

lemma running_key:
  assumes "runs_ok s" "threads s i = Running k a" "threads s j = Running k b"
  shows "i = j"
proof -
  have "a = b" using running_entry(1) [OF assms(1,2)] running_entry(1) [OF assms(1,3)] by simp
  then show ?thesis using running_unique [OF assms(1,2)] assms(3) by simp
qed

lemma finish_heap:
  assumes "a < length (heap s)"
  shows "b \<noteq> a \<Longrightarrow> heap (finish k a v p e now s) ! b = heap s ! b"
    "e_done (heap (finish k a v p e now s) ! a)"
    "e_value (heap (finish k a v p e now s) ! a) = v"
    "e_err (heap (finish k a v p e now s) ! a) = e"
    "length (heap (finish k a v p e now s)) = length (heap s)"
  using assms by (cases p; simp add: finish_def Let_def)+

lemma finish_entries:
  "entries (finish k a v p e now s) =
    (case p of Cache \<Rightarrow> entries s | DoNotCache \<Rightarrow> (entries s)(k := None))"
  by (cases p) (simp_all add: finish_def Let_def)

lemma finish_expires:
  assumes "a < length (heap s)"
  shows "e_expires (heap (finish k a v p e now s) ! a) =
    (case p of Cache \<Rightarrow> Some (now + window s) | DoNotCache \<Rightarrow> e_expires (heap s ! a))"
  using assms by (cases p) (simp_all add: finish_def Let_def)

lemma runs_ok_initial: "runs_ok (initial w t)"
  by (simp add: runs_ok_def initial_def wf_new_store) (simp add: new_store_def)

lemma runs_ok_enter_run:
  assumes ok: "runs_ok s" and idle: "threads s i = Idle"
    and e: "enter k (clock s) (store s) = (Run a, st)"
  shows "runs_ok (s\<lparr>store := st, threads := (threads s)(i := Running k a), log := x\<rparr>)"
proof -
  let ?h = "heap (store s)"
  have st: "st = (store s)\<lparr>heap := ?h @ [new_entry], entries := (entries (store s))(k \<mapsto> length ?h)\<rparr>"
    and a: "a = length ?h" and free: "\<not> blocks (slot_of (store s) k) (clock s)"
    using e by (simp_all add: enter_Run)
  have old: "b < length ?h" "l \<noteq> k" if "threads s j = Running l b" for j l b
    using running_entry [OF ok that] free by (auto simp: blocks_def)
  have wf: "wf_store st" using enter_wf [OF runs_ok_wf [OF ok] e] .
  have wfl: "b < length ?h" if "entries (store s) l = Some b" for l b
    using runs_ok_wf [OF ok] that by (rule wf_entry)
  show ?thesis
  proof (rule runs_okI, goal_cases)
    case 1
    show ?case using wf by simp
  next
    case (2 j l b)
    then show ?case using old [of j l b] running_entry [OF ok, of j l b] a
      by (auto simp: st nth_append new_entry_def split: if_splits)
  next
    case (3 j j' l l' b)
    then show ?case using running_unique [OF ok, of j l b j' l'] old [of j l b] old [of j' l' b] a
      by (auto split: if_splits)
  next
    case (4 l b)
    show ?case
    proof (cases "l = k")
      case False
      with 4 have b: "entries (store s) l = Some b" by (simp add: st)
      with 4 wfl [OF b] have "e_expires (?h ! b) = None" by (simp add: st nth_append)
      then obtain j where j: "threads s j = Running l b" using pending_running [OF ok b] by blast
      with idle have "j \<noteq> i" by auto
      with j show ?thesis by auto
    qed (use 4 a in \<open>auto simp: st\<close>)
  next
    case (5 j l b)
    then have w: "threads s j = Waiting l b" by (simp split: if_splits)
    have "j' \<noteq> i" if "threads s j' = Running l b" for j' using that idle by auto
    then have "e_done (?h ! b) \<or> (\<exists>j'. ((threads s)(i := Running k a)) j' = Running l b)"
      using waiting_ok [OF ok w] by (metis fun_upd_other)
    then show ?case using waiting_ok [OF ok w] by (simp add: st nth_append del: fun_upd_apply)
  qed
qed

lemma runs_ok_finish:
  assumes ok: "runs_ok s" and run: "threads s i = Running k a"
  shows "runs_ok (s\<lparr>store := finish k a v p e (clock s) (store s),
      threads := (threads s)(i := Returned k r), log := x\<rparr>)"
proof -
  note ra = running_entry [OF ok run]
  note h = finish_heap [OF ra(4)]
  have other: "b \<noteq> a \<and> l \<noteq> k" if t: "threads s j = Running l b" and j: "j \<noteq> i" for j l b
    using running_unique [OF ok run, of j l] running_key [OF ok run, of j b] t j by auto
  show ?thesis
  proof (rule runs_okI, goal_cases)
    case 1
    show ?case using finish_wf [OF runs_ok_wf [OF ok] ra(1)] by simp
  next
    case (2 j l b)
    then have j: "threads s j = Running l b" "j \<noteq> i" by (auto split: if_splits)
    then show ?case using other [OF j] running_entry [OF ok j(1)]
      by (auto simp: finish_entries h split: CachePolicy.splits)
  next
    case (3 j j' l l' b)
    then show ?case using running_unique [OF ok, of j l b j' l'] by (auto split: if_splits)
  next
    case (4 l b)
    have b: "entries (store s) l = Some b"
      using 4 by (auto simp: finish_entries split: CachePolicy.splits if_splits)
    have "b \<noteq> a"
    proof
      assume "b = a"
      with b have "l = k" using wf_inj [OF runs_ok_wf [OF ok] ra(1)] by simp
      with 4 \<open>b = a\<close> finish_expires [OF ra(4)] show False
        by (cases p) (simp_all add: finish_entries)
    qed
    with 4 have "e_expires (heap (store s) ! b) = None" by (simp add: h)
    then obtain j where j: "threads s j = Running l b" using pending_running [OF ok b] by blast
    then have "j \<noteq> i" using \<open>b \<noteq> a\<close> run by auto
    with j show ?case by auto
  next
    case (5 j l b)
    then have w: "threads s j = Waiting l b" by (simp split: if_splits)
    show ?case
    proof (cases "b = a")
      case False
      then have "j' \<noteq> i" if "threads s j' = Running l b" for j' using that run by auto
      then have "e_done (heap (store s) ! b) \<or>
          (\<exists>j'. ((threads s)(i := Returned k r)) j' = Running l b)"
        using waiting_ok [OF ok w] by (metis fun_upd_other)
      then show ?thesis using waiting_ok [OF ok w] False by (simp add: h del: fun_upd_apply)
    qed (use ra in \<open>simp add: h\<close>)
  qed
qed

lemma runs_ok_thread:
  assumes ok: "runs_ok s" and i: "\<And>k a. threads s i \<noteq> Running k a"
    and x: "\<And>k a. x \<noteq> Running k a"
    and w: "\<And>k a. x = Waiting k a \<Longrightarrow> a < length (heap (store s)) \<and>
       (e_done (heap (store s) ! a) \<or> (\<exists>j. threads s j = Running k a))"
  shows "runs_ok (s\<lparr>threads := (threads s)(i := x)\<rparr>)"
proof -
  have j: "((threads s)(i := x)) j = Running k a \<longleftrightarrow> threads s j = Running k a" for j k a
    using i x by auto
  show ?thesis
  proof (rule runs_okI, goal_cases)
    case (5 j l b)
    then show ?case using w [of l b] waiting_ok [OF ok, of j l b] 
      by (cases "j = i") (simp_all add: j del: fun_upd_apply, simp_all)
  qed (use runs_ok_wf [OF ok] running_entry [OF ok] running_unique [OF ok] pending_running [OF ok]
        in \<open>auto simp: j simp del: fun_upd_apply\<close>)
qed

lemma runs_ok_step: "step s s' \<Longrightarrow> runs_ok s \<Longrightarrow> runs_ok s'"
proof (induction rule: step.induct)
  case (tick s t)
  then show ?case by (simp add: runs_ok_def)
next
  case (enter_wait s i k a st)
  then have st: "st = store s" and a: "entries (store s) k = Some a" by (simp_all add: enter_Wait)
  have "e_done (heap (store s) ! a) \<or> (\<exists>j. threads s j = Running k a)" "a < length (heap (store s))"
    using pending_running [OF enter_wait.prems a] wf_expires [OF runs_ok_wf [OF enter_wait.prems] a]
      wf_entry [OF runs_ok_wf [OF enter_wait.prems] a] by auto
  then have "runs_ok (s\<lparr>threads := (threads s)(i := Waiting k a)\<rparr>)"
    using enter_wait by (intro runs_ok_thread) auto
  then show ?case by (simp add: st)
next
  case (enter_run s i k a st)
  then show ?case by (intro runs_ok_enter_run)
next
  case (finish s i k a v p e)
  then show ?case by (intro runs_ok_finish)
qed (auto intro!: runs_ok_thread)

lemma reachable_runs_ok: "reachable w s \<Longrightarrow> runs_ok s \<and> window (store s) = w"
proof (induction rule: reachable.induct)
  case (start t)
  show ?case using runs_ok_initial by (simp add: initial_def new_store_def)
next
  case (next_step s s')
  have "window (store s') = window (store s)"
    using next_step.hyps(2) by (cases rule: step.cases) (auto simp: enter_window)
  with next_step show ?case using runs_ok_step by blast
qed

lemma enter_run_heap:
  assumes "enter k now s = (Run a, s')"
  shows "heap s' = heap s @ [new_entry]" "a = length (heap s)"
  using assms by (simp_all add: enter_Run)

lemma results_okI:
  assumes "\<And>k a. entries (store s) k = Some a \<Longrightarrow> e_done (heap (store s) ! a) \<Longrightarrow>
       came_from s k a (e_value (heap (store s) ! a)) (e_err (heap (store s) ! a))"
    "\<And>i k a. threads s i = Waiting k a \<Longrightarrow> e_done (heap (store s) ! a) \<Longrightarrow>
       came_from s k a (e_value (heap (store s) ! a)) (e_err (heap (store s) ! a))"
    "\<And>i k r. threads s i = Returned k r \<Longrightarrow>
       (\<exists>a. came_from s k a (Value r) (Err r)) \<or> (\<exists>c. r = canceled c)"
  shows "results_ok s"
  unfolding results_ok_def using assms by blast

lemma results_okD:
  assumes "results_ok s"
  shows "entries (store s) k = Some a \<Longrightarrow> e_done (heap (store s) ! a) \<Longrightarrow>
       came_from s k a (e_value (heap (store s) ! a)) (e_err (heap (store s) ! a))"
    "threads s i = Waiting k a \<Longrightarrow> e_done (heap (store s) ! a) \<Longrightarrow>
       came_from s k a (e_value (heap (store s) ! a)) (e_err (heap (store s) ! a))"
    "threads s i = Returned k r \<Longrightarrow>
       (\<exists>a. came_from s k a (Value r) (Err r)) \<or> (\<exists>c. r = canceled c)"
  using assms unfolding results_ok_def by blast+

lemma came_from_mono:
  "came_from s k a v e \<Longrightarrow> set (log s) \<subseteq> set (log s') \<Longrightarrow> came_from s' k a v e"
  unfolding came_from_def by blast

lemma came_from_update [simp]:
  "came_from (s\<lparr>clock := t\<rparr>) = came_from s" "came_from (s\<lparr>threads := f\<rparr>) = came_from s"
  "came_from (s\<lparr>store := st\<rparr>) = came_from s"
  by (simp_all add: came_from_def fun_eq_iff)

lemma results_ok_enter_run:
  assumes "runs_ok s" "results_ok s"
    and enter_run: "s' = s\<lparr>store := st, threads := (threads s)(i := Running k a), log := Started k a (clock s) # log s\<rparr>"
      "threads s i = Idle" "enter k (clock s) (store s) = (Run a, st)"
  shows "results_ok s'"
proof -
  note h = enter_run_heap [OF enter_run(3)]
  have ent: "entries st = (entries (store s))(k \<mapsto> a)" using enter_run(3) by (simp add: enter_Run)
  have mono: "came_from s l b v e \<Longrightarrow> came_from s' l b v e" for l b v e
    by (rule came_from_mono) (auto simp: enter_run(1))
  have old: "b < length (heap (store s))" if "entries (store s) l = Some b" for l b
    using wf_entry [OF runs_ok_wf [OF assms(1)] that] .
  show ?thesis
  proof (rule results_okI, goal_cases)
    case (1 l b)
    then have b: "l \<noteq> k \<and> entries (store s) l = Some b"
      by (auto simp: enter_run(1) ent h new_entry_def split: if_splits)
    with 1 old [of l b] show ?case
      using mono results_okD(1) [OF assms(2), of l b] by (simp add: enter_run(1) h nth_append)
  next
    case (2 j l b)
    then have b: "threads s j = Waiting l b" by (simp add: enter_run(1) split: if_splits)
    with 2 waiting_ok [OF assms(1) b] show ?case
      using mono results_okD(2) [OF assms(2) b] by (simp add: enter_run(1) h nth_append)
  next
    case (3 j l r)
    then have "threads s j = Returned l r" by (simp add: enter_run(1) split: if_splits)
    then show ?case using mono results_okD(3) [OF assms(2)] by blast
  qed
qed

lemma results_ok_finish:
  assumes "runs_ok s" "results_ok s"
    and finish: "s' = s\<lparr>store := finish k a v p e (clock s) (store s), threads := (threads s)(i := Returned k (ran v e)),
        log := Finished k a v p e (clock s) # log s\<rparr>" "threads s i = Running k a"
  shows "results_ok s'"
proof -
  note ra = running_entry [OF assms(1) finish(2)]
  note h = finish_heap [OF ra(4)]
  have mono: "came_from s l b v e \<Longrightarrow> came_from s' l b v e" for l b v e
    by (rule came_from_mono) (auto simp: finish(1))
  have new: "came_from s' k a v e" by (auto simp: finish(1) came_from_def)
  show ?thesis
  proof (rule results_okI, goal_cases)
    case (1 l b)
    then have b: "entries (store s) l = Some b"
      by (cases p) (auto simp: finish(1) finish_entries split: if_splits)
    show ?case
    proof (cases "b = a")
      case True
      with b have "l = k" using wf_inj [OF runs_ok_wf [OF assms(1)] ra(1)] by simp
      with True new show ?thesis by (simp add: finish(1) h)
    next
      case False
      then show ?thesis using 1 mono results_okD(1) [OF assms(2) b] by (simp add: finish(1) h)
    qed
  next
    case (2 j l b)
    then have b: "threads s j = Waiting l b" by (simp add: finish(1) split: if_splits)
    show ?case
    proof (cases "b = a")
      case True
      then obtain j' where "threads s j' = Running l a" using waiting_ok [OF assms(1) b] ra(3) by auto
      then have "l = k" using running_unique [OF assms(1) finish(2)] finish(2) by fastforce
      with True new show ?thesis by (simp add: finish(1) h)
    next
      case False
      then show ?thesis using 2 mono results_okD(2) [OF assms(2) b] by (simp add: finish(1) h)
    qed
  next
    case (3 j l r)
    show ?case
    proof (cases "j = i")
      case True
      with 3 new show ?thesis by (auto simp: finish(1) ran_def)
    next
      case False
      with 3 have "threads s j = Returned l r" by (simp add: finish(1))
      then show ?thesis using mono results_okD(3) [OF assms(2)] by blast
    qed
  qed
qed

lemma results_ok_step:
  assumes "step s s'" "runs_ok s" "results_ok s"
  shows "results_ok s'"
  using assms(1)
proof (cases rule: step.cases)
  case (tick t)
  then show ?thesis using results_okD [OF assms(3)] by (intro results_okI) auto
next
  case (enter_wait i k a st)
  then have "st = store s" "entries (store s) k = Some a" by (simp_all add: enter_Wait)
  with enter_wait show ?thesis
    using results_okD [OF assms(3)] by (intro results_okI) (auto split: if_splits)
next
  case (enter_run i k a st)
  show ?thesis by (rule results_ok_enter_run [OF assms(2,3) enter_run])
next
  case (finish i k a v p e)
  show ?thesis by (rule results_ok_finish [OF assms(2,3) finish])
next
  case (wake i k a)
  then have w: "came_from s k a (Value (waited a (store s))) (Err (waited a (store s)))"
    using results_okD(2) [OF assms(3)] by (simp add: waited_def)
  show ?thesis
  proof (rule results_okI, goal_cases)
    case (3 j l r)
    then show ?case using w results_okD(3) [OF assms(3), of j l r]
      by (cases "j = i") (auto simp: wake(1))
  qed (use results_okD [OF assms(3)] in \<open>auto simp: wake(1) split: if_splits\<close>)
next
  case (cancel i k a c)
  then show ?thesis using results_okD [OF assms(3)] by (intro results_okI) (auto split: if_splits)
next
  case (again i k r)
  then show ?thesis using results_okD [OF assms(3)] by (intro results_okI) (auto split: if_splits)
qed

lemma keptI:
  assumes "\<And>k a v e t. Finished k a v Cache e t \<in> set (log s) \<Longrightarrow> t \<le> clock s \<and>
       (clock s < t + window (store s) \<longrightarrow>
          (\<exists>v e. slot_of (store s) k = Held v e (t + window (store s))))"
  shows "kept s"
  using assms unfolding kept_def by blast

lemma keptD:
  assumes "kept s" "Finished k a v Cache e t \<in> set (log s)"
  shows "t \<le> clock s"
    "clock s < t + window (store s) \<Longrightarrow>
       \<exists>v e. slot_of (store s) k = Held v e (t + window (store s))"
  using assms unfolding kept_def by blast+

lemma kept_blocks:
  assumes "kept s" "Finished k a v Cache e t \<in> set (log s)" "clock s < t + window (store s)"
  shows "blocks (slot_of (store s) k) (clock s)" "slot_of (store s) k \<noteq> Pending"
  using keptD [OF assms(1,2)] assms(3) by (auto simp: blocks_def)

lemma kept_step:
  assumes "step s s'" "runs_ok s" "kept s"
  shows "kept s'"
  using assms(1)
proof (cases rule: step.cases)
  case (tick t)
  show ?thesis
  proof (rule keptI, goal_cases)
    case (1 k a v e u)
    then have f: "Finished k a v Cache e u \<in> set (log s)" using tick by simp
    show ?case using keptD [OF assms(3) f] tick by auto
  qed
next
  case (enter_wait i k a st)
  then have "st = store s" by (simp add: enter_Wait)
  with enter_wait show ?thesis using assms(3) by (simp add: kept_def)
next
  case (enter_run i k a st)
  show ?thesis
  proof (rule keptI, goal_cases)
    case (1 l b v e u)
    then have f: "Finished l b v Cache e u \<in> set (log s)" using enter_run by simp
    have w: "window st = window (store s)" using enter_run by (auto intro: enter_window)
    have sl: "slot_of st = (slot_of (store s))(k := Pending)"
      using enter_slots [OF runs_ok_wf [OF assms(2)] enter_run(3)] by simp
    have free: "\<not> blocks (slot_of (store s) k) (clock s)" using enter_run(3) by (simp add: enter_Run)
    show ?case
      using keptD [OF assms(3) f] kept_blocks [OF assms(3) f] free
      by (auto simp: enter_run(1) w sl)
  qed
next
  case (finish i k a v p e)
  note ra = running_entry [OF assms(2) finish(2)]
  show ?thesis
  proof (rule keptI, goal_cases)
    case (1 l b v' e' u)
    note sl = finish_slots [OF runs_ok_wf [OF assms(2)] ra(1)]
    show ?case
    proof (cases "Finished l b v' Cache e' u \<in> set (log s)")
      case True
      then show ?thesis
        using keptD [OF assms(3) True] kept_blocks [OF assms(3) True] ra(5)
        by (auto simp: finish(1) sl)
    next
      case False
      with 1 have "l = k" "p = Cache" "u = clock s" by (auto simp: finish(1))
      then show ?thesis by (simp add: finish(1) sl)
    qed
  qed
qed (use assms(3) in \<open>simp_all add: kept_def\<close>)

lemma windows_ok_step:
  assumes "step s s'" "runs_ok s" "kept s" "windows_ok s"
  shows "windows_ok s'"
  using assms(1)
proof (cases rule: step.cases)
  case (enter_run i k a st)
  have w: "window st = window (store s)" using enter_run by (auto intro: enter_window)
  have free: "\<not> blocks (slot_of (store s) k) (clock s)" using enter_run(3) by (simp add: enter_Run)
  show ?thesis
    unfolding windows_ok_def
  proof (intro allI impI)
    fix newer older l b u a' v e t
    assume l: "log s' = newer @ Started l b u # older" and f: "Finished l a' v Cache e t \<in> set older"
    show "t + window (store s') \<le> u"
    proof (cases newer)
      case Nil
      then have "older = log s" "l = k" "u = clock s" using l by (simp_all add: enter_run(1))
      with f kept_blocks(1) [OF assms(3), of k a' v e t] free show ?thesis
        by (force simp: enter_run(1) w)
    next
      case (Cons x xs)
      then have "log s = xs @ Started l b u # older" using l by (simp add: enter_run(1))
      with f assms(4) show ?thesis unfolding windows_ok_def by (auto simp: enter_run(1) w)
    qed
  qed
next
  case (finish i k a v p e)
  show ?thesis
    unfolding windows_ok_def
  proof (intro allI impI)
    fix newer older l b u a' v' e' t
    assume l: "log s' = newer @ Started l b u # older" and f: "Finished l a' v' Cache e' t \<in> set older"
    then obtain x xs where "newer = x # xs" by (cases newer) (auto simp: finish(1))
    then have "log s = xs @ Started l b u # older" using l by (simp add: finish(1))
    with f assms(4) show "t + window (store s') \<le> u" unfolding windows_ok_def by (auto simp: finish(1))
  qed
qed (use assms(4) in \<open>auto simp: windows_ok_def enter_Wait\<close>)

lemma reachable_ok: "reachable w s \<Longrightarrow> results_ok s \<and> kept s \<and> windows_ok s"
proof (induction rule: reachable.induct)
  case (start t)
  show ?case by (simp add: initial_def results_ok_def kept_def windows_ok_def new_store_def)
next
  case (next_step s s')
  then show ?case
    using results_ok_step kept_step windows_ok_step reachable_runs_ok by blast
qed

section \<open>Running a schedule\<close>

text \<open>A schedule names the next step; a step that is not possible is \<open>None\<close>.\<close>

datatype ('v, 'e) move =
    Tick time
  | Enter nat string
  | Finish nat "'v option" CachePolicy "'e option"
  | Wake nat
  | Cancel nat 'e
  | Again nat

fun play :: "('v, 'e) move \<Rightarrow> ('v, 'e) system \<Rightarrow> ('v, 'e) system option" where
  "play (Tick t) s = (if clock s \<le> t then Some (s\<lparr>clock := t\<rparr>) else None)"
| "play (Enter i k) s =
    (case threads s i of
       Idle \<Rightarrow>
         (case enter k (clock s) (store s) of
            (Wait a, st) \<Rightarrow> Some (s\<lparr>store := st, threads := (threads s)(i := Waiting k a)\<rparr>)
          | (Run a, st) \<Rightarrow> Some (s\<lparr>store := st, threads := (threads s)(i := Running k a),
                                  log := Started k a (clock s) # log s\<rparr>))
     | _ \<Rightarrow> None)"
| "play (Finish i v p e) s =
    (case threads s i of
       Running k a \<Rightarrow> Some (s\<lparr>store := finish k a v p e (clock s) (store s),
              threads := (threads s)(i := Returned k (ran v e)),
              log := Finished k a v p e (clock s) # log s\<rparr>)
     | _ \<Rightarrow> None)"
| "play (Wake i) s =
    (case threads s i of
       Waiting k a \<Rightarrow>
         if e_done (heap (store s) ! a)
         then Some (s\<lparr>threads := (threads s)(i := Returned k (waited a (store s)))\<rparr>) else None
     | _ \<Rightarrow> None)"
| "play (Cancel i c) s =
    (case threads s i of
       Waiting k a \<Rightarrow> Some (s\<lparr>threads := (threads s)(i := Returned k (canceled c))\<rparr>)
     | _ \<Rightarrow> None)"
| "play (Again i) s =
    (case threads s i of
       Returned k r \<Rightarrow> Some (s\<lparr>threads := (threads s)(i := Idle)\<rparr>)
     | _ \<Rightarrow> None)"

lemma play_step: "play m s = Some s' \<Longrightarrow> step s s'"
  by (cases m)
    (auto split: if_splits thread.splits prod.splits entered.splits intro: step.intros)

lemma step_play: "step s s' \<Longrightarrow> \<exists>m. play m s = Some s'"
proof (induction rule: step.induct)
  case (tick s t)
  then show ?case by (intro exI [of _ "Tick t"]) simp
next
  case (enter_wait s i k a st)
  then show ?case by (intro exI [of _ "Enter i k"]) simp
next
  case (enter_run s i k a st)
  then show ?case by (intro exI [of _ "Enter i k"]) simp
next
  case (finish s i k a v p e)
  then show ?case by (intro exI [of _ "Finish i v p e"]) simp
next
  case (wake s i k a)
  then show ?case by (intro exI [of _ "Wake i"]) simp
next
  case (cancel s i k a c)
  then show ?case by (intro exI [of _ "Cancel i c"]) simp
next
  case (again s i k r)
  then show ?case by (intro exI [of _ "Again i"]) simp
qed

interpretation play: machine play "\<lambda>m. True" "reachable w" for w
  by unfold_locales (blast dest: play_step intro: reachable.next_step)

lemma play_reachable: "runs play ms s = Some s' \<Longrightarrow> reachable w s \<Longrightarrow> reachable w s'"
  by (erule play.state_runs) (simp_all add: list_all_iff)

section \<open>What the callers can rely on\<close>

text \<open>
  C12. Whatever the interleaving, no two goroutines ever run their functions for the same key
  at the same time.
\<close>

theorem one_run_per_key:
  assumes "reachable w s" "threads s i = Running k a" "threads s j = Running k b"
  shows "i = j"
  using reachable_runs_ok [OF assms(1)] running_key assms(2,3) by blast

text \<open>
  C13. After a run that asked for its result to be kept has finished, the next run for the same
  key starts no earlier than the window later, whatever happens in between.
\<close>

theorem kept_for_the_window:
  assumes "reachable w s" "log s = newer @ Started k b u # older"
    "Finished k a v Cache e t \<in> set older"
  shows "t + w \<le> u"
  using reachable_ok [OF assms(1)] reachable_runs_ok [OF assms(1)] assms(2,3)
  unfolding windows_ok_def by blast

text \<open>
  C15. A call returns the value and the error of one finished run for its own key, or the end of
  its own context.
\<close>

theorem result_of_a_run:
  assumes "reachable w s" "threads s i = Returned k r"
  shows "(\<exists>a p t. Finished k a (Value r) p (Err r) t \<in> set (log s)) \<or> (\<exists>c. r = canceled c)"
  using reachable_ok [OF assms(1)] results_okD(3) assms(2) unfolding came_from_def by blast

text \<open>
  C14. A waiting call is never orphaned: its entry is done, or some goroutine runs for it, and
  when that one finishes the waiting call can return the very result, marked as deduplicated.
\<close>

theorem waiting_returns:
  assumes "reachable w s" "threads s i = Waiting k a"
  shows "e_done (heap (store s) ! a) \<and> step s (s\<lparr>threads := (threads s)(i := Returned k (waited a (store s)))\<rparr>)
    \<or> (\<exists>j. threads s j = Running k a \<and>
        (\<forall>v p e. \<exists>s' s''. step s s' \<and> log s' = Finished k a v p e (clock s) # log s \<and>
           threads s' j = Returned k (ran v e) \<and> step s' s'' \<and>
           threads s'' i = Returned k \<lparr>Value = v, Err = e, Deduplicated = True\<rparr>))"
proof (cases "e_done (heap (store s) ! a)")
  case True
  then show ?thesis using assms(2) by (auto intro: step.wake)
next
  case False
  have ok: "runs_ok s" using reachable_runs_ok [OF assms(1)] by simp
  then obtain j where j: "threads s j = Running k a" using waiting_ok [OF ok assms(2)] False by blast
  note h = finish_heap [OF running_entry(4) [OF ok j]]
  have "\<exists>s' s''. step s s' \<and> log s' = Finished k a v p e (clock s) # log s \<and> threads s' j = Returned k (ran v e) \<and> step s' s'' \<and>
      threads s'' i = Returned k \<lparr>Value = v, Err = e, Deduplicated = True\<rparr>"
    for v p e
  proof -
    let ?s' = "s\<lparr>store := finish k a v p e (clock s) (store s),
              threads := (threads s)(j := Returned k (ran v e)),
              log := Finished k a v p e (clock s) # log s\<rparr>"
    have ij: "i \<noteq> j" using assms(2) j by auto
    have "step s ?s'" using j by (rule step.finish)
    moreover have "step ?s' (?s'\<lparr>threads := (threads ?s')(i := Returned k (waited a (store ?s')))\<rparr>)"
      using assms(2) ij by (intro step.wake) (simp_all add: h)
    ultimately show ?thesis by (intro exI conjI) (assumption | simp add: waited_def h)+
  qed
  with j show ?thesis by blast
qed

text \<open>
  Two schedules on concrete calls: in the first, one call runs for the key \<open>k\<close> while a second
  waits; in the second, a run is kept and the key is run again after the window of 30.
\<close>

definition sharing :: "(int, int) system" where
  "sharing = the (runs play [Enter 0 ''k'', Tick 5, Enter 1 ''k''] (initial 30 0))"

definition rerun :: "(int, int) system" where
  "rerun = the (runs play [Enter 0 ''k'', Tick 2, Finish 0 (Some 7) Cache None, Tick 8, Enter 1 ''k'',
      Wake 1, Tick 40, Enter 2 ''k''] (initial 30 0))"

lemma sharing_reachable: "reachable 30 sharing"
proof -
  have "runs play [Enter 0 ''k'', Tick 5, Enter 1 ''k''] (initial 30 0 :: (int, int) system) \<noteq> None"
    by (simp add: initial_def new_store_def enter_def new_entry_def)
  then show ?thesis unfolding sharing_def
    by (metis option.collapse play_reachable reachable.start)
qed

lemma rerun_reachable: "reachable 30 rerun"
proof -
  have "runs play [Enter 0 ''k'', Tick 2, Finish 0 (Some 7) Cache None, Tick 8, Enter 1 ''k'',
      Wake 1, Tick 40, Enter 2 ''k''] (initial 30 0 :: (int, int) system) \<noteq> None"
    by (simp add: initial_def new_store_def enter_def new_entry_def finish_def)
  then show ?thesis unfolding rerun_def
    by (metis option.collapse play_reachable reachable.start)
qed

lemma sharing_threads: "threads sharing 0 = Running ''k'' 0" "threads sharing 1 = Waiting ''k'' 0"
  by (simp_all add: sharing_def initial_def new_store_def enter_def new_entry_def)

lemma rerun_log:
  "log rerun = [] @ Started ''k'' 1 40 # [Finished ''k'' 0 (Some 7) Cache None 2, Started ''k'' 0 0]"
  "threads rerun 1 = Returned ''k'' \<lparr>Value = Some 7, Err = None, Deduplicated = True\<rparr>"
  by (simp_all add: rerun_def initial_def new_store_def enter_def new_entry_def finish_def waited_def)

theorem one_run_per_key_witness:
  "threads sharing 0 = Running ''k'' 0 \<and> (\<exists>i. threads sharing i = Running ''k'' 0 \<and> i = 0)"
  using one_run_per_key [OF sharing_reachable sharing_threads(1) sharing_threads(1)] sharing_threads(1)
  by blast

theorem kept_for_the_window_witness: "reachable 30 rerun \<and> (2::int) + 30 \<le> 40"
  using kept_for_the_window [OF rerun_reachable rerun_log(1)] rerun_reachable by simp

theorem result_of_a_run_witness:
  "\<exists>r. threads rerun 1 = Returned ''k'' r \<and>
    ((\<exists>a p t. Finished ''k'' a (Value r) p (Err r) t \<in> set (log rerun)) \<or> (\<exists>c. r = canceled c))"
  using result_of_a_run [OF rerun_reachable rerun_log(2)] rerun_log(2) by blast

theorem waiting_returns_witness:
  "threads sharing 1 = Waiting ''k'' 0 \<and> (\<exists>j. threads sharing j = Running ''k'' 0)"
proof -
  have "\<not> e_done (heap (store sharing) ! 0)"
    by (simp add: sharing_def initial_def new_store_def enter_def new_entry_def)
  then show ?thesis
    using waiting_returns [OF sharing_reachable sharing_threads(2)] sharing_threads(2) by (elim disjE) auto
qed

section \<open>One goroutine at a time\<close>

text \<open>
  What a caller of \<open>Do\<close> relies on: a busy key gives a deduplicated result and runs nothing;
  a free one runs the function, hands out what it returned, and is busy for the window if the
  function asked for that; the other keys are not touched.
\<close>

locale run_once =
  fixes call :: "string \<Rightarrow> time \<Rightarrow> time \<Rightarrow> bool \<times> 'e \<Rightarrow> ('w \<Rightarrow> ('v option \<times> CachePolicy \<times> 'e option) \<times> 'w)
      \<Rightarrow> 's \<Rightarrow> 'w \<Rightarrow> ('v, 'e) DoResult \<times> 's \<times> 'w"
    and busy :: "'s \<Rightarrow> string \<Rightarrow> time \<Rightarrow> bool"
    and good :: "'s \<Rightarrow> bool"
    and keep :: "'s \<Rightarrow> int"
  assumes busy_call: "good s \<Longrightarrow> busy s k now \<Longrightarrow> call k now later c fn s w = (r, s', w') \<Longrightarrow>
      Deduplicated r \<and> s' = s \<and> w' = w"
    and free_call: "good s \<Longrightarrow> \<not> busy s k now \<Longrightarrow> call k now later c fn s w = (r, s', w') \<Longrightarrow>
      \<not> Deduplicated r \<and> good s' \<and> keep s' = keep s \<and>
      (\<exists>p. fn w = ((Value r, p, Err r), w') \<and> (\<forall>t. busy s' k t \<longleftrightarrow> p = Cache \<and> t < later + keep s)) \<and>
      (\<forall>l t. l \<noteq> k \<longrightarrow> busy s' l t = busy s l t)"
begin

lemma call_good: "good s \<Longrightarrow> call k now later c fn s w = (r, s', w') \<Longrightarrow> good s' \<and> keep s' = keep s"
  using busy_call free_call by metis

lemma call_other:
  "good s \<Longrightarrow> call k now later c fn s w = (r, s', w') \<Longrightarrow> l \<noteq> k \<Longrightarrow> busy s' l t = busy s l t"
  using busy_call free_call by metis

text \<open>The function runs at most once, and not at all exactly when the result says so.\<close>

lemma call_runs:
  "good s \<Longrightarrow> call k now later c fn s w = (r, s', w') \<Longrightarrow>
    Deduplicated r \<and> w' = w \<or> \<not> Deduplicated r \<and> (\<exists>p. fn w = ((Value r, p, Err r), w'))"
  using busy_call [of s k now later c fn w r s' w'] free_call [of s k now later c fn w r s' w']
  by blast

text \<open>Within the window after a call that was to be kept, another call for the key runs nothing.\<close>

lemma second_call:
  assumes "good s" "call k now later c fn s w = (r, s', w')" "\<not> Deduplicated r"
    "fn w = ((v, Cache, e), w1)" "now2 < later + keep s"
    "call k now2 later2 c2 fn2 s' w2 = (r2, s'', w3)"
  shows "Deduplicated r2 \<and> s'' = s' \<and> w3 = w2"
proof -
  have "\<not> busy s k now" using busy_call assms(1-3) by blast
  from free_call [OF assms(1) this assms(2)] assms(4,5)
  have "busy s' k now2" "good s'" by auto
  then show ?thesis using busy_call assms(6) by blast
qed

end

lemma Do_busy:
  assumes "blocks (slot_of s k) now" "Do k now later c fn s w = (r, s', w')"
  shows "Deduplicated r \<and> s' = s \<and> w' = w"
proof -
  obtain a where "enter k now s = (Wait a, s)"
    using assms(1) by (auto simp: enter_Wait slot_of_def blocks_def split: option.splits)
  then show ?thesis using assms(2) by (auto simp: Do_def waited_def canceled_def split: if_splits)
qed

lemma Do_free:
  assumes "wf_store s" "\<not> blocks (slot_of s k) now" "Do k now later c fn s w = (r, s', w')"
  shows "\<not> Deduplicated r \<and> wf_store s' \<and> window s' = window s \<and>
    (\<exists>p. fn w = ((Value r, p, Err r), w') \<and>
      (\<forall>t. blocks (slot_of s' k) t \<longleftrightarrow> p = Cache \<and> t < later + window s)) \<and>
    (\<forall>l t. l \<noteq> k \<longrightarrow> blocks (slot_of s' l) t = blocks (slot_of s l) t)"
proof -
  obtain a s1 where e: "enter k now s = (Run a, s1)" using assms(2) by (simp add: enter_Run)
  obtain v p err where f: "fn w = ((v, p, err), w')" and r: "r = ran v err"
    and s': "s' = finish k a v p err later s1"
    using assms(3) e by (auto simp: Do_def split: prod.splits)
  have wf: "wf_store s1" using enter_wf [OF assms(1) e] .
  have en: "entries s1 k = Some a" using e by (auto simp: enter_Run)
  have sl: "slot_of s1 = (slot_of s)(k := Pending)" using enter_slots [OF assms(1) e] by simp
  show ?thesis
    using finish_wf [OF wf en] finish_slots [OF wf en] enter_window [OF e] f r s'
    by (cases p) (auto simp: ran_def sl blocks_def)
qed

interpretation once: run_once Do "\<lambda>s k. blocks (slot_of s k)" wf_store window
  by unfold_locales (rule Do_busy Do_free, assumption+)+

end
