(* ===== verification/Validate.thy ===== *)
theory Validate
  imports Safety Tools GraniteClient
begin

text \<open>
  \<open>internal/managed/validate_granite.go\<close>: the check of the tool call that the model has
  chosen against the text of the user. Go ranges over the map of actions twice, each time in
  an order of its own; the two orders are arguments.
\<close>

record ActionCall =
  ac_Action :: Action
  ac_VMID :: int64

definition invalidCall :: apierror where
  "invalidCall = OpenAI ''invalid_tool_call'' (utf8 [0x6A21, 0x578B, 0x8FD4, 0x56DE, 0x4E86,
      0x65E0, 0x6548, 0x7684, 0x5DE5, 0x5177, 0x8C03, 0x7528, 0x3002]) ''messages'' 422 None"

type_synonym action_order = "(Action \<times> ActionMetadata) list"

text \<open>The first range: the action of the tool, or no action.\<close>

definition action_of_tool :: "action_order \<Rightarrow> string \<Rightarrow> Action" where
  "action_of_tool order name =
    (case find (\<lambda>(candidate, meta). ToolName meta = name) order of
       Some (candidate, meta) \<Rightarrow> candidate
     | None \<Rightarrow> '''')"

record call_args =
  arg_VMID :: int64

definition dec_args :: "call_args decoder" where
  "dec_args = dec_struct True [fld ''vmid'' dec_int64 arg_VMID arg_VMID_update]"

text \<open>One object with no unknown key and a positive number, and nothing after it.\<close>

definition decode_args :: "string \<Rightarrow> int64 option" where
  "decode_args arguments =
    (case decode_next dec_args \<lparr>arg_VMID = 0\<rparr> arguments of
       Decoded args rest \<Rightarrow>
         if arg_VMID args \<le> 0 then None
         else (case next_json rest of EndOfStream \<Rightarrow> Some (arg_VMID args) | _ \<Rightarrow> None)
     | _ \<Rightarrow> None)"

text \<open>The longest marker of the selected action that is in the text, the first of its length.\<close>

fun matched :: "string \<Rightarrow> string list \<Rightarrow> string \<Rightarrow> string" where
  "matched original [] best = best"
| "matched original (marker # markers) best =
    matched original markers
      (if Contains original marker \<and> RuneCountInString marker > RuneCountInString best
       then marker else best)"

text \<open>The second range: a marker of another action that is not part of the matched one.\<close>

definition foreign_marker :: "action_order \<Rightarrow> Action \<Rightarrow> string \<Rightarrow> string \<Rightarrow> bool" where
  "foreign_marker order action original best =
    list_ex (\<lambda>(other, meta). other \<noteq> action \<and>
      list_ex (\<lambda>marker. Contains original marker \<and> \<not> Contains best marker) (Evidence meta)) order"

definition ValidateToolCall ::
  "action_order \<Rightarrow> action_order \<Rightarrow> Input \<Rightarrow> ToolCall \<Rightarrow> bool \<Rightarrow> apierror + ActionCall"
where
  "ValidateToolCall order1 order2 input call allowForceStop =
    (let action = action_of_tool order1 (tc_Name call) in
     if tc_Type call \<noteq> ''function'' \<or> action = '''' then Inl invalidCall
     else case decode_args (tc_Arguments call) of
       None \<Rightarrow> Inl invalidCall
     | Some vmid \<Rightarrow>
         if vmid \<noteq> in_VMID input
         then Inl (OpenAI ''vmid_mismatch''
           (utf8 [0x6A21, 0x578B, 0x8FD4, 0x56DE, 0x7684, 0x865A, 0x62DF, 0x673A] @ '' ID '' @
               utf8 [0x4E0E, 0x8BF7, 0x6C42, 0x4E0D, 0x4E00, 0x81F4, 0x3002]) ''messages'' 422 None)
         else
           let meta = fst (Metadata action);
               matchedSelected = matched (in_Original input) (Evidence meta) ''''
           in if foreign_marker order2 action (in_Original input) matchedSelected
           then Inl (OpenAI ''ambiguous_managed_command''
             (utf8 [0x6A21, 0x578B, 0x9009, 0x62E9, 0x7684, 0x64CD, 0x4F5C, 0x4E0E, 0x8BF7,
                 0x6C42, 0x4E2D, 0x7684, 0x52A8, 0x4F5C, 0x4E0D, 0x4E00, 0x81F4,
                 0x3002]) ''messages'' 422 None)
           else if in_HasNegation input \<and> Mutation meta
           then Inl (OpenAI ''negated_mutation''
             (utf8 [0x5426, 0x5B9A, 0x6307, 0x4EE4, 0x4E0D, 0x4F1A, 0x6267, 0x884C, 0x865A,
                 0x62DF, 0x673A, 0x53D8, 0x66F4, 0x3002]) ''messages'' 422 None)
           else if \<not> containsAny (in_Original input) (Evidence meta)
           then Inl (OpenAI ''ambiguous_managed_command''
             (utf8 [0x8BF7, 0x660E, 0x786E, 0x8BF4, 0x660E, 0x8981, 0x6267, 0x884C, 0x7684,
                 0x865A, 0x62DF, 0x673A, 0x64CD, 0x4F5C, 0x3002]) ''messages'' 422 None)
           else if action = ActionStop \<and> \<not> allowForceStop
           then Inl (OpenAI ''force_stop_disabled''
             (utf8 [0x5F3A, 0x5236, 0x505C, 0x6B62, 0x529F, 0x80FD, 0x5F53, 0x524D, 0x672A,
                 0x542F, 0x7528, 0x3002]) ''messages'' 403 None)
           else Inr \<lparr>ac_Action = action, ac_VMID = vmid\<rparr>)"

section \<open>The matched marker\<close>

lemma RuneCount_empty [simp]: "RuneCountInString '''' = 0"
  by (simp add: RuneCountInString_def)

lemma RuneCount_pos: "s \<noteq> '''' \<Longrightarrow> 0 < RuneCountInString s"
  by (simp add: RuneCountInString_def runes_step)

lemma matched_cases:
  "matched original ms best = best \<or>
    matched original ms best \<in> set ms \<and> sublist (matched original ms best) original"
  by (induction original ms best rule: matched.induct) (auto simp: Contains_iff split: if_splits)

lemma matched_longer: "RuneCountInString best \<le> RuneCountInString (matched original ms best)"
proof (induction original ms best rule: matched.induct)
  case (2 original m ms best)
  then show ?case by (auto split: if_splits)
qed simp

lemma matched_longest:
  "m \<in> set ms \<Longrightarrow> sublist m original \<Longrightarrow> RuneCountInString m \<le> RuneCountInString (matched original ms best)"
proof (induction original ms best rule: matched.induct)
  case (2 original x ms best)
  show ?case
  proof (cases "m = x")
    case True
    with 2 matched_longer [of x original ms] matched_longer [of best original ms] show ?thesis
      by (auto simp: Contains_iff)
  next
    case False
    with 2 show ?thesis by simp
  qed
qed simp

lemma matched_found:
  assumes "m \<in> set ms" "sublist m original" "m \<noteq> ''''"
  shows "matched original ms '''' \<in> set ms" "sublist (matched original ms '''') original"
    "matched original ms '''' \<noteq> ''''"
proof -
  have "0 < RuneCountInString (matched original ms '''')"
    using matched_longest [OF assms(1,2), of "''''"] RuneCount_pos [OF assms(3)] by simp
  then show n: "matched original ms '''' \<noteq> ''''" by auto
  then show "matched original ms '''' \<in> set ms" "sublist (matched original ms '''') original"
    using matched_cases [of original ms "''''"] by auto
qed

section \<open>Tables of markers\<close>

text \<open>
  What the check needs of the table of actions: one tool for each action, and no marker that is
  empty or belongs to two actions. Then the action that a text can be taken for is unique.
\<close>

locale marker_table =
  fixes table :: action_order
  assumes keys_distinct: "distinct (map fst table)"
    and tools_distinct: "distinct (map (ToolName \<circ> snd) table)"
    and marker_nonempty: "(a, m) \<in> set table \<Longrightarrow> '''' \<notin> set (Evidence m)"
    and markers_disjoint: "(a, m) \<in> set table \<Longrightarrow> (b, n) \<in> set table \<Longrightarrow> a \<noteq> b \<Longrightarrow>
      set (Evidence m) \<inter> set (Evidence n) = {}"
begin

lemma tool_unique:
  "(a, m) \<in> set table \<Longrightarrow> (b, n) \<in> set table \<Longrightarrow> ToolName m = ToolName n \<Longrightarrow> a = b \<and> m = n"
  using tools_distinct by (fastforce simp: distinct_map inj_on_def)

lemma find_tool:
  assumes "set order = set table"
  shows "find (\<lambda>(c, m). ToolName m = name) order = Some (a, m) \<longleftrightarrow>
    (a, m) \<in> set table \<and> ToolName m = name"
proof
  assume "find (\<lambda>(c, m). ToolName m = name) order = Some (a, m)"
  then show "(a, m) \<in> set table \<and> ToolName m = name"
    using assms by (auto simp: find_Some_iff) (metis nth_mem)
next
  assume r: "(a, m) \<in> set table \<and> ToolName m = name"
  then have "find (\<lambda>(c, m). ToolName m = name) order \<noteq> None"
    using assms by (auto simp: find_None_iff)
  then obtain b n where f: "find (\<lambda>(c, m). ToolName m = name) order = Some (b, n)" by auto
  then have "(b, n) \<in> set table" "ToolName n = name"
    using assms by (auto simp: find_Some_iff) (metis nth_mem)
  with r tool_unique f show "find (\<lambda>(c, m). ToolName m = name) order = Some (a, m)" by blast
qed

lemma find_order:
  assumes "set order = set table"
  shows "find (\<lambda>(c, m). ToolName m = name) order = find (\<lambda>(c, m). ToolName m = name) table"
proof (cases "find (\<lambda>(c, m). ToolName m = name) table")
  case None
  moreover from None have "find (\<lambda>(c, m). ToolName m = name) order = None"
    using assms by (auto simp: find_None_iff)
  ultimately show ?thesis by simp
next
  case (Some x)
  obtain a m where x: "x = (a, m)" by (cases x)
  from Some have "(a, m) \<in> set table \<and> ToolName m = name" unfolding x using find_tool [OF refl] by blast
  then show ?thesis unfolding Some x using find_tool [OF assms] by blast
qed

text \<open>Of two actions that a text names, one has a marker that the other's match does not cover.\<close>

lemma one_action:
  assumes "(a, m) \<in> set table" "(b, n) \<in> set table"
    and "\<exists>x \<in> set (Evidence m). sublist x original" "\<exists>x \<in> set (Evidence n). sublist x original"
    and "\<not> foreign_marker order a original (matched original (Evidence m) '''')"
    and "\<not> foreign_marker order b original (matched original (Evidence n) '''')"
    and "set order = set table"
  shows "a = b"
proof (rule ccontr)
  assume "a \<noteq> b"
  let ?x = "matched original (Evidence m) ''''" and ?y = "matched original (Evidence n) ''''"
  have x: "?x \<in> set (Evidence m)" "sublist ?x original"
    using matched_found assms(3) marker_nonempty [OF assms(1)] by metis+
  have y: "?y \<in> set (Evidence n)" "sublist ?y original"
    using matched_found assms(4) marker_nonempty [OF assms(2)] by metis+
  have "sublist ?y ?x"
    using assms(2,5,7) y \<open>a \<noteq> b\<close> by (auto simp: foreign_marker_def list_ex_iff Contains_iff)
  moreover have "sublist ?x ?y"
    using assms(1,6,7) x \<open>a \<noteq> b\<close> by (auto simp: foreign_marker_def list_ex_iff Contains_iff)
  ultimately have "?x = ?y" by (rule sublist_length_eq [rotated])
  then show False using x y markers_disjoint [OF assms(1,2) \<open>a \<noteq> b\<close>] by auto
qed

end

interpretation acts: marker_table actions
proof
  fix a b and m n :: ActionMetadata
  assume "(a, m) \<in> set actions"
  then show "'''' \<notin> set (Evidence m)" using evidence_nonempty by (auto simp: list_all_iff)
  assume "(b, n) \<in> set actions" "a \<noteq> b"
  with \<open>(a, m) \<in> set actions\<close> show "set (Evidence m) \<inter> set (Evidence n) = {}"
    using evidence_disjoint by (fastforce simp: list_all_iff)
qed (fact actions_distinct tool_names_distinct)+

section \<open>What the check accepts\<close>

lemma no_empty_action: "('''', m) \<notin> set actions"
proof
  assume "('''', m) \<in> set actions"
  then have "'''' \<in> fst ` set actions" by force
  then show False by (simp add: action_keys Action_defs)
qed

lemma action_of_tool_iff:
  assumes "set order = set actions"
  shows "action_of_tool order name = a \<and> a \<noteq> '''' \<longleftrightarrow>
    (\<exists>m. (a, m) \<in> set actions \<and> ToolName m = name)"
proof (cases "find (\<lambda>(c, m). ToolName m = name) order")
  case None
  then have "\<not> (\<exists>m. (a, m) \<in> set actions \<and> ToolName m = name)"
    using acts.find_tool [OF assms] by (metis option.distinct(1))
  with None show ?thesis by (auto simp: action_of_tool_def)
next
  case (Some x)
  obtain b n where x: "x = (b, n)" by (cases x)
  have b: "(b, n) \<in> set actions" "ToolName n = name"
    using acts.find_tool [OF assms] Some unfolding x by blast+
  then have "b \<noteq> ''''" using no_empty_action by blast
  moreover have "action_of_tool order name = b" by (simp add: action_of_tool_def Some x)
  ultimately show ?thesis using b acts.tool_unique by metis
qed

lemma foreign_marker_iff:
  assumes "set order = set actions"
  shows "foreign_marker order a original best \<longleftrightarrow>
    (\<exists>b n x. (b, n) \<in> set actions \<and> b \<noteq> a \<and> x \<in> set (Evidence n) \<and> sublist x original \<and> \<not> sublist x best)"
  unfolding foreign_marker_def list_ex_iff Contains_iff assms by blast

lemma ValidateToolCall_iff:
  assumes "set order1 = set actions" "set order2 = set actions"
  shows "ValidateToolCall order1 order2 input call allow = Inr ac \<longleftrightarrow>
    tc_Type call = ''function'' \<and>
    (\<exists>m. (ac_Action ac, m) \<in> set actions \<and> ToolName m = tc_Name call \<and>
       decode_args (tc_Arguments call) = Some (ac_VMID ac) \<and> ac_VMID ac = in_VMID input \<and>
       \<not> foreign_marker actions (ac_Action ac) (in_Original input)
          (matched (in_Original input) (Evidence m) '''') \<and>
       \<not> (in_HasNegation input \<and> Mutation m) \<and>
       (\<exists>x \<in> set (Evidence m). sublist x (in_Original input)) \<and>
       (ac_Action ac = ActionStop \<longrightarrow> allow))"
proof -
  have f: "foreign_marker order2 a o1 b = foreign_marker actions a o1 b" for a o1 b
    using assms(2) by (simp add: foreign_marker_iff)
  define a where "a = action_of_tool order1 (tc_Name call)"
  have a: "a \<noteq> '''' \<Longrightarrow> \<exists>m. (a, m) \<in> set actions \<and> ToolName m = tc_Name call \<and> Metadata a = (m, True)"
    using action_of_tool_iff [OF assms(1)] a_def Metadata_member by metis
  have b: "a = b" if "(b, m) \<in> set actions" "ToolName m = tc_Name call" for b m
    using action_of_tool_iff [OF assms(1)] a_def that by metis
  have ac: "Inr \<lparr>ac_Action = a, ac_VMID = v\<rparr> = Inr ac \<longleftrightarrow> ac_Action ac = a \<and> ac_VMID ac = v" for v
    by (cases ac) auto
  show ?thesis
  proof (cases "a = ''''")
    case True
    then have "\<not> (\<exists>m. (ac_Action ac, m) \<in> set actions \<and> ToolName m = tc_Name call)"
      using b no_empty_action by metis
    with True show ?thesis by (auto simp: ValidateToolCall_def a_def [symmetric])
  next
    case False
    from a [OF this] obtain m where m: "(a, m) \<in> set actions" "ToolName m = tc_Name call"
      "Metadata a = (m, True)" by blast
    have u: "(\<exists>m'. (ac_Action ac, m') \<in> set actions \<and> ToolName m' = tc_Name call \<and> P m') \<longleftrightarrow>
        ac_Action ac = a \<and> P m" for P
      using m acts.tool_unique by metis
    show ?thesis
      unfolding u using False
      by (auto simp: ValidateToolCall_def a_def [symmetric] Let_def m(3) f containsAny_iff ac
          split: option.splits)
  qed
qed

lemma action_of_tool_order:
  assumes "set order = set actions"
  shows "action_of_tool order name = action_of_tool actions name"
  using acts.find_order [OF assms] by (simp only: action_of_tool_def)

text \<open>
  C17. The result of the check, an error included, does not depend on the orders in which Go
  ranges over the map of actions.
\<close>

theorem ValidateToolCall_any_order:
  assumes "set order1 = set actions" "set order2 = set actions"
  shows "ValidateToolCall order1 order2 input call allow = ValidateToolCall actions actions input call allow"
proof -
  have f: "foreign_marker order2 a original best = foreign_marker actions a original best" for a original best
    using assms(2) by (simp add: foreign_marker_iff)
  show ?thesis
    by (simp only: ValidateToolCall_def f action_of_tool_order [OF assms(1)])
qed

text \<open>
  C16. A tool call passes exactly when it is a function call of the tool of an action of the
  table, its arguments name the VM of the text, the text has a marker of that action, every
  marker of another action in the text is part of the longest such marker, a change is not
  negated, and a forced stop is allowed by the configuration.
\<close>

theorem ValidateToolCall_accepts:
  assumes "set order1 = set actions" "set order2 = set actions"
  shows "ValidateToolCall order1 order2 input call allow = Inr ac \<longleftrightarrow>
    tc_Type call = ''function'' \<and>
    (\<exists>m. (ac_Action ac, m) \<in> set actions \<and> ToolName m = tc_Name call \<and>
       decode_args (tc_Arguments call) = Some (ac_VMID ac) \<and> ac_VMID ac = in_VMID input \<and>
       \<not> (\<exists>b n x. (b, n) \<in> set actions \<and> b \<noteq> ac_Action ac \<and> x \<in> set (Evidence n) \<and>
            sublist x (in_Original input) \<and>
            \<not> sublist x (matched (in_Original input) (Evidence m) '''')) \<and>
       \<not> (in_HasNegation input \<and> Mutation m) \<and>
       (\<exists>x \<in> set (Evidence m). sublist x (in_Original input)) \<and>
       (ac_Action ac = ActionStop \<longrightarrow> allow))"
  by (rule ValidateToolCall_iff [OF assms, unfolded foreign_marker_iff [OF refl]])

lemma ValidateToolCall_one_action:
  assumes "set order1 = set actions" "set order2 = set actions"
    and "set order3 = set actions" "set order4 = set actions"
    and "in_Original input1 = in_Original input2"
    and "ValidateToolCall order1 order2 input1 call1 allow1 = Inr ac1"
    and "ValidateToolCall order3 order4 input2 call2 allow2 = Inr ac2"
  shows "ac_Action ac1 = ac_Action ac2"
proof -
  from assms(6) obtain m where m: "(ac_Action ac1, m) \<in> set actions"
    "\<not> foreign_marker actions (ac_Action ac1) (in_Original input1) (matched (in_Original input1) (Evidence m) '''')"
    "\<exists>x \<in> set (Evidence m). sublist x (in_Original input1)"
    unfolding ValidateToolCall_iff [OF assms(1,2)] by blast
  from assms(7) obtain n where n: "(ac_Action ac2, n) \<in> set actions"
    "\<not> foreign_marker actions (ac_Action ac2) (in_Original input1) (matched (in_Original input1) (Evidence n) '''')"
    "\<exists>x \<in> set (Evidence n). sublist x (in_Original input1)"
    unfolding ValidateToolCall_iff [OF assms(3,4)] assms(5) by blast
  show ?thesis using acts.one_action [OF m(1) n(1) m(3) n(3) m(2) n(2) refl] .
qed

text \<open>
  C18. The model cannot choose between two actions for one text: of all the tool calls that
  pass for a text, whatever the settings, all have the same action.
\<close>

theorem validated_action_unique:
  assumes "set order1 = set actions" "set order2 = set actions"
    and "set order3 = set actions" "set order4 = set actions"
    and "in_Original input1 = in_Original input2"
    and "ValidateToolCall order1 order2 input1 call1 allow1 = Inr ac1"
    and "ValidateToolCall order3 order4 input2 call2 allow2 = Inr ac2"
  shows "ac_Action ac1 = ac_Action ac2"
  by (rule ValidateToolCall_one_action [OF assms])

lemma ValidateToolCall_fields:
  assumes "set order1 = set actions" "set order2 = set actions"
    and "ValidateToolCall order1 order2 input call allow = Inr ac"
  shows "snd (Metadata (ac_Action ac))" "ac_VMID ac = in_VMID input"
    "\<exists>x \<in> set (Evidence (fst (Metadata (ac_Action ac)))). sublist x (in_Original input)"
    "Mutation (fst (Metadata (ac_Action ac))) \<Longrightarrow> \<not> in_HasNegation input"
    "ac_Action ac = ActionStop \<Longrightarrow> allow"
proof -
  from assms(3) obtain m where m: "(ac_Action ac, m) \<in> set actions" "ac_VMID ac = in_VMID input"
    "\<not> (in_HasNegation input \<and> Mutation m)" "\<exists>x \<in> set (Evidence m). sublist x (in_Original input)"
    "ac_Action ac = ActionStop \<longrightarrow> allow"
    unfolding ValidateToolCall_iff [OF assms(1,2)] by blast
  then show "snd (Metadata (ac_Action ac))" "ac_VMID ac = in_VMID input"
    "\<exists>x \<in> set (Evidence (fst (Metadata (ac_Action ac)))). sublist x (in_Original input)"
    "Mutation (fst (Metadata (ac_Action ac))) \<Longrightarrow> \<not> in_HasNegation input"
    "ac_Action ac = ActionStop \<Longrightarrow> allow"
    by (auto simp: Metadata_member)
qed

section \<open>The arguments\<close>

lemma itoa_pos_hd: "0 < n \<Longrightarrow> hd (itoa_pos n) \<noteq> CHR ''0''"
proof (induction n rule: itoa_pos.induct)
  case (1 n)
  show ?case
  proof (cases "n < 10")
    case True
    then have "code (byte (48 + n)) = 48 + n" using 1 by simp
    moreover have "code CHR ''0'' = 48" by (simp add: code_def)
    ultimately have "byte (48 + n) \<noteq> CHR ''0''"
      using "1.prems" by (metis add_cancel_left_right less_irrefl)
    with True show ?thesis by (subst itoa_pos.simps) (auto simp only: if_True list.sel)
  next
    case False
    with 1 have "hd (itoa_pos (n div 10)) \<noteq> CHR ''0''" by simp
    with False show ?thesis by (subst itoa_pos.simps) simp
  qed
qed

lemma scan_num_FormatInt:
  assumes "0 < n" "c \<notin> set ''.eE''" "\<not> is_digit c"
  shows "scan_num (FormatInt n @ c # s) = Some (FormatInt n, c # s)"
proof -
  have d: "list_all is_digit (FormatInt n)" using assms by (simp add: FormatInt_digits)
  obtain x xs where x: "FormatInt n = x # xs" "x \<noteq> CHR ''0''" "is_digit x"
    using itoa_pos_hd [OF assms(1)] itoa_pos_digits [of n] assms(1)
    by (cases "itoa_pos n") (auto simp: FormatInt_def)
  have "takeWhile is_digit (FormatInt n @ c # s) = FormatInt n"
    "dropWhile is_digit (FormatInt n @ c # s) = c # s"
    using takeWhile_run [OF d, of "c # s"] assms(3) by simp_all
  then have t: "takeWhile is_digit (x # xs @ c # s) = x # xs" "dropWhile is_digit (x # xs @ c # s) = c # s"
    unfolding x(1) by simp_all
  have "x \<noteq> CHR ''-''" using x(3) digit_not_sign by blast
  moreover have "scan_int (x # xs @ c # s) = Some (x # xs, c # s)"
    using x(2) t by (simp only: scan_int_def scan_digits_def list.case if_False list.simps)
  moreover have "scan_frac (c # s) = Some ('''', c # s)" "scan_exp (c # s) = Some ('''', c # s)"
    using assms(2) by (simp_all add: scan_frac_def scan_exp_def)
  ultimately show ?thesis by (simp add: x(1) scan_num_def)
qed

lemma parse_number:
  assumes "0 < n" "c \<notin> set ''.eE''" "\<not> is_digit c"
  shows "parse_value (Suc k) d (FormatInt n @ c # s) = Some (JNum (FormatInt n), c # s)"
proof -
  obtain x xs where x: "FormatInt n = x # xs" "is_digit x"
    using itoa_pos_digits [of n] assms(1) by (cases "itoa_pos n") (auto simp: FormatInt_def)
  have "x \<notin> set ''{[ntf''" "x \<noteq> CHR 0x22" using x(2) by (auto simp: is_digit_def code_def)
  then show ?thesis
    using scan_num_FormatInt [OF assms, of s] x(1) by (auto simp: HasPrefix_def)
qed

definition vmid_key :: string where "vmid_key = CHR 0x22 # ''vmid'' @ [CHR 0x22]"

lemma args_text: "enc_object [(''vmid'', enc_int n)] = CHR 0x7B # vmid_key @ CHR '':'' # FormatInt n @ [CHR 0x7D]"
proof -
  have "enc_string ''vmid'' = vmid_key" by code_simp
  then show ?thesis by (simp add: enc_object_def enc_int_def)
qed

lemma skip_ws_FormatInt: "0 < n \<Longrightarrow> skip_ws (FormatInt n @ s) = FormatInt n @ s"
proof -
  assume "0 < n"
  then obtain x xs where x: "FormatInt n = x # xs" "is_digit x"
    using itoa_pos_digits [of n] by (cases "itoa_pos n") (auto simp: FormatInt_def)
  have "\<not> is_ws x" using x(2) by (auto simp: is_ws_def is_digit_def code_def)
  then show ?thesis by (simp add: x(1) skip_ws_def)
qed

lemma parse_args:
  assumes "0 < n"
  shows "parse (enc_object [(''vmid'', enc_int n)] @ s) =
    Some (JObj [(''vmid'', FormatInt n, JNum (FormatInt n))], s)"
proof -
  let ?t = "FormatInt n @ CHR 0x7D # s"
  have ws: "skip_ws (c # r) = c # r" if "\<not> is_ws c" for c r using that by (simp add: skip_ws_def)
  have w: "\<not> is_ws CHR 0x7B" "\<not> is_ws CHR 0x22" "\<not> is_ws CHR '':''" "\<not> is_ws CHR 0x7D" by code_simp+
  have num: "parse_value (Suc k) 1 ?t = Some (JNum (FormatInt n), CHR 0x7D # s)" for k
    by (rule parse_number [OF assms]) (simp_all add: is_digit_def code_def)
  have key: "scan_str (''vmid'' @ CHR 0x22 # CHR '':'' # ?t) = Some (''vmid'', CHR '':'' # ?t)"
    by (simp add: code_def)
  have u: "unquote ''vmid'' = ''vmid''" by code_simp
  have r: "read_from ?t (CHR 0x7D # s) = FormatInt n" by (simp add: read_from_def)
  have mem: "parse_members (Suc (Suc k)) 1 (CHR 0x22 # ''vmid'' @ CHR 0x22 # CHR '':'' # ?t) =
      Some ([(''vmid'', FormatInt n, JNum (FormatInt n))], s)" for k
    using num [of k] key u r
    by (simp only: parse_members.simps list.case option.case prod.case ws [OF w(3)] ws [OF w(4)]
        skip_ws_FormatInt [OF assms] if_False if_True) simp
  show ?thesis
    using mem
    by (simp add: parse_def args_text vmid_key_def ws [OF w(1)] ws [OF w(2)] HasPrefix_def max_depth_def
        del: parse_members.simps scan_str.simps)
qed

lemma decode_args_encoded:
  assumes "0 < n" "int64_range n"
  shows "decode_args (enc_object [(''vmid'', enc_int n)]) = Some n"
proof -
  have "skip_ws (enc_object [(''vmid'', enc_int n)]) \<noteq> []"
    by (simp add: args_text skip_ws_def is_ws_def)
  then have nj: "next_json (enc_object [(''vmid'', enc_int n)]) =
      NextValue (JObj [(''vmid'', FormatInt n, JNum (FormatInt n))]) []"
    using parse_args [OF assms(1), of "[]"] by (simp add: next_json_def)
  have f: "find_field [fld ''vmid'' dec_int64 arg_VMID arg_VMID_update :: call_args field] ''vmid'' =
      Some (snd (fld ''vmid'' dec_int64 arg_VMID arg_VMID_update))"
    by (simp add: find_field_def fld_def)
  have e: "next_json [] = EndOfStream" by (simp add: next_json_def skip_ws_def)
  show ?thesis
    using assms f
    by (simp add: decode_args_def decode_next_def nj e dec_args_def dec_struct_def fld_def dec_int64_def
        ParseInt_FormatInt)
qed

text \<open>The canonical arguments with a positive number are read back as that number.\<close>

lemma decode_args_reads:
  assumes "0 < n" "int64_range n"
  shows "decode_args (enc_object [(''vmid'', enc_int n)]) = Some n"
  by (rule decode_args_encoded [OF assms])

text \<open>
  The arguments need not have exactly one key: a repeated key, and a key in another case, is
  taken as well, and the last one counts.
\<close>

lemma decode_args_repeated:
  "decode_args (enc_object [(''VMID'', enc_int 5), (''vmid'', enc_int 3052)]) = Some 3052"
  by code_simp

section \<open>A concrete call\<close>

definition sample_input :: Input where
  "sample_input = \<lparr>in_Original = sample_text, in_VMID = 3052, in_HasNegation = False, in_Warnings = []\<rparr>"

definition sample_call :: ToolCall where
  "sample_call = \<lparr>tc_Type = ''function'', tc_Name = ''pve_vm_start'',
     tc_Arguments = enc_object [(''vmid'', enc_int 3052)]\<rparr>"

lemma sample_call_valid:
  "ValidateToolCall (rev actions) actions sample_input sample_call False =
    Inr \<lparr>ac_Action = ActionStart, ac_VMID = 3052\<rparr>"
  by code_simp

theorem ValidateToolCall_any_order_witness:
  "ValidateToolCall actions actions sample_input sample_call False =
    Inr \<lparr>ac_Action = ActionStart, ac_VMID = 3052\<rparr>"
  using ValidateToolCall_any_order [of "rev actions" actions sample_input sample_call False]
    sample_call_valid by simp

theorem ValidateToolCall_accepts_witness:
  "tc_Type sample_call = ''function'' \<and> decode_args (tc_Arguments sample_call) = Some 3052"
  using ValidateToolCall_accepts [of "rev actions" actions sample_input sample_call False
      "\<lparr>ac_Action = ActionStart, ac_VMID = 3052\<rparr>"] sample_call_valid by auto

theorem validated_action_unique_witness:
  "\<exists>ac1 ac2. ValidateToolCall (rev actions) actions sample_input sample_call False = Inr ac1 \<and>
    ValidateToolCall (rev actions) actions sample_input sample_call False = Inr ac2 \<and>
    ac_Action ac1 = ac_Action ac2"
  using validated_action_unique [of "rev actions" actions "rev actions" actions sample_input sample_input
      sample_call False _ sample_call False] sample_call_valid by (metis set_rev)

end
