(* ===== verification/Extract.thy ===== *)
theory Extract
  imports Safety Openai Decode Encode
begin

text \<open>
  \<open>internal/managed/input.go\<close>: the text of the final user message, and the warnings about
  the parts of the request that are not honoured.
\<close>

text \<open>\<open>bytes.TrimSpace\<close> is \<open>strings.TrimSpace\<close> on the same bytes.\<close>

definition userMessageError :: apierror where
  "userMessageError = OpenAI ''user_message_required''
     ''A non-empty final user text message is required.'' ''messages'' 400 None"

record text_part =
  part_Type :: string
  part_Text :: string

definition zero_part :: text_part where
  "zero_part = \<lparr>part_Type = '''', part_Text = ''''\<rparr>"

definition dec_text_part :: "text_part decoder" where
  "dec_text_part = dec_struct True
    [fld ''type'' dec_string part_Type part_Type_update,
     fld ''text'' dec_string part_Text part_Text_update]"

fun join_parts :: "text_part list \<Rightarrow> string \<Rightarrow> string option" where
  "join_parts [] joined = Some joined"
| "join_parts (part # parts) joined =
    (if part_Type part \<noteq> ''text'' \<or> part_Text part = '''' then None
     else join_parts parts (joined @ part_Text part))"

text \<open>A string, or else an array of text parts; what follows the array is not looked at.\<close>

definition finalUserText :: "RawMessage \<Rightarrow> string option" where
  "finalUserText content =
    (if TrimSpace content = [] then None
     else case unmarshal dec_string '''' content of
       Some value \<Rightarrow> Some value
     | None \<Rightarrow>
         (case decode_next (dec_slice dec_text_part zero_part) [] content of
            Decoded parts rest \<Rightarrow> if parts = [] then None else join_parts parts ''''
          | _ \<Rightarrow> None))"

definition warnings_of :: "ChatCompletionRequest \<Rightarrow> string list" where
  "warnings_of req =
    (let warnings = [];
         warnings = warnings @ (if length (req_Messages req) > 1
           then [''earlier messages were ignored; only the final user message is processed''] else []);
         warnings = warnings @ (if req_Tools req \<noteq> []
           then [''client-provided tools were ignored; the managed tool catalog is fixed''] else []);
         warnings = warnings @ (if TrimSpace (req_ToolChoice req) \<noteq> []
           then [''tool_choice was ignored; the managed tool catalog is fixed''] else []);
         warnings = warnings @ (if TrimSpace (req_ResponseFormat req) \<noteq> []
           then [''response_format was ignored in managed mode''] else []);
         warnings = warnings @ (if req_Temperature req \<noteq> None
           then [''temperature was ignored in managed mode''] else []);
         warnings = warnings @ (if req_TopP req \<noteq> None
           then [''top_p was ignored in managed mode''] else []);
         warnings = warnings @ (if req_Seed req \<noteq> None
           then [''seed was ignored in managed mode''] else []);
         warnings = warnings @ (if TrimSpace (req_Stop req) \<noteq> []
           then [''stop was ignored in managed mode''] else [])
     in warnings)"

definition ExtractInput :: "ChatCompletionRequest \<Rightarrow> int \<Rightarrow> apierror + Input" where
  "ExtractInput req maxRunes =
    (if req_Messages req = [] then Inl userMessageError
     else
       let last = last (req_Messages req) in
       if msg_Role last \<noteq> ''user'' then Inl userMessageError
       else case finalUserText (msg_Content last) of
         None \<Rightarrow> Inl userMessageError
       | Some value \<Rightarrow>
           let value = TrimSpace value in
           if value = '''' \<or> RuneCountInString value > maxRunes then Inl userMessageError
           else Inr \<lparr>in_Original = value, in_VMID = 0, in_HasNegation = False,
                     in_Warnings = warnings_of req\<rparr>)"

section \<open>What is extracted\<close>

lemma join_parts_append: "join_parts parts joined = map_option ((@) joined) (join_parts parts '''')"
proof (induction parts arbitrary: joined)
  case (Cons p parts)
  show ?case
    using Cons.IH [of "joined @ part_Text p"] Cons.IH [of "part_Text p"]
    by (cases "join_parts parts ''''") simp_all
qed simp

lemma join_parts_iff:
  "join_parts parts '''' = Some t \<longleftrightarrow>
    list_all (\<lambda>p. part_Type p = ''text'' \<and> part_Text p \<noteq> '''') parts \<and> t = concat (map part_Text parts)"
proof (induction parts arbitrary: t)
  case (Cons p parts)
  then show ?case using join_parts_append [of parts "part_Text p"] by auto
qed auto

lemma ExtractInput_iff:
  "ExtractInput req maxRunes = Inr inp \<longleftrightarrow>
    (\<exists>earlier msg value. req_Messages req = earlier @ [msg] \<and> msg_Role msg = ''user'' \<and>
      finalUserText (msg_Content msg) = Some value \<and> TrimSpace value \<noteq> '''' \<and>
      RuneCountInString (TrimSpace value) \<le> maxRunes \<and>
      inp = \<lparr>in_Original = TrimSpace value, in_VMID = 0, in_HasNegation = False,
             in_Warnings = warnings_of req\<rparr>)"
proof (cases "req_Messages req" rule: rev_cases)
  case Nil
  then show ?thesis by (simp add: ExtractInput_def)
next
  case (snoc earlier msg)
  then show ?thesis by (auto simp: ExtractInput_def Let_def split: option.splits)
qed

lemma ExtractInput_fields:
  assumes "ExtractInput req maxRunes = Inr inp"
  shows "in_Original inp \<noteq> ''''" "TrimSpace (in_Original inp) = in_Original inp"
    "in_Warnings inp = warnings_of req"
  using assms by (auto simp: ExtractInput_iff TrimSpace_idem)

lemma ExtractInput_error: "ExtractInput req maxRunes = Inl e \<Longrightarrow> e = userMessageError"
  by (auto simp: ExtractInput_def Let_def split: if_splits option.splits)

lemma trim_right_ascii: "code c < 0x80 \<Longrightarrow> \<not> IsSpace (code c) \<Longrightarrow> trim_right (s @ [c]) = s @ [c]"
  by (subst trim_right.simps)
    (simp add: DecodeLastRune_def last_width_def Let_def decode_rune.simps(2))

lemma TrimSpace_quoted: "TrimSpace (quote # s @ [quote]) = quote # s @ [quote]"
proof -
  have q: "code quote = 34" by (simp add: code_def quote_def)
  then have "\<not> IsSpace (fst (decode_rune (quote # s @ [quote])))"
    by (simp add: decode_rune.simps(2) Let_def IsSpace_def)
  then have "trim_left (quote # s @ [quote]) = quote # s @ [quote]" by (simp add: trim_left_id_iff)
  moreover have "trim_right ((quote # s) @ [quote]) = (quote # s) @ [quote]"
    using q by (intro trim_right_ascii) (simp_all add: IsSpace_def)
  ultimately show ?thesis by (simp add: TrimSpace_def)
qed

lemma finalUserText_string:
  assumes "list_all valid_rune rs"
  shows "finalUserText (enc_string (utf8 rs)) = Some (utf8 rs)"
proof -
  have "unmarshal dec_string '''' (enc_string (utf8 rs)) = Some (utf8 rs)"
    using parse_enc_string [OF assms, of "[]"]
    by (simp add: unmarshal_def whole_json_def skip_ws_def dec_string_def)
  moreover have "TrimSpace (enc_string (utf8 rs)) \<noteq> []" by (simp add: enc_string_def TrimSpace_quoted)
  ultimately show ?thesis by (simp add: finalUserText_def)
qed

text \<open>
  A text of Unicode characters that a client sends as a JSON string is what the service
  reads from the message: the encoder's escapes are undone by the decoder.
\<close>

lemma user_text_round_trip:
  assumes "list_all valid_rune rs"
  shows "finalUserText (enc_string (utf8 rs)) = Some (utf8 rs)"
  by (rule finalUserText_string [OF assms])

text \<open>
  C32. The input is taken from the last message alone, which must be a user's: its text,
  trimmed, not empty and not longer than the limit in characters; in every other case the
  error is the one that asks for a user message.
\<close>

theorem ExtractInput_result:
  "ExtractInput req maxRunes =
    (if \<exists>earlier msg value. req_Messages req = earlier @ [msg] \<and> msg_Role msg = ''user'' \<and>
          finalUserText (msg_Content msg) = Some value \<and> TrimSpace value \<noteq> '''' \<and>
          RuneCountInString (TrimSpace value) \<le> maxRunes
     then Inr \<lparr>in_Original = TrimSpace (the (finalUserText (msg_Content (last (req_Messages req))))),
               in_VMID = 0, in_HasNegation = False, in_Warnings = warnings_of req\<rparr>
     else Inl userMessageError)"
proof (cases "ExtractInput req maxRunes")
  case (Inl e)
  then have "\<not> (\<exists>inp. ExtractInput req maxRunes = Inr inp)" by simp
  then show ?thesis using ExtractInput_error [OF Inl] Inl unfolding ExtractInput_iff by auto
next
  case (Inr inp)
  from Inr [unfolded ExtractInput_iff] show ?thesis unfolding Inr by auto
qed

definition sample_request :: ChatCompletionRequest where
  "sample_request = zero_request\<lparr>req_Model := ''granite-4.0-350m'', req_Messages :=
     [\<lparr>msg_Role = ''user'', msg_Content = enc_string (utf8 [0x542F, 0x52A8] @ '' VM 3052''),
       msg_Name = '''', msg_ToolCallID = ''''\<rparr>]\<rparr>"

lemma sample_request_extracted:
  "ExtractInput sample_request 1000 = Inr \<lparr>in_Original = utf8 [0x542F, 0x52A8] @ '' VM 3052'',
     in_VMID = 0, in_HasNegation = False, in_Warnings = []\<rparr>"
  by code_simp

theorem ExtractInput_result_witness:
  "ExtractInput sample_request 5 = Inl userMessageError \<and>
    (\<exists>inp. ExtractInput sample_request 1000 = Inr inp \<and>
       in_Original inp = TrimSpace (the (finalUserText (msg_Content (last (req_Messages sample_request))))))"
proof -
  have "ExtractInput sample_request 5 = Inl userMessageError" by code_simp
  then show ?thesis
    using ExtractInput_result [of sample_request 1000] sample_request_extracted
    by (auto split: if_splits)
qed

end
