(* ===== verification/Infracontrol.thy ===== *)
theory Infracontrol
  imports Http Config
begin

text \<open>
  \<open>internal/infracontrol/client.go\<close>: the client of the infrastructure service. A query is
  one GET, a change is one POST; an error of the network leaves the outcome of a change
  unknown, and the error says so.
\<close>

record VM =
  VMID :: int64
  Name :: string
  Status :: string
  vm_Uptime :: int64

record Result =
  res_Status :: int
  UpstreamRequestID :: string

record infra_error =
  ie_Code :: string
  ie_Message :: string
  ie_RequestID :: string
  NetworkClass :: string
  ie_Status :: int
  Unknown :: bool
  ie_Cause :: "goerror option"

record InfraClient =
  ic_baseURL :: string
  ic_token :: string

definition infra_Error_string :: "infra_error \<Rightarrow> string" where
  "infra_Error_string e = ie_Code e @ '': '' @ ie_Message e"

definition NewInfraClient :: "InfraControlConfig \<Rightarrow> InfraClient" where
  "NewInfraClient cfg = \<lparr>ic_baseURL = BaseURL cfg, ic_token = APIToken cfg\<rparr>"

section \<open>Errors\<close>

record error_body =
  eb_Code :: string
  eb_Message :: string
  eb_RequestID :: string
  eb_Details :: string

definition dec_error_body :: "error_body decoder" where
  "dec_error_body = dec_struct False
    [fld ''Code'' dec_string eb_Code eb_Code_update,
     fld ''Message'' dec_string eb_Message eb_Message_update,
     fld ''RequestID'' dec_string eb_RequestID eb_RequestID_update,
     fld ''Details'' dec_raw eb_Details eb_Details_update]"

definition zero_error_body :: error_body where
  "zero_error_body = \<lparr>eb_Code = '''', eb_Message = '''', eb_RequestID = '''', eb_Details = ''''\<rparr>"

text \<open>The error of the decoding is ignored: what was decoded before it counts.\<close>

definition parseError :: "HttpResponse \<Rightarrow> bool \<Rightarrow> infra_error" where
  "parseError resp unknown =
    (let body = (case decode_next dec_error_body zero_error_body
                        (LimitReader (resp_Body resp) (responseLimit + 1)) of
                   DecodeEOF \<Rightarrow> zero_error_body | DecodeFailed b \<Rightarrow> b | Decoded b rest \<Rightarrow> b);
         c = (if eb_Code body = '''' then ''upstream_request_failed'' else eb_Code body);
         message = (''Infrastructure '' @ utf8 [0x8BF7, 0x6C42, 0x5931, 0x8D25, 0x3002]);
         message = (if StatusCode resp = 401 \<or> StatusCode resp = 403
                    then (''Infrastructure '' @ utf8 [0x8BA4, 0x8BC1, 0x5931, 0x8D25,
                        0x3002]) else message)
     in \<lparr>ie_Code = c, ie_Message = message, ie_RequestID = eb_RequestID body, NetworkClass = '''',
         ie_Status = StatusCode resp, Unknown = unknown, ie_Cause = None\<rparr>)"

definition known :: "string \<Rightarrow> string \<Rightarrow> int \<Rightarrow> infra_error" where
  "known c message status =
    \<lparr>ie_Code = c, ie_Message = message, ie_RequestID = '''', NetworkClass = '''',
     ie_Status = status, Unknown = False, ie_Cause = None\<rparr>"

definition transport :: "goerror \<Rightarrow> infra_error" where
  "transport err =
    (let cls = ''unknown'';
         cls = (case err of NetError timeout dns \<Rightarrow> if timeout then ''timeout'' else cls | _ \<Rightarrow> cls);
         cls = (case err of NetError timeout dns \<Rightarrow> if dns then ''dns'' else cls | _ \<Rightarrow> cls)
     in \<lparr>ie_Code = ''upstream_request_failed'',
         ie_Message = (''Infrastructure '' @ utf8 [0x7F51, 0x7EDC, 0x8BF7, 0x6C42, 0x5931,
             0x8D25, 0xFF1B, 0x64CD, 0x4F5C, 0x7ED3, 0x679C, 0x672A, 0x77E5, 0xFF0C, 0x8BF7,
             0x5148, 0x67E5, 0x8BE2, 0x72B6, 0x6001, 0x3002]),
         ie_RequestID = '''', NetworkClass = cls, ie_Status = 0, Unknown = True,
         ie_Cause = Some err\<rparr>)"

section \<open>The operations\<close>

definition infra_do ::
  "network \<Rightarrow> InfraClient \<Rightarrow> string \<Rightarrow> string \<Rightarrow> string \<Rightarrow> history
    \<Rightarrow> (infra_error + HttpResponse) \<times> history"
where
  "infra_do net c requestID method path h =
    (case NewRequest method (ic_baseURL c @ path) '''' of
       None \<Rightarrow> (Inl (transport (ErrorText ''parse'')), h)
     | Some req \<Rightarrow>
         let req = header_Set ''Authorization'' (''Bearer '' @ ic_token c) req;
             req = header_Set ''Accept'' ''application/json'' req;
             req = header_Set ''X-Request-ID'' requestID req
         in case http_Do net req h of
           (Failure timeout dns, h) \<Rightarrow> (Inl (transport (NetError timeout dns)), h)
         | (Answer resp, h) \<Rightarrow> (Inr resp, h))"

definition dec_VM :: "VM decoder" where
  "dec_VM = dec_struct False
    [fld ''vmid'' dec_int64 VMID VMID_update,
     fld ''name'' dec_string Name Name_update,
     fld ''status'' dec_string Status Status_update,
     fld ''uptime'' dec_int64 vm_Uptime vm_Uptime_update]"

definition zero_VM :: VM where
  "zero_VM = \<lparr>VMID = 0, Name = '''', Status = '''', vm_Uptime = 0\<rparr>"

definition vm_path :: "int64 \<Rightarrow> string" where
  "vm_path vmid = ''/api/v1/pve/vms/'' @ FormatInt vmid"

definition read_VM :: "HttpResponse \<Rightarrow> int64 \<Rightarrow> infra_error + VM" where
  "read_VM resp vmid =
    (if StatusCode resp \<noteq> 200 then Inl (parseError resp False)
     else
       let invalid = known ''invalid_upstream_response'' (''Infrastructure '' @ utf8 [0x8FD4,
           0x56DE, 0x4E86, 0x65E0, 0x6548, 0x54CD, 0x5E94, 0x3002])
             (StatusCode resp)
       in case decode_next dec_VM zero_VM (LimitReader (resp_Body resp) (responseLimit + 1)) of
         DecodeEOF \<Rightarrow> Inl invalid
       | DecodeFailed vm \<Rightarrow> Inl invalid
       | Decoded vm rest \<Rightarrow>
           if VMID vm \<noteq> vmid \<or> Status vm = '''' then Inl invalid else Inr vm)"

definition GetVM ::
  "network \<Rightarrow> InfraClient \<Rightarrow> string \<Rightarrow> int64 \<Rightarrow> history \<Rightarrow> (infra_error + VM) \<times> history"
where
  "GetVM net c requestID vmid h =
    (case infra_do net c requestID ''GET'' (vm_path vmid) h of
       (Inl err, h) \<Rightarrow> (Inl err, h)
     | (Inr resp, h) \<Rightarrow> (read_VM resp vmid, h))"

definition Mutate ::
  "network \<Rightarrow> InfraClient \<Rightarrow> string \<Rightarrow> string \<Rightarrow> int64 \<Rightarrow> history
    \<Rightarrow> (infra_error + Result) \<times> history"
where
  "Mutate net c requestID action vmid h =
    (if action \<noteq> ''start'' \<and> action \<noteq> ''shutdown'' \<and> action \<noteq> ''stop'' \<and> action \<noteq> ''reboot''
     then (Inl (known ''invalid_action'' (utf8 [0x65E0, 0x6548, 0x7684, 0x865A, 0x62DF, 0x673A,
         0x64CD, 0x4F5C, 0x3002]) 0), h)
     else
       case infra_do net c requestID ''POST'' (vm_path vmid @ ''/'' @ action) h of
         (Inl err, h) \<Rightarrow> (Inl err, h)
       | (Inr resp, h) \<Rightarrow>
           if StatusCode resp \<noteq> 202 then (Inl (parseError resp False), h)
           else (Inr \<lparr>res_Status = StatusCode resp,
                      UpstreamRequestID = header_Get ''X-Request-ID'' (resp_Header resp)\<rparr>, h))"

section \<open>The interface and its laws\<close>

text \<open>
  \<open>infracontrol.Service\<close>, for the code that calls it: what each operation sends, what a VM
  that it returns has been checked for, and when the outcome of a change is unknown.
\<close>

locale infrastructure =
  fixes get :: "string \<Rightarrow> int64 \<Rightarrow> history \<Rightarrow> (infra_error + VM) \<times> history"
    and mutate :: "string \<Rightarrow> string \<Rightarrow> int64 \<Rightarrow> history \<Rightarrow> (infra_error + Result) \<times> history"
    and base :: string
  assumes get_sends: "get rid v h = (r, h') \<Longrightarrow>
      h' = h \<or> (\<exists>req out. h' = h @ [(req, out)] \<and> req_Method req = ''GET'')"
    and get_vm: "get rid v h = (Inr vm, h') \<Longrightarrow>
      VMID vm = v \<and> Status vm \<noteq> '''' \<and>
      (\<exists>req resp. h' = h @ [(req, Answer resp)] \<and> req_Method req = ''GET'' \<and>
         req_URL req = base @ vm_path v \<and> StatusCode resp = 200 \<and> read_VM resp v = Inr vm)"
    and mutate_sends: "mutate rid a v h = (q, h') \<Longrightarrow>
      h' = h \<or> (\<exists>req out. h' = h @ [(req, out)] \<and> req_Method req = ''POST'' \<and>
        req_URL req = base @ vm_path v @ ''/'' @ a)"
    and mutate_accepted: "mutate rid a v h = (Inr res, h') \<Longrightarrow>
      res_Status res = 202 \<and>
      (\<exists>req resp. h' = h @ [(req, Answer resp)] \<and> StatusCode resp = 202 \<and>
         req_Method req = ''POST'' \<and> req_URL req = base @ vm_path v @ ''/'' @ a)"
    and mutate_failed: "mutate rid a v h = (Inl e, h') \<Longrightarrow> h' \<noteq> h \<Longrightarrow>
      (\<exists>req out. h' = h @ [(req, out)] \<and>
        (case out of Failure t d \<Rightarrow> Unknown e | Answer resp \<Rightarrow> StatusCode resp \<noteq> 202 \<and> \<not> Unknown e))"

text \<open>The requests that a history has beyond an earlier one, and the changes among them.\<close>

definition is_change :: "string \<Rightarrow> exchange \<Rightarrow> bool" where
  "is_change endpoint x \<longleftrightarrow> req_Method (fst x) = ''POST'' \<and> req_URL (fst x) \<noteq> endpoint"

definition changes :: "string \<Rightarrow> history \<Rightarrow> exchange list" where
  "changes endpoint h = filter (is_change endpoint) h"

lemma changes_append [simp]: "changes e (h @ k) = changes e h @ changes e k"
  by (simp add: changes_def)

lemma changes_Nil [simp]: "changes e [] = []"
  by (simp add: changes_def)

context infrastructure
begin

lemma get_changes:
  assumes "get rid v h = (r, h')"
  obtains k where "h' = h @ k" "\<And>e. changes e k = []" "length k \<le> 1"
proof -
  consider "h' = h" | req out where "h' = h @ [(req, out)]" "req_Method req = ''GET''"
    using get_sends [OF assms] by blast
  then show ?thesis
  proof cases
    case 1
    then show ?thesis by (intro that [of "[]"]) simp_all
  next
    case 2
    then show ?thesis by (intro that [of "[(req, out)]"]) (simp_all add: changes_def is_change_def)
  qed
qed

lemma mutate_changes:
  assumes "mutate rid a v h = (r, h')"
  obtains "h' = h" | req out where "h' = h @ [(req, out)]" "req_Method req = ''POST''"
    "req_URL req = base @ vm_path v @ ''/'' @ a"
  using mutate_sends [OF assms] by blast

end

section \<open>The client keeps the laws\<close>

lemma infra_do_cases:
  assumes "infra_do net c rid m p h = (r, h')"
  obtains (unsent) e where "h' = h" "r = Inl (transport e)"
  | (failed) req t d where "h' = h @ [(req, Failure t d)]" "r = Inl (transport (NetError t d))"
      "req_Method req = m" "req_URL req = ic_baseURL c @ p"
  | (answered) req resp where "h' = h @ [(req, Answer resp)]" "r = Inr resp"
      "req_Method req = m" "req_URL req = ic_baseURL c @ p"
proof (cases "NewRequest m (ic_baseURL c @ p) ''''")
  case None
  then have "h' = h" "r = Inl (transport (ErrorText ''parse''))" using assms by (simp_all add: infra_do_def)
  then show ?thesis by (rule unsent)
next
  case (Some req)
  let ?r = "header_Set ''X-Request-ID'' rid (header_Set ''Accept'' ''application/json''
      (header_Set ''Authorization'' (''Bearer '' @ ic_token c) req))"
  have u: "req_Method ?r = m" "req_URL ?r = ic_baseURL c @ p" using NewRequest_fields [OF Some] by simp_all
  have "infra_do net c rid m p h = (case http_Do net ?r h of
        (Failure timeout dns, h) \<Rightarrow> (Inl (transport (NetError timeout dns)), h)
      | (Answer resp, h) \<Rightarrow> (Inr resp, h))"
    by (simp add: infra_do_def Some)
  then show ?thesis
    using assms u failed [of ?r] answered [of ?r]
    by (cases "net h ?r") (auto simp: http_Do_def)
qed

lemma read_VM_Inr:
  "read_VM resp v = Inr vm \<Longrightarrow> VMID vm = v \<and> Status vm \<noteq> '''' \<and> StatusCode resp = 200"
  by (auto simp: read_VM_def Let_def split: if_splits decoded.splits)

lemma transport_Unknown [simp]: "Unknown (transport e)"
  by (simp add: transport_def Let_def)

lemma parseError_Unknown [simp]: "Unknown (parseError resp u) = u"
  by (simp add: parseError_def Let_def)

interpretation client: infrastructure "GetVM net c" "Mutate net c" "ic_baseURL c" for net c
proof (unfold_locales, goal_cases)
  case (1 rid v h r h')
  then obtain x where x: "infra_do net c rid ''GET'' (vm_path v) h = (x, h')"
    by (auto simp: GetVM_def split: prod.splits sum.splits)
  then show ?case by (cases rule: infra_do_cases) auto
next
  case (2 rid v h vm h')
  then obtain resp where x: "infra_do net c rid ''GET'' (vm_path v) h = (Inr resp, h')"
    and vm: "read_VM resp v = Inr vm"
    by (auto simp: GetVM_def split: prod.splits sum.splits)
  from x show ?case using read_VM_Inr [OF vm] vm by (cases rule: infra_do_cases) auto
next
  case (3 rid a v h r h')
  show ?case
  proof (cases "h' = h")
    case False
    with 3 obtain x where "infra_do net c rid ''POST'' (vm_path v @ ''/'' @ a) h = (x, h')"
      by (auto simp: Mutate_def split: prod.splits sum.splits if_splits)
    then show ?thesis by (cases rule: infra_do_cases) auto
  qed simp
next
  case (4 rid a v h res h')
  then obtain resp where "infra_do net c rid ''POST'' (vm_path v @ ''/'' @ a) h = (Inr resp, h')"
    and s: "StatusCode resp = 202" "res_Status res = 202"
    by (auto simp: Mutate_def split: prod.splits sum.splits if_splits)
  from this(1) show ?case using s by (cases rule: infra_do_cases) auto
next
  case (5 rid a v h e h')
  then obtain x where x: "infra_do net c rid ''POST'' (vm_path v @ ''/'' @ a) h = (x, h')"
    and e: "case x of Inl y \<Rightarrow> e = y | Inr resp \<Rightarrow> StatusCode resp \<noteq> 202 \<and> e = parseError resp False"
    by (auto simp: Mutate_def split: prod.splits sum.splits if_splits)
  from x show ?case using e 5(2) by (cases rule: infra_do_cases) auto
qed

lemma Mutate_action:
  "Mutate net c rid a v h = (r, h') \<Longrightarrow> h' \<noteq> h \<Longrightarrow> a \<in> {''start'', ''shutdown'', ''stop'', ''reboot''}"
  by (auto simp: Mutate_def split: if_splits)

section \<open>What the operations do\<close>

lemma read_VM_cases:
  "GetVM net c rid v h = (r, h') \<Longrightarrow> h' = h \<and> (\<exists>e. r = Inl e \<and> Unknown e) \<or>
    (\<exists>req out. h' = h @ [(req, out)] \<and> req_Method req = ''GET'' \<and> req_URL req = ic_baseURL c @ vm_path v \<and>
      (case out of Failure t d \<Rightarrow> \<exists>e. r = Inl e \<and> Unknown e | Answer resp \<Rightarrow> r = read_VM resp v))"
proof -
  assume a: "GetVM net c rid v h = (r, h')"
  then obtain x where x: "infra_do net c rid ''GET'' (vm_path v) h = (x, h')"
    "r = (case x of Inl e \<Rightarrow> Inl e | Inr resp \<Rightarrow> read_VM resp v)"
    by (auto simp: GetVM_def split: prod.splits sum.splits)
  from x(1) show ?thesis using x(2) by (cases rule: infra_do_cases) auto
qed

text \<open>
  C30. A query is one GET for the VM, and a VM is returned only when the answer has the status
  200 and its body, up to the limit, starts with a VM of that very number whose status is not
  empty; then it is the VM that was read.
\<close>

theorem GetVM_checked:
  assumes "GetVM net c rid v h = (Inr vm, h')"
  shows "\<exists>req resp rest. h' = h @ [(req, Answer resp)] \<and> req_Method req = ''GET'' \<and>
    req_URL req = ic_baseURL c @ ''/api/v1/pve/vms/'' @ FormatInt v \<and> StatusCode resp = 200 \<and>
    decode_next dec_VM zero_VM (LimitReader (resp_Body resp) (responseLimit + 1)) = Decoded vm rest \<and>
    VMID vm = v \<and> Status vm \<noteq> ''''"
proof -
  obtain req resp where r: "h' = h @ [(req, Answer resp)]" "req_Method req = ''GET''"
    "req_URL req = ic_baseURL c @ vm_path v" "StatusCode resp = 200" "read_VM resp v = Inr vm"
    "VMID vm = v" "Status vm \<noteq> ''''"
    using client.get_vm [OF assms] by blast
  moreover have "\<exists>rest. decode_next dec_VM zero_VM (LimitReader (resp_Body resp) (responseLimit + 1)) = Decoded vm rest"
    using r(4,5) by (auto simp: read_VM_def Let_def split: if_splits decoded.splits)
  ultimately show ?thesis by (auto simp: vm_path_def)
qed

lemma Mutate_cases:
  assumes "Mutate net c rid a v h = (r, h')"
  shows "h' = h \<and> (\<exists>e. r = Inl e) \<or>
    a \<in> {''start'', ''shutdown'', ''stop'', ''reboot''} \<and>
    (\<exists>req out. h' = h @ [(req, out)] \<and> req_Method req = ''POST'' \<and>
       req_URL req = ic_baseURL c @ vm_path v @ ''/'' @ a \<and>
       (case out of
          Failure t d \<Rightarrow> \<exists>e. r = Inl e \<and> Unknown e \<and>
            NetworkClass e = (if d then ''dns'' else if t then ''timeout'' else ''unknown'')
        | Answer resp \<Rightarrow>
            if StatusCode resp = 202 then \<exists>res. r = Inr res \<and> res_Status res = 202
            else \<exists>e. r = Inl e \<and> \<not> Unknown e \<and> ie_Status e = StatusCode resp))"
proof (cases "h' = h")
  case True
  then show ?thesis using assms client.mutate_accepted [of net c rid a v h _ h'] by (cases r) auto
next
  case False
  note a = Mutate_action [OF assms False]
  with assms False obtain x where x: "infra_do net c rid ''POST'' (vm_path v @ ''/'' @ a) h = (x, h')"
    and e: "case x of Inl y \<Rightarrow> r = Inl y
      | Inr resp \<Rightarrow> r = (if StatusCode resp \<noteq> 202 then Inl (parseError resp False)
           else Inr \<lparr>res_Status = StatusCode resp,
                      UpstreamRequestID = header_Get ''X-Request-ID'' (resp_Header resp)\<rparr>)"
    by (auto simp: Mutate_def split: prod.splits sum.splits if_splits)
  have n: "NetworkClass (transport (NetError t d)) = (if d then ''dns'' else if t then ''timeout'' else ''unknown'')"
    for t d by (simp add: transport_def Let_def)
  have p: "ie_Status (parseError resp u) = StatusCode resp" for resp u
    by (simp add: parseError_def Let_def)
  from x show ?thesis using a e False by (cases rule: infra_do_cases) (auto simp: n p)
qed

text \<open>
  C29. A change sends at most one POST and never repeats it. Without an answer the error says
  that the outcome is unknown, with one of the documented classes of network errors, and tells a
  name that could not be resolved and a time that ran out for what they are; an answer other than
  202 gives a known error with its status; only an answer 202 is a success.
\<close>

theorem Mutate_outcome:
  assumes "Mutate net c rid a v h = (r, h')"
  shows "h' = h \<and> (\<exists>e. r = Inl e) \<or>
    a \<in> {''start'', ''shutdown'', ''stop'', ''reboot''} \<and>
    (\<exists>req out. h' = h @ [(req, out)] \<and> req_Method req = ''POST'' \<and>
       req_URL req = ic_baseURL c @ vm_path v @ ''/'' @ a \<and>
       (case out of
          Failure t d \<Rightarrow> \<exists>e. r = Inl e \<and> Unknown e \<and>
            NetworkClass e \<in> {''dns'', ''connect'', ''tls'', ''timeout'', ''reset'', ''unknown''} \<and>
            (d \<longrightarrow> NetworkClass e = ''dns'') \<and> (t \<and> \<not> d \<longrightarrow> NetworkClass e = ''timeout'')
        | Answer resp \<Rightarrow>
            if StatusCode resp = 202 then \<exists>res. r = Inr res \<and> res_Status res = 202
            else \<exists>e. r = Inl e \<and> \<not> Unknown e \<and> ie_Status e = StatusCode resp))"
  using Mutate_cases [OF assms] by (fastforce split: outcome.splits if_splits)

text \<open>
  The classes \<open>connect\<close>, \<open>tls\<close> and \<open>reset\<close> of the design document are never given: a refused
  connection, for one, is a failure that is neither a timeout nor one of the name service.
\<close>

lemma refused_connection_unclassified: "NetworkClass (transport (NetError False False)) = ''unknown''"
  by (simp add: transport_def Let_def)

section \<open>A concrete service\<close>

definition sample_infra :: InfraClient where
  "sample_infra = \<lparr>ic_baseURL = ''http://infra:8080'', ic_token = ''secret''\<rparr>"

definition json_response :: "int \<Rightarrow> string \<Rightarrow> outcome" where
  "json_response status body =
    Answer \<lparr>StatusCode = status, resp_Header = [], resp_Body = body, resp_BodyError = False\<rparr>"

definition vm_3052 :: string where
  \<open>vm_3052 = ''{"vmid":3052,"name":"web","status":"stopped","uptime":0,"node":"a"}''\<close>

definition sample_network :: network where
  "sample_network h req =
    (if req_Method req = ''GET'' then json_response 200 vm_3052 else Failure True False)"

lemma sample_GetVM:
  "fst (GetVM sample_network sample_infra ''id'' 3052 []) =
    Inr \<lparr>VMID = 3052, Name = ''web'', Status = ''stopped'', vm_Uptime = 0\<rparr>"
  by code_simp

lemma sample_Mutate:
  "map (req_URL \<circ> fst) (snd (Mutate sample_network sample_infra ''id'' ''start'' 3052 [])) =
    [''http://infra:8080/api/v1/pve/vms/3052/start'']"
  by code_simp

theorem GetVM_checked_witness:
  "\<exists>vm h'. GetVM sample_network sample_infra ''id'' 3052 [] = (Inr vm, h') \<and> VMID vm = 3052 \<and> length h' = 1"
proof -
  obtain r h' where g: "GetVM sample_network sample_infra ''id'' 3052 [] = (r, h')" by (cases "GetVM sample_network sample_infra ''id'' 3052 []")
  with sample_GetVM obtain vm where r: "r = Inr vm" by simp
  from GetVM_checked [OF g [unfolded r]] show ?thesis using g r by auto
qed

theorem Mutate_outcome_witness:
  "\<exists>e h'. Mutate sample_network sample_infra ''id'' ''start'' 3052 [] = (Inl e, h') \<and> length h' = 1 \<and>
    Unknown e \<and> NetworkClass e = ''timeout''"
proof -
  obtain r h' where m: "Mutate sample_network sample_infra ''id'' ''start'' 3052 [] = (r, h')" by (cases "Mutate sample_network sample_infra ''id'' ''start'' 3052 []")
  have "h' \<noteq> []" using sample_Mutate m by auto
  then obtain req out where o: "h' = [(req, out)]" "req_Method req = ''POST''"
    and r: "case out of
          Failure t d \<Rightarrow> \<exists>e. r = Inl e \<and> Unknown e \<and>
            NetworkClass e \<in> {''dns'', ''connect'', ''tls'', ''timeout'', ''reset'', ''unknown''} \<and>
            (d \<longrightarrow> NetworkClass e = ''dns'') \<and> (t \<and> \<not> d \<longrightarrow> NetworkClass e = ''timeout'')
        | Answer resp \<Rightarrow>
            if StatusCode resp = 202 then \<exists>res. r = Inr res \<and> res_Status res = 202
            else \<exists>e. r = Inl e \<and> \<not> Unknown e \<and> ie_Status e = StatusCode resp"
    using Mutate_outcome [OF m] by auto
  have "snd (last (snd (Mutate sample_network sample_infra ''id'' ''start'' 3052 []))) = Failure True False"
    by code_simp
  then have "out = Failure True False" using o m by simp
  with r o m show ?thesis by auto
qed

end
