(* ===== verification/Response.thy ===== *)
theory Response
  imports Infracontrol Validate
begin

text \<open>
  \<open>internal/managed/response.go\<close>: the body of a successful answer, its JSON, and the events
  of a streamed answer.
\<close>

record AssistantMessage =
  am_Role :: string
  am_Content :: "string option"

record Choice =
  Index :: int
  choice_Message :: AssistantMessage
  FinishReason :: string

record GraniteMetadata =
  gm_Tool :: string
  gm_VMID :: int64
  gm_Executed :: bool
  gm_Deduplicated :: bool
  gm_UpstreamStatus :: int
  gm_Result :: "VM option"
  gm_Warnings :: "string list"

record ResponseBody =
  rb_ID :: string
  rb_Object :: string
  rb_Created :: int64
  rb_Model :: string
  rb_Choices :: "Choice list"
  rb_Usage :: Usage
  rb_XGranite :: GraniteMetadata

record MetadataResult =
  mr_Executed :: bool
  mr_Deduplicated :: bool
  mr_UpstreamStatus :: int
  mr_Result :: "VM option"

text \<open>\<open>newID\<close>: the argument is what the random source gave, \<open>None\<close> for an error.\<close>

definition newID :: "string option \<Rightarrow> string" where
  "newID random =
    (case random of
       None \<Rightarrow> ''chatcmpl_000000000000000000000000''
     | Some b \<Rightarrow> ''chatcmpl_'' @ EncodeToString b)"

definition NewResponse ::
  "string option \<Rightarrow> int64 \<Rightarrow> string \<Rightarrow> ActionCall \<Rightarrow> string \<Rightarrow> MetadataResult \<Rightarrow> string list \<Rightarrow> ResponseBody"
where
  "NewResponse random now model call content result warnings =
    (let meta = fst (Metadata (ac_Action call)) in
     \<lparr>rb_ID = newID random, rb_Object = ''chat.completion'', rb_Created = now, rb_Model = model,
      rb_Choices = [\<lparr>Index = 0, choice_Message = \<lparr>am_Role = ''assistant'', am_Content = Some content\<rparr>,
                     FinishReason = ''stop''\<rparr>],
      rb_Usage = \<lparr>PromptTokens = 0, CompletionTokens = 0, TotalTokens = 0, Estimated = True\<rparr>,
      rb_XGranite = \<lparr>gm_Tool = ToolName meta, gm_VMID = ac_VMID call,
        gm_Executed = mr_Executed result, gm_Deduplicated = mr_Deduplicated result,
        gm_UpstreamStatus = mr_UpstreamStatus result, gm_Result = mr_Result result,
        gm_Warnings = warnings\<rparr>\<rparr>)"

section \<open>JSON\<close>

definition enc_VM :: "VM \<Rightarrow> string" where
  "enc_VM vm = enc_object
    [(''vmid'', enc_int (VMID vm)), (''name'', enc_string (Name vm)),
     (''status'', enc_string (Status vm)), (''uptime'', enc_int (vm_Uptime vm))]"

definition enc_metadata :: "GraniteMetadata \<Rightarrow> string" where
  "enc_metadata m = enc_object
    ([(''tool'', enc_string (gm_Tool m)),
      (''arguments'', enc_object [(''vmid'', enc_int (gm_VMID m))]),
      (''executed'', enc_bool (gm_Executed m)),
      (''deduplicated'', enc_bool (gm_Deduplicated m))] @
     (if gm_UpstreamStatus m = 0 then [] else [(''upstream_status'', enc_int (gm_UpstreamStatus m))]) @
     (case gm_Result m of None \<Rightarrow> [] | Some vm \<Rightarrow> [(''result'', enc_VM vm)]) @
     [(''warnings'', enc_array (map enc_string (gm_Warnings m)))])"

definition enc_usage :: "Usage \<Rightarrow> string" where
  "enc_usage u = enc_object
    [(''prompt_tokens'', enc_int (PromptTokens u)), (''completion_tokens'', enc_int (CompletionTokens u)),
     (''total_tokens'', enc_int (TotalTokens u)), (''estimated'', enc_bool (Estimated u))]"

definition enc_choice :: "Choice \<Rightarrow> string" where
  "enc_choice c = enc_object
    [(''index'', enc_int (Index c)),
     (''message'', enc_object
        [(''role'', enc_string (am_Role (choice_Message c))),
         (''content'', case am_Content (choice_Message c) of None \<Rightarrow> ''null'' | Some t \<Rightarrow> enc_string t)]),
     (''finish_reason'', enc_string (FinishReason c))]"

definition enc_response :: "ResponseBody \<Rightarrow> string" where
  "enc_response r = enc_object
    [(''id'', enc_string (rb_ID r)), (''object'', enc_string (rb_Object r)),
     (''created'', enc_int (rb_Created r)), (''model'', enc_string (rb_Model r)),
     (''choices'', enc_array (map enc_choice (rb_Choices r))), (''usage'', enc_usage (rb_Usage r)),
     (''x_granite'', enc_metadata (rb_XGranite r))]"

section \<open>Streaming\<close>

text \<open>
  \<open>StreamEvents\<close> reads the content of the first choice through a pointer: a response without
  one ends in a panic, which is \<open>None\<close>. The keys of a Go map are written in their order. The
  text of the metadata is itself output of the encoder, which compaction leaves as it is (lemma
  \<open>enc_raw_metadata\<close> of the theory Compaction).
\<close>

definition delta_event :: "string \<Rightarrow> string \<Rightarrow> (string \<times> string) list \<Rightarrow> string" where
  "delta_event delta finish extra = enc_object
    ([(''choices'', enc_array [enc_object [(''delta'', delta), (''finish_reason'', finish)]])] @ extra)"

definition StreamEvents :: "ResponseBody \<Rightarrow> bool \<Rightarrow> string list option" where
  "StreamEvents response includeUsage =
    (case rb_Choices response of
       [] \<Rightarrow> None
     | c # cs \<Rightarrow>
         (case am_Content (choice_Message c) of
            None \<Rightarrow> None
          | Some content \<Rightarrow>
              let meta = enc_metadata (rb_XGranite response);
                  events =
                    [delta_event (enc_object [(''role'', enc_string ''assistant'')]) ''null'' [],
                     delta_event (enc_object [(''content'', enc_string content)]) ''null'' [],
                     delta_event (enc_object []) (enc_string ''stop'') [(''x_granite'', meta)]];
                  events = events @ (if includeUsage
                    then [enc_object [(''choices'', enc_array []), (''usage'', enc_usage (rb_Usage response))]]
                    else [])
              in Some (events @ [''[DONE]''])))"

lemma NewResponse_select [simp]:
  "rb_ID (NewResponse r t m c s x w) = newID r" "rb_Model (NewResponse r t m c s x w) = m"
  "rb_Choices (NewResponse r t m c s x w) =
    [\<lparr>Index = 0, choice_Message = \<lparr>am_Role = ''assistant'', am_Content = Some s\<rparr>, FinishReason = ''stop''\<rparr>]"
  "rb_XGranite (NewResponse r t m c s x w) =
    \<lparr>gm_Tool = ToolName (fst (Metadata (ac_Action c))), gm_VMID = ac_VMID c,
     gm_Executed = mr_Executed x, gm_Deduplicated = mr_Deduplicated x,
     gm_UpstreamStatus = mr_UpstreamStatus x, gm_Result = mr_Result x, gm_Warnings = w\<rparr>"
  by (simp_all add: NewResponse_def Let_def)

lemma StreamEvents_NewResponse: "StreamEvents (NewResponse r t m c s x w) u \<noteq> None"
  by (simp add: StreamEvents_def)

end
