(* ===== verification/Service.thy ===== *)
theory Service
  imports Extract Dedup Render Response
begin

text \<open>
  \<open>internal/managed/service.go\<close>: a request from its text to the answer. The model and the
  infrastructure service are behind interfaces and are arguments here, as are the readings of
  the clock, the orders of iteration over the map of actions, the random bytes of the
  identifier and the way the context of the request ends. The state is the store of the
  deduplication and the history of the exchanges with the network.
\<close>

record ServiceConfig =
  sc_ModelID :: string
  sc_MaxMessageLength :: int
  sc_AllowForceStop :: bool
  sc_DedupWindow :: int

record execution =
  ex_Message :: string
  ex_VM :: "VM option"
  ex_Result :: Result
  ex_Executed :: bool

text \<open>The dynamic types of the values and the errors that go through the store.\<close>

datatype any_value = AnError infra_error | AnExecution execution
datatype any_error = Upstream infra_error | Ended goerror

type_synonym service_store = "(any_value, any_error) Store"
type_synonym select_op = "string \<Rightarrow> FunctionTool list \<Rightarrow> history \<Rightarrow> (apierror + ToolCall) \<times> history"
type_synonym get_op = "string \<Rightarrow> int64 \<Rightarrow> history \<Rightarrow> (infra_error + VM) \<times> history"
type_synonym mutate_op = "string \<Rightarrow> string \<Rightarrow> int64 \<Rightarrow> history \<Rightarrow> (infra_error + Result) \<times> history"

record call_env =
  ce_ready :: bool
  ce_order1 :: action_order
  ce_order2 :: action_order
  ce_now :: time
  ce_later :: time
  ce_gone :: bool
  ce_ctxErr :: goerror
  ce_random :: "string option"
  ce_unix :: int64

definition NewService :: "ServiceConfig \<Rightarrow> service_store" where
  "NewService cfg = new_store (sc_DedupWindow cfg)"

text \<open>A service that is made without a function for the readiness is always ready.\<close>

definition Service_Ready :: "bool option \<Rightarrow> bool" where
  "Service_Ready r = (case r of None \<Rightarrow> True | Some ready \<Rightarrow> ready)"

definition Service_ModelList :: "ServiceConfig \<Rightarrow> ModelListResponse" where
  "Service_ModelList cfg = ModelList (sc_ModelID cfg)"

definition toAPIError :: "infra_error \<Rightarrow> apierror" where
  "toAPIError err =
    (let status = (if NetworkClass err = ''timeout'' then 504 else 502)
     in OpenAI (ie_Code err) (ie_Message err) '''' status
          (Some (UpstreamError (ie_Code err) (ie_Message err))))"

definition zero_Result :: Result where
  "zero_Result = \<lparr>res_Status = 0, UpstreamRequestID = ''''\<rparr>"

text \<open>The function that runs under deduplication: query, check of the state, change.\<close>

definition run_action ::
  "get_op \<Rightarrow> mutate_op \<Rightarrow> string \<Rightarrow> ActionCall \<Rightarrow> history
    \<Rightarrow> (any_value option \<times> CachePolicy \<times> any_error option) \<times> history"
where
  "run_action get mutate requestID call h =
    (case get requestID (ac_VMID call) h of
       (Inl up, h) \<Rightarrow> ((Some (AnError up), DoNotCache, Some (Upstream up)), h)
     | (Inr vm, h) \<Rightarrow>
         let decision = CheckState (ac_Action call) (Status vm) (ac_VMID call) in
         if \<not> Execute decision then
           ((Some (AnExecution \<lparr>ex_Message = decision_Message decision, ex_VM = Some vm,
               ex_Result = zero_Result, ex_Executed = False\<rparr>), Cache, None), h)
         else
           (case mutate requestID (ac_Action call) (ac_VMID call) h of
              (Inl up, h) \<Rightarrow>
                ((Some (AnError up), if Unknown up then Cache else DoNotCache, Some (Upstream up)), h)
            | (Inr accepted, h) \<Rightarrow>
                ((Some (AnExecution \<lparr>ex_Message = Submitted (ac_Action call) (ac_VMID call), ex_VM = None,
                    ex_Result = accepted, ex_Executed = True\<rparr>), Cache, None), h)))"

definition action_key :: "ActionCall \<Rightarrow> string" where
  "action_key call = ac_Action call @ '':'' @ FormatInt (ac_VMID call)"

text \<open>A type assertion that fails is a panic.\<close>

datatype completion = Panic | Completed "apierror + ResponseBody"

text \<open>From the result of the deduplication to the answer.\<close>

definition answer ::
  "ServiceConfig \<Rightarrow> call_env \<Rightarrow> ActionCall \<Rightarrow> string list \<Rightarrow> (any_value, any_error) DoResult \<Rightarrow> completion"
where
  "answer cfg env call warnings result =
    (case Err result of
       Some (Upstream up) \<Rightarrow> Completed (Inl (toAPIError up))
     | Some (Ended e) \<Rightarrow>
         Completed (Inl (OpenAI ''upstream_request_failed'' (''Infrastructure '' @ utf8 [0x8BF7,
             0x6C42, 0x5931, 0x8D25, 0x3002]) '''' 502 (Some e)))
     | None \<Rightarrow>
         (case Value result of
            Some (AnExecution exec) \<Rightarrow>
              Completed (Inr (NewResponse (ce_random env) (ce_unix env) (sc_ModelID cfg) call (ex_Message exec)
                \<lparr>mr_Executed = ex_Executed exec \<and> \<not> Deduplicated result,
                 mr_Deduplicated = Deduplicated result,
                 mr_UpstreamStatus = res_Status (ex_Result exec), mr_Result = ex_VM exec\<rparr> warnings))
          | _ \<Rightarrow> Panic))"

text \<open>The checks before anything is sent: the analysed input, with the warnings put back.\<close>

definition prepare ::
  "ServiceConfig \<Rightarrow> call_env \<Rightarrow> ChatCompletionRequest \<Rightarrow> apierror + Input"
where
  "prepare cfg env request =
    (if \<not> ce_ready env
     then Inl (OpenAI ''model_not_ready'' (''Granite '' @ utf8 [0x6A21, 0x578B, 0x5C1A, 0x672A,
         0x5C31, 0x7EEA, 0x3002]) '''' 503 None)
     else
       andThen (ExtractInput request (sc_MaxMessageLength cfg)) (\<lambda>input.
       if req_Model request \<noteq> sc_ModelID cfg
       then Inl (OpenAI ''model_not_found'' ''The requested model does not exist.'' ''model'' 404 None)
       else
         let warnings = in_Warnings input in
         andThen (AnalyzeInput (in_Original input)) (\<lambda>input.
         Inr (input\<lparr>in_Warnings := warnings\<rparr>))))"

text \<open>What is done with a call that has passed all checks.\<close>

definition perform ::
  "get_op \<Rightarrow> mutate_op \<Rightarrow> ServiceConfig \<Rightarrow> call_env \<Rightarrow> string \<Rightarrow> ActionCall \<Rightarrow> string list
    \<Rightarrow> service_store \<Rightarrow> history \<Rightarrow> completion \<times> service_store \<times> history"
where
  "perform get mutate cfg env requestID call warnings st h =
    (if ac_Action call = ActionGet then
       (case get requestID (ac_VMID call) h of
          (Inl up, h) \<Rightarrow> (Completed (Inl (toAPIError up)), st, h)
        | (Inr vm, h) \<Rightarrow>
            (Completed (Inr (NewResponse (ce_random env) (ce_unix env) (sc_ModelID cfg) call
               (VMStatus (VMID vm) (Name vm) (Status vm) (vm_Uptime vm))
               \<lparr>mr_Executed = False, mr_Deduplicated = False, mr_UpstreamStatus = 200,
                mr_Result = Some vm\<rparr> warnings)), st, h))
     else
       (case Do (action_key call) (ce_now env) (ce_later env) (ce_gone env, Ended (ce_ctxErr env))
               (run_action get mutate requestID call) st h of
          (result, st, h) \<Rightarrow> (answer cfg env call warnings result, st, h)))"

definition Complete ::
  "select_op \<Rightarrow> get_op \<Rightarrow> mutate_op \<Rightarrow> ServiceConfig \<Rightarrow> call_env \<Rightarrow> string \<Rightarrow> ChatCompletionRequest
    \<Rightarrow> service_store \<Rightarrow> history \<Rightarrow> completion \<times> service_store \<times> history"
where
  "Complete select get mutate cfg env requestID request st h =
    (case prepare cfg env request of
       Inl err \<Rightarrow> (Completed (Inl err), st, h)
     | Inr input \<Rightarrow>
         (case select (in_Original input) (GraniteTools (sc_AllowForceStop cfg)) h of
            (Inl err, h) \<Rightarrow> (Completed (Inl err), st, h)
          | (Inr call, h) \<Rightarrow>
              (case ValidateToolCall (ce_order1 env) (ce_order2 env) input call (sc_AllowForceStop cfg) of
                 Inl err \<Rightarrow> (Completed (Inl err), st, h)
               | Inr actionCall \<Rightarrow>
                   perform get mutate cfg env requestID actionCall (in_Warnings input) st h)))"

section \<open>What a request sends\<close>

lemma sum_case_pair:
  "(case x of (Inl e, h) \<Rightarrow> f e h | (Inr v, h) \<Rightarrow> g v h) = (case fst x of Inl e \<Rightarrow> f e (snd x) | Inr v \<Rightarrow> g v (snd x))"
  by (cases x; cases "fst x") auto

text \<open>
  A change that was sent for a call: the POST for its action and VM, after a query whose
  answer told of a VM in the state that the action requires.
\<close>

definition checked_change :: "string \<Rightarrow> ActionCall \<Rightarrow> exchange list \<Rightarrow> exchange \<Rightarrow> bool" where
  "checked_change base call before x \<longleftrightarrow>
    req_Method (fst x) = ''POST'' \<and>
    req_URL (fst x) = base @ vm_path (ac_VMID call) @ ''/'' @ ac_Action call \<and>
    (\<exists>req resp vm. before = [(req, Answer resp)] \<and> req_Method req = ''GET'' \<and>
       req_URL req = base @ vm_path (ac_VMID call) \<and> read_VM resp (ac_VMID call) = Inr vm \<and>
       Execute (CheckState (ac_Action call) (Status vm) (ac_VMID call)))"

definition answered_no :: "exchange \<Rightarrow> bool" where
  "answered_no x \<longleftrightarrow> (case snd x of Failure t d \<Rightarrow> False | Answer resp \<Rightarrow> StatusCode resp \<noteq> 202)"

context infrastructure
begin

lemma run_action_cases:
  assumes "run_action get mutate rid call h = ((v, p, e), h')"
  obtains (query) k where "h' = h @ k" "\<And>ep. changes ep k = []" "length k \<le> 1"
  | (change) k x where "h' = h @ k @ [x]" "\<And>ep. changes ep k = []" "checked_change base call k x"
      "\<not> answered_no x \<Longrightarrow> p = Cache"
proof -
  obtain g h1 where g: "get rid (ac_VMID call) h = (g, h1)" by (cases "get rid (ac_VMID call) h")
  show ?thesis
  proof (cases g)
    case (Inl up)
    then have "h' = h1" using assms g by (simp add: run_action_def)
    from g show ?thesis
    proof (cases rule: get_changes)
      case (1 k)
      then show ?thesis using query [of k] \<open>h' = h1\<close> by simp
    qed
  next
    case (Inr vm)
    obtain req resp where r: "h1 = h @ [(req, Answer resp)]" "req_Method req = ''GET''"
      "req_URL req = base @ vm_path (ac_VMID call)" "read_VM resp (ac_VMID call) = Inr vm"
      using get_vm [OF g [unfolded Inr]] by blast
    have c: "changes ep [(req, Answer resp)] = []" for ep using r(2) by (simp add: changes_def is_change_def)
    let ?d = "CheckState (ac_Action call) (Status vm) (ac_VMID call)"
    show ?thesis
    proof (cases "Execute ?d")
      case False
      then have "h' = h1" using assms g Inr by (simp add: run_action_def Let_def)
      then show ?thesis using query [of "[(req, Answer resp)]"] r(1) c by simp
    next
      case True
      obtain m h2 where m: "mutate rid (ac_Action call) (ac_VMID call) h1 = (m, h2)"
        by (cases "mutate rid (ac_Action call) (ac_VMID call) h1")
      have h': "h' = h2" using assms g Inr True m by (auto simp: run_action_def Let_def split: sum.splits)
      from m show ?thesis
      proof (cases rule: mutate_changes)
        case 1
        then show ?thesis using query [of "[(req, Answer resp)]"] r(1) c h' by simp
      next
        case (2 preq out)
        have p: "p = Cache" if n: "\<not> answered_no (preq, out)"
        proof (cases m)
          case (Inl up)
          from mutate_failed [OF m [unfolded Inl]] 2(1) n have "Unknown up"
            by (auto simp: answered_no_def split: outcome.splits)
          then show ?thesis using assms g Inr True m Inl by (simp add: run_action_def Let_def)
        next
          case (Inr res)
          then show ?thesis using assms g \<open>g = Inr vm\<close> True m by (simp add: run_action_def Let_def)
        qed
        show ?thesis
        proof (rule change)
          show "h' = h @ [(req, Answer resp)] @ [(preq, out)]" using 2 r(1) h' by simp
          show "checked_change base call [(req, Answer resp)] (preq, out)"
            using 2 r True by (auto simp: checked_change_def)
        qed (use c p in auto)
      qed
    qed
  qed
qed

lemma perform_cases:
  assumes "wf_store st" "perform get mutate cfg env rid call ws st h = (c, st', h')"
  obtains (query) k where "h' = h @ k" "\<And>ep. changes ep k = []" "length k \<le> 1"
  | (change) k x where "h' = h @ k @ [x]" "\<And>ep. changes ep k = []" "checked_change base call k x"
proof (cases "ac_Action call = ActionGet")
  case True
  then have "\<exists>g. get rid (ac_VMID call) h = (g, h')"
    using assms(2) by (auto simp: perform_def split: prod.splits sum.splits)
  then obtain g where "get rid (ac_VMID call) h = (g, h')" by blast
  then show ?thesis
  proof (cases rule: get_changes)
    case (1 k)
    then show ?thesis by (rule query)
  qed
next
  case False
  then obtain r where d: "Do (action_key call) (ce_now env) (ce_later env) (ce_gone env, Ended (ce_ctxErr env))
      (run_action get mutate rid call) st h = (r, st', h')"
    using assms(2) by (auto simp: perform_def split: prod.splits)
  from once.call_runs [OF assms(1) d] show ?thesis
  proof
    assume "Deduplicated r \<and> h' = h"
    then show ?thesis using query [of "[]"] by simp
  next
    assume "\<not> Deduplicated r \<and> (\<exists>p. run_action get mutate rid call h = ((Value r, p, Err r), h'))"
    then obtain p where "run_action get mutate rid call h = ((Value r, p, Err r), h')" by blast
    then show ?thesis
    proof (cases rule: run_action_cases)
      case (query k)
      then show ?thesis by (rule that(1))
    next
      case (change k x)
      from change(1-3) show ?thesis by (rule that(2))
    qed
  qed
qed

end

locale managed_service = selector select endpoint + infrastructure get mutate base
  for select :: select_op and endpoint :: string and get :: get_op and mutate :: mutate_op and base :: string
begin

lemma select_changes:
  assumes "select message tools h = (r, h')"
  obtains k where "h' = h @ k" "changes endpoint k = []" "length k \<le> 1"
proof -
  consider "h' = h" | req out where "h' = h @ [(req, out)]" "req_URL req = endpoint"
    using select_sends [OF assms] by blast
  then show ?thesis
  proof cases
    case 1
    then show ?thesis by (intro that [of "[]"]) simp_all
  next
    case 2
    then show ?thesis by (intro that [of "[(req, out)]"]) (simp_all add: changes_def is_change_def)
  qed
qed

text \<open>A request goes through the checks and the model before anything else is sent.\<close>

lemma Complete_cases:
  assumes "Complete select get mutate cfg env rid request st h = (c, st', h')"
  obtains (stopped) k e where "h' = h @ k" "changes endpoint k = []" "length k \<le> 1" "st' = st"
      "c = Completed (Inl e)"
  | (performed) k input tc call where "prepare cfg env request = Inr input"
      "select (in_Original input) (GraniteTools (sc_AllowForceStop cfg)) h = (Inr tc, h @ k)"
      "ValidateToolCall (ce_order1 env) (ce_order2 env) input tc (sc_AllowForceStop cfg) = Inr call"
      "changes endpoint k = []" "length k \<le> 1"
      "perform get mutate cfg env rid call (in_Warnings input) st (h @ k) = (c, st', h')"
proof (cases "prepare cfg env request")
  case (Inl e)
  then show ?thesis using assms stopped [of "[]" e] by (simp add: Complete_def)
next
  case (Inr input)
  note prep = this
  obtain s h1 where s: "select (in_Original input) (GraniteTools (sc_AllowForceStop cfg)) h = (s, h1)"
    by (cases "select (in_Original input) (GraniteTools (sc_AllowForceStop cfg)) h")
  obtain k where k: "h1 = h @ k" "changes endpoint k = []" "length k \<le> 1"
    by (rule select_changes [OF s])
  show ?thesis
  proof (cases s)
    case (Inl e)
    then show ?thesis using assms stopped [of k e] prep s k by (simp add: Complete_def)
  next
    case (Inr tc)
    note tc = this
    show ?thesis
    proof (cases "ValidateToolCall (ce_order1 env) (ce_order2 env) input tc (sc_AllowForceStop cfg)")
      case (Inl e)
      then show ?thesis using assms stopped [of k e] prep s k tc by (simp add: Complete_def)
    next
      case (Inr call)
      then show ?thesis using assms performed [of input tc k call] prep s k tc by (simp add: Complete_def)
    qed
  qed
qed

end

lemma prepare_Inr:
  assumes "prepare cfg env request = Inr input"
  shows "ce_ready env" "req_Model request = sc_ModelID cfg"
    "\<exists>inp0. ExtractInput request (sc_MaxMessageLength cfg) = Inr inp0 \<and>
       AnalyzeInput (in_Original inp0) = Inr (input\<lparr>in_Warnings := []\<rparr>) \<and>
       in_Warnings input = in_Warnings inp0"
proof -
  obtain inp0 inp1 where p: "ce_ready env" "req_Model request = sc_ModelID cfg"
    "ExtractInput request (sc_MaxMessageLength cfg) = Inr inp0"
    "AnalyzeInput (in_Original inp0) = Inr inp1" "input = inp1\<lparr>in_Warnings := in_Warnings inp0\<rparr>"
    using assms by (auto simp: prepare_def Let_def andThen_Inr_iff split: if_splits)
  then show "ce_ready env" "req_Model request = sc_ModelID cfg" by simp_all
  have "in_Warnings inp1 = []" using AnalyzeInput_fields(5) [OF p(4)] .
  then have "input\<lparr>in_Warnings := []\<rparr> = inp1" by (simp add: p(5))
  then show "\<exists>inp0. ExtractInput request (sc_MaxMessageLength cfg) = Inr inp0 \<and>
       AnalyzeInput (in_Original inp0) = Inr (input\<lparr>in_Warnings := []\<rparr>) \<and>
       in_Warnings input = in_Warnings inp0"
    using p by auto
qed

interpretation svc: managed_service "Select net gc" "gc_endpoint gc" "GetVM net ic" "Mutate net ic" "ic_baseURL ic"
  for net gc ic
  by unfold_locales

section \<open>The values in the store\<close>

text \<open>A run without an error hands out an execution, so that the type assertion holds.\<close>

definition well_typed :: "any_value option \<Rightarrow> any_error option \<Rightarrow> bool" where
  "well_typed v e \<longleftrightarrow> (e = None \<longrightarrow> (\<exists>exec. v = Some (AnExecution exec)))"

definition typed_store :: "service_store \<Rightarrow> bool" where
  "typed_store st \<longleftrightarrow> (\<forall>k v e t. slot_of st k = Held v e t \<longrightarrow> well_typed v e)"

definition service_ok :: "service_store \<Rightarrow> bool" where
  "service_ok st \<longleftrightarrow> wf_store st \<and> typed_store st"

lemma service_ok_new: "service_ok (NewService cfg)"
  by (simp add: service_ok_def typed_store_def NewService_def wf_new_store)

lemma run_action_typed:
  "run_action get mutate rid call h = ((v, p, e), h') \<Longrightarrow> well_typed v e"
  by (auto simp: run_action_def well_typed_def Let_def split: prod.splits sum.splits if_splits)

text \<open>What \<open>Do\<close> hands out: the result of its own run, what the key holds, or a canceled wait.\<close>

lemma Do_result:
  assumes "wf_store st" "Do k now later c fn st w = (r, st', w')"
  shows "Deduplicated r \<and> st' = st \<and> w' = w \<and>
      (r = canceled (snd c) \<or> (\<exists>t. slot_of st k = Held (Value r) (Err r) t)) \<or>
    \<not> Deduplicated r \<and> (\<exists>p. fn w = ((Value r, p, Err r), w') \<and>
      slot_of st' = (slot_of st)(k := (case p of Cache \<Rightarrow> Held (Value r) (Err r) (later + window st)
                                        | DoNotCache \<Rightarrow> Free)))"
proof (cases "blocks (slot_of st k) now")
  case True
  then obtain a where a: "entries st k = Some a" and e: "enter k now st = (Wait a, st)"
    by (auto simp: enter_Wait slot_of_def blocks_def split: option.splits)
  have "e_done (heap st ! a) \<Longrightarrow> \<exists>t. slot_of st k = Held (e_value (heap st ! a)) (e_err (heap st ! a)) t"
    using wf_expires [OF assms(1) a] a by (auto simp: slot_of_def)
  then show ?thesis using assms(2) e by (auto simp: Do_def waited_def canceled_def split: if_splits)
next
  case False
  then obtain a s1 where e: "enter k now st = (Run a, s1)" by (simp add: enter_Run)
  obtain v p err where f: "fn w = ((v, p, err), w')" and r: "r = ran v err"
    and s': "st' = finish k a v p err later s1"
    using assms(2) e by (auto simp: Do_def split: prod.splits)
  have en: "entries s1 k = Some a" using e by (auto simp: enter_Run)
  have sl: "slot_of s1 = (slot_of st)(k := Pending)" using enter_slots [OF assms(1) e] by simp
  have "slot_of st' = (slot_of st)(k := (case p of Cache \<Rightarrow> Held v err (later + window st)
                                        | DoNotCache \<Rightarrow> Free))"
    using finish_slots [OF enter_wf [OF assms(1) e] en] enter_window [OF e] s' by (cases p) (simp_all add: sl)
  then show ?thesis using f r by (cases p) (simp_all add: ran_def)
qed

lemma answer_not_Panic:
  "well_typed (Value r) (Err r) \<Longrightarrow> answer cfg env call ws r \<noteq> Panic"
  by (auto simp: answer_def well_typed_def split: option.splits any_error.splits)

lemma canceled_typed: "well_typed (Value (canceled c)) (Err (canceled c))"
  by (simp add: well_typed_def canceled_def)

lemma perform_ok:
  assumes ok: "service_ok st" and p: "perform get mutate cfg env rid call ws st h = (c, st', h')"
  shows "service_ok st' \<and> window st' = window st \<and> c \<noteq> Panic"
proof (cases "ac_Action call = ActionGet")
  case True
  then show ?thesis using p ok by (auto simp: perform_def split: prod.splits sum.splits)
next
  case False
  then obtain r where d: "Do (action_key call) (ce_now env) (ce_later env) (ce_gone env, Ended (ce_ctxErr env))
      (run_action get mutate rid call) st h = (r, st', h')" and c: "c = answer cfg env call ws r"
    using p by (auto simp: perform_def split: prod.splits)
  have wf: "wf_store st" and ty: "\<And>k v e t. slot_of st k = Held v e t \<Longrightarrow> well_typed v e"
    using ok by (auto simp: service_ok_def typed_store_def)
  have wf': "wf_store st' \<and> window st' = window st" using once.call_good [OF wf d] .
  have r: "well_typed (Value r) (Err r)"
    using Do_result [OF wf d] ty canceled_typed run_action_typed by blast
  have "typed_store st'"
  proof -
    have "well_typed v e" if s: "slot_of st' k = Held v e t" for k v e t
    proof -
      consider "slot_of st' = slot_of st"
        | q where "slot_of st' = (slot_of st)(action_key call := q)"
            "q = Free \<or> (\<exists>u. q = Held (Value r) (Err r) u)"
      proof (cases "Deduplicated r")
        case True
        then show ?thesis using that(1) Do_result [OF wf d] by blast
      next
        case False
        then obtain p where "slot_of st' = (slot_of st)(action_key call :=
            (case p of Cache \<Rightarrow> Held (Value r) (Err r) (ce_later env + window st) | DoNotCache \<Rightarrow> Free))"
          using Do_result [OF wf d] by blast
        then show ?thesis by (rule that(2)) (cases p; simp)
      qed
      then show ?thesis using s ty r by cases (auto split: if_splits)
    qed
    then show ?thesis by (simp add: typed_store_def)
  qed
  then show ?thesis using wf' r c answer_not_Panic by (simp add: service_ok_def)
qed

lemma Complete_ok:
  assumes ok: "service_ok st"
    and c: "Complete select get mutate cfg env rid request st h = (c, st', h')"
  shows "service_ok st' \<and> window st' = window st \<and> c \<noteq> Panic"
proof (cases "(\<exists>e. c = Completed (Inl e)) \<and> st' = st")
  case True
  then show ?thesis using ok by auto
next
  case False
  then obtain call ws h1 where "perform get mutate cfg env rid call ws st h1 = (c, st', h')"
    using c by (auto simp: Complete_def split: sum.splits prod.splits)
  then show ?thesis by (rule perform_ok [OF ok])
qed

section \<open>Requests one after the other\<close>

text \<open>
  The requests of a run with, for each, its environment, the exchanges that it made and its
  completion.
\<close>

fun serve_all ::
  "select_op \<Rightarrow> get_op \<Rightarrow> mutate_op \<Rightarrow> ServiceConfig \<Rightarrow> (call_env \<times> string \<times> ChatCompletionRequest) list
    \<Rightarrow> service_store \<Rightarrow> history \<Rightarrow> (call_env \<times> history \<times> completion) list"
where
  "serve_all select get mutate cfg [] st h = []"
| "serve_all select get mutate cfg ((env, rid, request) # requests) st h =
    (case Complete select get mutate cfg env rid request st h of
       (c, st', h') \<Rightarrow>
         (env, drop (length h) h', c) # serve_all select get mutate cfg requests st' h')"

lemma serve_all_no_Panic:
  "service_ok st \<Longrightarrow> (env, new, c) \<in> set (serve_all select get mutate cfg requests st h) \<Longrightarrow> c \<noteq> Panic"
proof (induction select get mutate cfg requests st h rule: serve_all.induct)
  case (2 select get mutate cfg env' rid request requests st h)
  obtain c' st' h' where c: "Complete select get mutate cfg env' rid request st h = (c', st', h')"
    by (cases "Complete select get mutate cfg env' rid request st h")
  note ok = Complete_ok [OF "2.prems"(1) c]
  have "service_ok st'" "c' \<noteq> Panic" using ok by simp_all
  then show ?case using "2.prems"(2) "2.IH" [OF c [symmetric] refl] c by auto
qed simp

text \<open>
  No request of any run ends in a panic, whatever the model, the infrastructure service and
  the clock do: the value that the store hands out is always of the type that the service
  asserts.
\<close>

lemma requests_never_panic:
  assumes "(env, new, c) \<in> set (serve_all select get mutate cfg requests (NewService cfg) h)"
  shows "c \<noteq> Panic"
  by (rule serve_all_no_Panic [OF service_ok_new assms])

section \<open>Changes\<close>

lemma changes_of_Complete:
  assumes "wf_store st"
    and "Complete (Select net gc) (GetVM net ic) (Mutate net ic) cfg env rid request st h = (c, st', h')"
  obtains (none) new where "h' = h @ new" "changes (gc_endpoint gc) new = []" "length new \<le> 2"
  | (one) input tc call k1 k2 x where "prepare cfg env request = Inr input"
      "ValidateToolCall (ce_order1 env) (ce_order2 env) input tc (sc_AllowForceStop cfg) = Inr call"
      "h' = h @ k1 @ k2 @ [x]" "length k1 \<le> 1" "changes (gc_endpoint gc) (k1 @ k2) = []"
      "checked_change (ic_baseURL ic) call k2 x"
  using assms(2)
proof (cases rule: svc.Complete_cases)
  case (stopped k e)
  then show ?thesis using none [of k] by simp
next
  case (performed k input tc call)
  from assms(1) performed(6) show ?thesis
  proof (cases rule: client.perform_cases)
    case (query k')
    then show ?thesis using none [of "k @ k'"] performed by simp
  next
    case (change k' x)
    then show ?thesis using one [of input tc call k k' x] performed by simp
  qed
qed

lemma checked_change_sent:
  assumes "checked_change base call k2 x"
  obtains req resp vm where "k2 = [(req, Answer resp)]" "req_Method req = ''GET''"
    "req_URL req = base @ vm_path (ac_VMID call)" "read_VM resp (ac_VMID call) = Inr vm"
    "Execute (CheckState (ac_Action call) (Status vm) (ac_VMID call))"
    "req_Method (fst x) = ''POST''" "req_URL (fst x) = base @ vm_path (ac_VMID call) @ ''/'' @ ac_Action call"
  using assms unfolding checked_change_def by blast

text \<open>
  C7. A request sends at most three requests of its own, to the model, the query and the change,
  and never more than one change; a change that was sent is the last of them and is not repeated,
  whatever becomes of it.
\<close>

theorem at_most_one_change:
  assumes "wf_store st"
    and "Complete (Select net gc) (GetVM net ic) (Mutate net ic) cfg env rid request st h = (c, st', h')"
  shows "\<exists>new. h' = h @ new \<and> length new \<le> 3 \<and> length (changes (gc_endpoint gc) new) \<le> 1 \<and>
    list_all (\<lambda>x. \<not> is_change (gc_endpoint gc) x) (butlast new)"
  using assms
proof (cases rule: changes_of_Complete)
  case (none new)
  then have "list_all (\<lambda>x. \<not> is_change (gc_endpoint gc) x) new"
    by (auto simp: changes_def filter_empty_conv list_all_iff)
  then have "list_all (\<lambda>x. \<not> is_change (gc_endpoint gc) x) (butlast new)"
    by (auto simp: list_all_iff dest: in_set_butlastD)
  with none show ?thesis by auto
next
  case (one input tc call k1 k2 x)
  from one(6) obtain y where "k2 = [y]" by (auto elim: checked_change_sent)
  moreover have "list_all (\<lambda>x. \<not> is_change (gc_endpoint gc) x) (k1 @ k2)"
    using one(5) unfolding changes_def filter_empty_conv list_all_iff by blast
  ultimately show ?thesis
    using one by (intro exI [of _ "k1 @ k2 @ [x]"]) (auto simp: changes_def butlast_append)
qed

text \<open>The conditions under which the service may change a VM for a text.\<close>

definition safe_command :: "string \<Rightarrow> bool \<Rightarrow> Action \<Rightarrow> int64 \<Rightarrow> bool" where
  "safe_command text force a v \<longleftrightarrow>
    a \<in> {ActionStart, ActionShutdown, ActionStop, ActionReboot} \<and> 0 < v \<and>
    (\<exists>d. maximal_run d text) \<and> (\<forall>d. maximal_run d text \<longrightarrow> ParseInt d = Some v) \<and>
    (\<exists>m \<in> set (Evidence (fst (Metadata a))). sublist m text) \<and>
    (\<forall>m \<in> set negations \<union> set conditions \<union> set batches. \<not> sublist m text) \<and>
    (a = ActionStop \<longrightarrow> force)"

lemma prepared_safe:
  assumes p: "prepare cfg env request = Inr input"
    and o: "set (ce_order1 env) = set actions" "set (ce_order2 env) = set actions"
    and v: "ValidateToolCall (ce_order1 env) (ce_order2 env) input tc force = Inr call"
    and e: "Execute (CheckState (ac_Action call) s v')"
  shows "\<exists>earlier msg value. req_Messages request = earlier @ [msg] \<and> msg_Role msg = ''user'' \<and>
    finalUserText (msg_Content msg) = Some value \<and>
    safe_command (TrimSpace value) force (ac_Action call) (ac_VMID call)"
proof -
  obtain inp0 where i: "ExtractInput request (sc_MaxMessageLength cfg) = Inr inp0"
    "AnalyzeInput (in_Original inp0) = Inr (input\<lparr>in_Warnings := []\<rparr>)"
    using prepare_Inr [OF p] by blast
  obtain earlier msg "value" where m: "req_Messages request = earlier @ [msg]" "msg_Role msg = ''user''"
    "finalUserText (msg_Content msg) = Some value" "in_Original inp0 = TrimSpace value"
    using i(1) unfolding ExtractInput_iff by auto
  let ?t = "TrimSpace value"
  have t: "TrimSpace ?t = ?t" by (rule TrimSpace_idem)
  have f: "in_Original input = ?t"
    "in_HasNegation input \<longleftrightarrow> (\<exists>m \<in> set negations. sublist m ?t)"
    using AnalyzeInput_fields [OF i(2)] by (simp_all add: m(4) t)
  have a: "0 < in_VMID input \<and> (\<exists>d. maximal_run d ?t) \<and>
      (\<forall>d. maximal_run d ?t \<longrightarrow> ParseInt d = Some (in_VMID input)) \<and>
      (\<forall>m \<in> set conditions \<union> set batches. \<not> sublist m ?t)"
    using i(2) [unfolded AnalyzeInput_iff] by (simp add: m(4) t)
  have mu: "ac_Action call \<in> {ActionStart, ActionShutdown, ActionStop, ActionReboot}"
    using e unfolding CheckState_Execute by blast
  then have mut: "Mutation (fst (Metadata (ac_Action call)))" using Mutation_iff by blast
  note val = ValidateToolCall_fields [OF o v]
  have "safe_command ?t force (ac_Action call) (ac_VMID call)"
    unfolding safe_command_def
    using mu a f val(2,3,5) val(4) [OF mut] by auto
  with m show ?thesis by blast
qed

text \<open>
  A change \<open>x\<close> among the exchanges \<open>new\<close> of a request, sent to the service at \<open>base\<close>: the
  text of the last message allows it, and it follows a query that told the required state.
\<close>

definition safe_change :: "ChatCompletionRequest \<Rightarrow> bool \<Rightarrow> string \<Rightarrow> exchange list \<Rightarrow> exchange \<Rightarrow> bool" where
  "safe_change request force base new x \<longleftrightarrow> (\<exists>earlier msg value a v before req resp vm.
    req_Messages request = earlier @ [msg] \<and> msg_Role msg = ''user'' \<and>
    finalUserText (msg_Content msg) = Some value \<and>
    safe_command (TrimSpace value) force a v \<and>
    req_URL (fst x) = base @ vm_path v @ ''/'' @ a \<and>
    new = before @ [(req, Answer resp), x] \<and>
    req_Method req = ''GET'' \<and> req_URL req = base @ vm_path v \<and>
    read_VM resp v = Inr vm \<and> Status vm = RequiredState (fst (Metadata a)))"

lemma change_is_safe:
  assumes "wf_store st" "set (ce_order1 env) = set actions" "set (ce_order2 env) = set actions"
    and "Complete (Select net gc) (GetVM net ic) (Mutate net ic) cfg env rid request st h = (c, st', h')"
    and "x \<in> set (changes (gc_endpoint gc) (drop (length h) h'))"
  shows "safe_change request (sc_AllowForceStop cfg) (ic_baseURL ic) (drop (length h) h') x"
  using assms(1,4)
proof (cases rule: changes_of_Complete)
  case (none new)
  then show ?thesis using assms(5) by simp
next
  case (one input tc call k1 k2 y)
  have xy: "x = y" using assms(5) one(3,5) by (auto simp: changes_def filter_empty_conv split: if_splits)
  from one(6) obtain req resp vm where k2: "k2 = [(req, Answer resp)]" "req_Method req = ''GET''"
    "req_URL req = ic_baseURL ic @ vm_path (ac_VMID call)" "read_VM resp (ac_VMID call) = Inr vm"
    "Execute (CheckState (ac_Action call) (Status vm) (ac_VMID call))"
    "req_URL (fst y) = ic_baseURL ic @ vm_path (ac_VMID call) @ ''/'' @ ac_Action call"
    by (rule checked_change_sent) blast
  obtain earlier msg "value" where s: "req_Messages request = earlier @ [msg]" "msg_Role msg = ''user''"
    "finalUserText (msg_Content msg) = Some value"
    "safe_command (TrimSpace value) (sc_AllowForceStop cfg) (ac_Action call) (ac_VMID call)"
    using prepared_safe [OF one(1) assms(2,3) one(2) k2(5)] by blast
  have "Status vm = RequiredState (fst (Metadata (ac_Action call)))"
    using k2(5) unfolding CheckState_Execute by auto
  then show ?thesis unfolding safe_change_def using s k2 one(3) xy
    by (intro exI [of _ earlier] exI [of _ msg] exI [of _ "value"] exI [of _ "ac_Action call"]
        exI [of _ "ac_VMID call"] exI [of _ k1] exI [of _ req] exI [of _ resp] exI [of _ vm]) simp
qed

text \<open>
  C5. Whenever the service sends a change, for any answers of the model and the infrastructure
  service: the text of the last message, a user's, names this one VM by number and carries an
  evidence word of this very action, no negation, condition or sequence; a forced stop is
  enabled; and the answer to a query sent just before told that the VM is in the state that
  the action requires.
\<close>

theorem change_only_when_safe:
  assumes "wf_store st" "set (ce_order1 env) = set actions" "set (ce_order2 env) = set actions"
    and "Complete (Select net gc) (GetVM net ic) (Mutate net ic) cfg env rid request st h = (c, st', h')"
    and "x \<in> set (changes (gc_endpoint gc) (drop (length h) h'))"
  shows "\<exists>earlier msg value a v before req resp vm.
    req_Messages request = earlier @ [msg] \<and> msg_Role msg = ''user'' \<and>
    finalUserText (msg_Content msg) = Some value \<and>
    safe_command (TrimSpace value) (sc_AllowForceStop cfg) a v \<and>
    req_URL (fst x) = ic_baseURL ic @ vm_path v @ ''/'' @ a \<and>
    drop (length h) h' = before @ [(req, Answer resp), x] \<and>
    req_Method req = ''GET'' \<and> req_URL req = ic_baseURL ic @ vm_path v \<and>
    read_VM resp v = Inr vm \<and> Status vm = RequiredState (fst (Metadata a))"
  using change_is_safe [OF assms] unfolding safe_change_def .

section \<open>No change is sent twice\<close>

lemma Do_blocked_or_free:
  assumes "wf_store st" "Do k now later c fn st w = (r, st', w')"
  shows "(st' = st \<and> w' = w) \<or> (\<not> blocks (slot_of st k) now \<and> wf_store st' \<and> (\<exists>v p e. fn w = ((v, p, e), w') \<and>
      slot_of st' = (slot_of st)(k := (case p of Cache \<Rightarrow> Held v e (later + window st) | DoNotCache \<Rightarrow> Free))))"
proof (cases "blocks (slot_of st k) now")
  case True
  then show ?thesis using Do_busy [OF True assms(2)] by blast
next
  case False
  then have n: "\<not> Deduplicated r" and wf: "wf_store st'"
    using once.free_call [OF assms(1) False assms(2)] by blast+
  with Do_result [OF assms] obtain p where "fn w = ((Value r, p, Err r), w')"
    "slot_of st' = (slot_of st)(k := (case p of Cache \<Rightarrow> Held (Value r) (Err r) (later + window st)
                                        | DoNotCache \<Rightarrow> Free))"
    by blast
  then show ?thesis using False wf by blast
qed

lemma Complete_wf:
  assumes "wf_store st" "Complete select get mutate cfg env rid request st h = (c, st', h')"
  shows "wf_store st' \<and> window st' = window st"
proof (cases "st' = st")
  case False
  then obtain k fn h1 r where "Do k (ce_now env) (ce_later env) (ce_gone env, Ended (ce_ctxErr env)) fn st h1 = (r, st', h')"
    using assms(2) by (auto simp: Complete_def perform_def split: sum.splits prod.splits if_splits)
  then show ?thesis by (rule once.call_good [OF assms(1)])
qed (use assms in simp)

text \<open>What one request does to the slots of the store, and the change that it may send.\<close>

lemma Complete_slots:
  assumes wf: "wf_store st"
    and c: "Complete (Select net gc) (GetVM net ic) (Mutate net ic) cfg env rid request st h = (c, st', h')"
  obtains (unchanged) new where "h' = h @ new" "slot_of st' = slot_of st" "changes (gc_endpoint gc) new = []"
  | (ran) new call q where "h' = h @ new" "0 < ac_VMID call"
      "\<not> blocks (slot_of st (action_key call)) (ce_now env)"
      "slot_of st' = (slot_of st)(action_key call := q)"
      "\<And>x. x \<in> set (changes (gc_endpoint gc) new) \<Longrightarrow>
         req_URL (fst x) = ic_baseURL ic @ vm_path (ac_VMID call) @ ''/'' @ ac_Action call \<and>
         (answered_no x \<or> (\<exists>v e. q = Held v e (ce_later env + window st)))"
  using c
proof (cases rule: svc.Complete_cases)
  case (stopped k e)
  show ?thesis by (rule unchanged [of k]) (use stopped in simp_all)
next
  case (performed k input tc call)
  show ?thesis
  proof (cases "ac_Action call = ActionGet")
    case True
    then have s: "st' = st" "\<exists>g. GetVM net ic rid (ac_VMID call) (h @ k) = (g, h')"
      using performed(6) by (auto simp: perform_def split: prod.splits sum.splits)
    then obtain g where "GetVM net ic rid (ac_VMID call) (h @ k) = (g, h')" by blast
    then show ?thesis
    proof (cases rule: client.get_changes)
      case (1 k')
      show ?thesis
      proof (rule unchanged)
        show "h' = h @ (k @ k')" using 1 by simp
        show "slot_of st' = slot_of st" using s by simp
        show "changes (gc_endpoint gc) (k @ k') = []" using 1(2) performed(4) by simp
      qed
    qed
  next
    case False
    then obtain r where d: "Do (action_key call) (ce_now env) (ce_later env) (ce_gone env, Ended (ce_ctxErr env))
        (run_action (GetVM net ic) (Mutate net ic) rid call) st (h @ k) = (r, st', h')"
      using performed(6) by (auto simp: perform_def split: prod.splits)
    have pos: "0 < ac_VMID call"
    proof -
      obtain inp0 :: Input where "AnalyzeInput (in_Original inp0) = Inr (input\<lparr>in_Warnings := []\<rparr>)"
        using prepare_Inr(3) [OF performed(1)] by blast
      from AnalyzeInput_fields(2) [OF this] have "0 < in_VMID input" by simp
      moreover have "ac_VMID call = in_VMID input"
        using performed(3) by (auto simp: ValidateToolCall_def Let_def split: if_splits option.splits)
      ultimately show ?thesis by simp
    qed
    from Do_blocked_or_free [OF wf d] consider "st' = st" "h' = h @ k"
      | v p e where "\<not> blocks (slot_of st (action_key call)) (ce_now env)"
          "run_action (GetVM net ic) (Mutate net ic) rid call (h @ k) = ((v, p, e), h')"
          "slot_of st' = (slot_of st)(action_key call :=
             (case p of Cache \<Rightarrow> Held v e (ce_later env + window st) | DoNotCache \<Rightarrow> Free))"
      by blast
    then show ?thesis
    proof cases
      case 1
      then show ?thesis using unchanged [of k] performed(4) by simp
    next
      case 2
      from 2(2) show ?thesis
      proof (cases rule: client.run_action_cases)
        case (query k')
        then show ?thesis using ran [of "k @ k'" call, OF _ pos 2(1) 2(3)] performed(4) by simp
      next
        case (change k' x)
        have "y = x" if "y \<in> set (changes (gc_endpoint gc) (k @ k' @ [x]))" for y
        proof -
          have "changes (gc_endpoint gc) (k @ k' @ [x]) = changes (gc_endpoint gc) [x]"
            using performed(4) change(2) [of "gc_endpoint gc"] by simp
          then show ?thesis using that by (auto simp: changes_def split: if_splits)
        qed
        then show ?thesis
          using change checked_change_sent [OF change(3)]
          by (intro ran [of "k @ k' @ [x]" call, OF _ pos 2(1) 2(3)]) (auto split: CachePolicy.splits)
      qed
    qed
  qed
qed

text \<open>The address of a change tells the VM and the action.\<close>

lemma FormatInt_slash:
  assumes "0 \<le> v" "0 \<le> w" "FormatInt v @ ''/'' @ a = FormatInt w @ ''/'' @ b"
  shows "v = w \<and> a = b"
proof -
  have s: "\<not> is_digit CHR ''/''" by code_simp
  have t: "takeWhile is_digit (FormatInt x @ ''/'' @ y) = FormatInt x"
    "dropWhile is_digit (FormatInt x @ ''/'' @ y) = ''/'' @ y" if "0 \<le> x" for x y
    using takeWhile_run [OF FormatInt_digits [OF that], of "''/'' @ y"] s by simp_all
  have "FormatInt v = FormatInt w" using t(1) [OF assms(1), of a] t(1) [OF assms(2), of b] assms(3) by simp
  moreover have "''/'' @ a = ''/'' @ b" using t(2) [OF assms(1), of a] t(2) [OF assms(2), of b] assms(3) by simp
  ultimately show ?thesis using FormatInt_inj by simp
qed

lemma action_key_URL:
  assumes "0 \<le> ac_VMID c1" "0 \<le> ac_VMID c2"
    and "base @ vm_path (ac_VMID c1) @ ''/'' @ ac_Action c1 = base @ vm_path (ac_VMID c2) @ ''/'' @ ac_Action c2"
  shows "action_key c1 = action_key c2"
  using FormatInt_slash [OF assms(1,2), of "ac_Action c1" "ac_Action c2"] assms(3)
  by (auto simp: vm_path_def action_key_def)

text \<open>The clock runs on: the readings of the requests, in their order, never decrease.\<close>

fun clock_ok :: "time \<Rightarrow> call_env list \<Rightarrow> bool" where
  "clock_ok t [] = True"
| "clock_ok t (env # envs) \<longleftrightarrow> t \<le> ce_now env \<and> ce_now env \<le> ce_later env \<and> clock_ok (ce_later env) envs"

lemma clock_ok_mono: "clock_ok t envs \<Longrightarrow> env \<in> set envs \<Longrightarrow> t \<le> ce_now env"
  by (induction t envs rule: clock_ok.induct) auto

lemma serve_all_envs:
  "map fst (serve_all sel get mut cfg rs st h) = map fst rs"
  by (induction sel get mut cfg rs st h rule: serve_all.induct) (auto split: prod.splits)

text \<open>While a key is held, no request sends a change for it.\<close>

lemma held_blocks_changes:
  assumes "wf_store st" "slot_of st (action_key call) = Held v e u" "0 \<le> ac_VMID call"
    and "clock_ok t (map fst rs)"
    and "(env, new, c) \<in> set (serve_all (Select net gc) (GetVM net ic) (Mutate net ic) cfg rs st h)"
    and "y \<in> set (changes (gc_endpoint gc) new)"
    and "req_URL (fst y) = ic_baseURL ic @ vm_path (ac_VMID call) @ ''/'' @ ac_Action call"
  shows "u \<le> ce_now env"
  using assms
proof (induction rs arbitrary: st h t)
  case (Cons r rs)
  obtain env0 rid request where r: "r = (env0, rid, request)" by (cases r)
  obtain c0 st' h' where c: "Complete (Select net gc) (GetVM net ic) (Mutate net ic) cfg env0 rid request st h = (c0, st', h')"
    by (cases "Complete (Select net gc) (GetVM net ic) (Mutate net ic) cfg env0 rid request st h")
  have wf': "wf_store st'"
    using Complete_wf [OF Cons.prems(1) c] by simp
  have cl: "clock_ok (ce_later env0) (map fst rs)" "ce_now env0 \<le> ce_later env0" using Cons.prems(4) r by simp_all
  have mono: "ce_now env0 \<le> ce_now env'" if "(env', new', c') \<in> set (serve_all (Select net gc) (GetVM net ic)
      (Mutate net ic) cfg rs st' h')" for env' new' c'
  proof -
    have "env' \<in> set (map fst rs)" using that serve_all_envs by (metis fst_conv image_eqI list.set_map)
    then show ?thesis using clock_ok_mono [OF cl(1)] cl(2) by fastforce
  qed
  have split: "(env, new, c) = (env0, drop (length h) h', c0) \<or>
      (env, new, c) \<in> set (serve_all (Select net gc) (GetVM net ic) (Mutate net ic) cfg rs st' h')"
    using Cons.prems(5) by (simp add: r c)
  show ?case
  proof (cases "u \<le> ce_now env0")
    case True
    then show ?thesis using split mono by fastforce
  next
    case False
    have held: "slot_of st' (action_key call) = Held v e u \<and>
        (\<forall>x \<in> set (changes (gc_endpoint gc) (drop (length h) h')).
           req_URL (fst x) \<noteq> ic_baseURL ic @ vm_path (ac_VMID call) @ ''/'' @ ac_Action call)"
      using Cons.prems(1) c
    proof (cases rule: Complete_slots)
      case (unchanged new)
      then show ?thesis using Cons.prems(2) by simp
    next
      case (ran new call' q)
      have ne: "action_key call' \<noteq> action_key call"
        using ran(3) Cons.prems(2) False by (auto simp: blocks_def)
      have "req_URL (fst x) \<noteq> ic_baseURL ic @ vm_path (ac_VMID call) @ ''/'' @ ac_Action call"
        if x: "x \<in> set (changes (gc_endpoint gc) (drop (length h) h'))" for x
      proof
        assume "req_URL (fst x) = ic_baseURL ic @ vm_path (ac_VMID call) @ ''/'' @ ac_Action call"
        moreover have "req_URL (fst x) = ic_baseURL ic @ vm_path (ac_VMID call') @ ''/'' @ ac_Action call'"
          using ran(5) [of x] x ran(1) by simp
        ultimately have "action_key call' = action_key call"
          using ran(2) Cons.prems(3) by (intro action_key_URL [of _ _ "ic_baseURL ic"]) simp_all
        with ne show False ..
      qed
      then show ?thesis using ran(4) ne Cons.prems(2) by simp
    qed
    then have "(env, new, c) \<in> set (serve_all (Select net gc) (GetVM net ic) (Mutate net ic) cfg rs st' h')"
      using split Cons.prems(6,7) by auto
    then show ?thesis using Cons.IH [OF wf' _ Cons.prems(3) cl(1) _ Cons.prems(6,7)] held by blast
  qed
qed simp

lemma serve_all_no_second_change:
  assumes "wf_store st" "clock_ok t (map fst rs)"
    and "run = serve_all (Select net gc) (GetVM net ic) (Mutate net ic) cfg rs st h"
    and "i < j" "j < length run"
    and "run ! i = (env1, new1, c1)" "run ! j = (env2, new2, c2)"
    and "x \<in> set (changes (gc_endpoint gc) new1)" "\<not> answered_no x"
    and "y \<in> set (changes (gc_endpoint gc) new2)" "req_URL (fst y) = req_URL (fst x)"
  shows "ce_later env1 + window st \<le> ce_now env2"
  using assms
proof (induction rs arbitrary: st h t run i j)
  case (Cons r rs)
  obtain env0 rid request where r: "r = (env0, rid, request)" by (cases r)
  obtain c0 st' h' where c: "Complete (Select net gc) (GetVM net ic) (Mutate net ic) cfg env0 rid request st h = (c0, st', h')"
    by (cases "Complete (Select net gc) (GetVM net ic) (Mutate net ic) cfg env0 rid request st h")
  note wf' = Complete_wf [OF Cons.prems(1) c]
  have cl: "clock_ok (ce_later env0) (map fst rs)" using Cons.prems(2) r by simp
  define run' where "run' = serve_all (Select net gc) (GetVM net ic) (Mutate net ic) cfg rs st' h'"
  have run: "run = (env0, drop (length h) h', c0) # run'" using Cons.prems(3) by (simp add: r c run'_def)
  obtain j' where j: "j = Suc j'" "j' < length run'" "run' ! j' = (env2, new2, c2)"
    using Cons.prems(4,5,7) run by (cases j) auto
  show ?case
  proof (cases i)
    case (Suc i')
    have "ce_later env1 + window st' \<le> ce_now env2"
      by (rule Cons.IH [OF _ cl run'_def, of i' j'])
        (use wf' Suc j run Cons.prems in auto)
    then show ?thesis using wf' by simp
  next
    case 0
    then have e: "env1 = env0" "new1 = drop (length h) h'" using Cons.prems(6) run by simp_all
    from Cons.prems(1) c show ?thesis
    proof (cases rule: Complete_slots)
      case (unchanged new)
      then show ?thesis using Cons.prems(8) e by simp
    next
      case (ran new call q)
      have x: "req_URL (fst x) = ic_baseURL ic @ vm_path (ac_VMID call) @ ''/'' @ ac_Action call"
        and "\<exists>v e. q = Held v e (ce_later env0 + window st)"
        using ran(1) ran(5) [of x] Cons.prems(8,9) e by auto
      then obtain v er where q: "slot_of st' (action_key call) = Held v er (ce_later env0 + window st)"
        using ran(4) by auto
      have "(env2, new2, c2) \<in> set run'" using j nth_mem by metis
      then show ?thesis
        using held_blocks_changes [OF _ q _ cl, of env2 new2 c2 net gc ic cfg h' y] wf' ran(2)
          Cons.prems(10,11) x e unfolding run'_def by simp
    qed
  qed
qed simp

text \<open>
  C4. Within the window after a change was sent, no request of the run sends it again, be it
  accepted or its outcome unknown; only a refusal by the infrastructure service allows a second
  attempt at once. Requests for other VMs or actions in between change nothing about that.
\<close>

theorem no_second_change:
  assumes "clock_ok t (map fst rs)"
    and "run = serve_all (Select net gc) (GetVM net ic) (Mutate net ic) cfg rs (NewService cfg) h"
    and "i < j" "j < length run"
    and "run ! i = (env1, new1, c1)" "run ! j = (env2, new2, c2)"
    and "x \<in> set (changes (gc_endpoint gc) new1)" "\<not> answered_no x"
    and "y \<in> set (changes (gc_endpoint gc) new2)" "req_URL (fst y) = req_URL (fst x)"
  shows "ce_later env1 + sc_DedupWindow cfg \<le> ce_now env2"
proof -
  have "wf_store (NewService cfg)" "window (NewService cfg) = sc_DedupWindow cfg"
    by (simp_all add: NewService_def wf_new_store) (simp add: new_store_def)
  then show ?thesis using serve_all_no_second_change [OF _ assms] by simp
qed

section \<open>What the answer tells\<close>

context infrastructure
begin

lemma run_action_executed:
  assumes "run_action get mutate rid call h = ((Some (AnExecution ex), p, None), h')"
  obtains (changed) k x where "ex_Executed ex" "h' = h @ k @ [x]" "\<And>ep. changes ep k = []" "\<not> answered_no x"
      "\<exists>resp. snd x = Answer resp" "req_Method (fst x) = ''POST''"
      "req_URL (fst x) = base @ vm_path (ac_VMID call) @ ''/'' @ ac_Action call" "ex_VM ex = None" "res_Status (ex_Result ex) = 202"
  | (unchanged) k vm where "\<not> ex_Executed ex" "h' = h @ k" "\<And>ep. changes ep k = []" "ex_VM ex = Some vm" "VMID vm = ac_VMID call"
      "\<not> Execute (CheckState (ac_Action call) (Status vm) (ac_VMID call))" "res_Status (ex_Result ex) = 0"
proof -
  obtain g h1 where g: "get rid (ac_VMID call) h = (g, h1)" by (cases "get rid (ac_VMID call) h")
  obtain vm where vm: "g = Inr vm" using assms g by (cases g) (auto simp: run_action_def)
  obtain k where k: "h1 = h @ k" "\<And>ep. changes ep k = []" by (rule get_changes [OF g]) (rule that)
  let ?d = "CheckState (ac_Action call) (Status vm) (ac_VMID call)"
  show ?thesis
  proof (cases "Execute ?d")
    case False
    then show ?thesis
      using assms g vm k get_vm [OF g [unfolded vm]]
      by (intro unchanged [of k vm]) (auto simp: run_action_def Let_def zero_Result_def)
  next
    case True
    obtain m h2 where m: "mutate rid (ac_Action call) (ac_VMID call) h1 = (m, h2)"
      by (cases "mutate rid (ac_Action call) (ac_VMID call) h1")
    obtain res where r: "m = Inr res" using assms g vm True m by (cases m) (auto simp: run_action_def Let_def)
    from mutate_accepted [OF m [unfolded r]] obtain req resp where a: "res_Status res = 202"
      "h2 = h1 @ [(req, Answer resp)]" "StatusCode resp = 202" "req_Method req = ''POST''"
      "req_URL req = base @ vm_path (ac_VMID call) @ ''/'' @ ac_Action call" by blast
    show ?thesis
      using assms g vm True m r a k
      by (intro changed [of k "(req, Answer resp)"]) (auto simp: run_action_def Let_def answered_no_def)
  qed
qed

end

text \<open>What the metadata of an answer tells about the exchanges that were made for it.\<close>

definition told_truth :: "string \<Rightarrow> string \<Rightarrow> ResponseBody \<Rightarrow> exchange list \<Rightarrow> bool" where
  "told_truth endpoint base resp new \<longleftrightarrow>
    (if gm_Executed (rb_XGranite resp)
     then \<exists>req accepted a. changes endpoint new = [(req, Answer accepted)] \<and> StatusCode accepted = 202 \<and>
       req_Method req = ''POST'' \<and> req_URL req = base @ vm_path (gm_VMID (rb_XGranite resp)) @ ''/'' @ a \<and>
       ToolName (fst (Metadata a)) = gm_Tool (rb_XGranite resp)
     else changes endpoint new = [])"

lemma perform_flags:
  assumes wf: "wf_store st"
    and p: "perform (GetVM net ic) (Mutate net ic) cfg env rid call ws st h = (Completed (Inr resp), st', h')"
    and ep: "\<not> sublist ''/api/v1/pve/vms/'' endpoint"
  shows "\<exists>new. h' = h @ new \<and> told_truth endpoint (ic_baseURL ic) resp new \<and>
    (gm_Deduplicated (rb_XGranite resp) \<longrightarrow> new = [])"
proof (cases "ac_Action call = ActionGet")
  case True
  then obtain g where g: "GetVM net ic rid (ac_VMID call) h = (g, h')"
    using p by (auto simp: perform_def split: prod.splits sum.splits)
  obtain k where k: "h' = h @ k" "changes endpoint k = []" by (rule client.get_changes [OF g]) (rule that)
  have "\<not> gm_Executed (rb_XGranite resp)" "\<not> gm_Deduplicated (rb_XGranite resp)"
    using p True by (auto simp: perform_def split: prod.splits sum.splits)
  with k show ?thesis by (auto simp: told_truth_def)
next
  case False
  then obtain r where d: "Do (action_key call) (ce_now env) (ce_later env) (ce_gone env, Ended (ce_ctxErr env))
      (run_action (GetVM net ic) (Mutate net ic) rid call) st h = (r, st', h')"
    and a: "answer cfg env call ws r = Completed (Inr resp)"
    using p by (auto simp: perform_def split: prod.splits)
  from a obtain ex where ex: "Err r = None" "Value r = Some (AnExecution ex)"
    and resp: "gm_Executed (rb_XGranite resp) \<longleftrightarrow> ex_Executed ex \<and> \<not> Deduplicated r"
      "gm_Deduplicated (rb_XGranite resp) \<longleftrightarrow> Deduplicated r" "gm_VMID (rb_XGranite resp) = ac_VMID call"
      "gm_Tool (rb_XGranite resp) = ToolName (fst (Metadata (ac_Action call)))"
    by (auto simp: answer_def split: option.splits any_error.splits any_value.splits)
  from once.call_runs [OF wf d] show ?thesis
  proof
    assume "Deduplicated r \<and> h' = h"
    then show ?thesis using resp by (auto simp: told_truth_def)
  next
    assume n: "\<not> Deduplicated r \<and> (\<exists>p. run_action (GetVM net ic) (Mutate net ic) rid call h = ((Value r, p, Err r), h'))"
    then obtain p where "run_action (GetVM net ic) (Mutate net ic) rid call h = ((Some (AnExecution ex), p, None), h')"
      using ex by auto
    then show ?thesis
    proof (cases rule: client.run_action_executed)
      case (changed k x)
      have "sublist ''/api/v1/pve/vms/'' (ic_baseURL ic @ ''/api/v1/pve/vms/'' @ FormatInt (ac_VMID call) @ ''/'' @ ac_Action call)"
        by (rule sublist_appendI)
      then have "req_URL (fst x) \<noteq> endpoint" using ep unfolding changed(7) vm_path_def append_assoc by metis
      then have "changes endpoint (k @ [x]) = [x]" using changed(3) changed(6) by (simp add: changes_def is_change_def)
      moreover obtain req accepted where "x = (req, Answer accepted)" "StatusCode accepted = 202"
        using changed(4,5) by (cases x) (auto simp: answered_no_def)
      ultimately show ?thesis
        using changed n resp by (intro exI [of _ "k @ [x]"]) (auto simp: told_truth_def)
    next
      case (unchanged k vm)
      then show ?thesis using n resp by (auto simp: told_truth_def)
    qed
  qed
qed

text \<open>
  C3. The answer never lies about what was done: it says that the action was executed exactly
  when this very request sent one change, for the tool and the VM that it names, and that was
  accepted with 202; otherwise this request has sent no change. An answer that is marked as
  deduplicated cost at most the question to the model.
\<close>

theorem answers_tell_the_truth:
  assumes "wf_store st" "\<not> sublist ''/api/v1/pve/vms/'' (gc_endpoint gc)"
    and "Complete (Select net gc) (GetVM net ic) (Mutate net ic) cfg env rid request st h = (Completed (Inr resp), st', h')"
  shows "\<exists>new. h' = h @ new \<and> told_truth (gc_endpoint gc) (ic_baseURL ic) resp new \<and>
    (gm_Deduplicated (rb_XGranite resp) \<longrightarrow> length new \<le> 1)"
  using assms(3)
proof (cases rule: svc.Complete_cases)
  case (stopped k e)
  then show ?thesis by simp
next
  case (performed k input tc call)
  from perform_flags [OF assms(1) performed(6) assms(2)] obtain new where
    "h' = (h @ k) @ new" "told_truth (gc_endpoint gc) (ic_baseURL ic) resp new"
    "gm_Deduplicated (rb_XGranite resp) \<longrightarrow> new = []" by blast
  then show ?thesis
    using performed(4,5) by (intro exI [of _ "k @ new"]) (auto simp: told_truth_def)
qed

end
