(* ===== verification/ServiceRun.thy ===== *)
theory ServiceRun
  imports Service
begin

text \<open>
  A concrete run of the service, on which the properties of the theory Service are applied:
  a model, an infrastructure service and three requests that can be evaluated.
\<close>

section \<open>A concrete run\<close>

text \<open>
  A model that always chooses to start the VM 3052, an infrastructure service that reports the
  VM as stopped and accepts every change, and three requests for it: at the start, ten seconds
  and forty seconds later, with a window of thirty seconds.
\<close>

definition sample_world :: network where
  "sample_world h req =
    (if req_URL req = gc_endpoint sample_client then model_answer ''pve_vm_start'' start_arguments
     else if req_Method req = ''GET'' then json_response 200 vm_3052
     else json_response 202 '''')"

definition sample_cfg :: ServiceConfig where
  "sample_cfg = \<lparr>sc_ModelID = ''granite-4.0-350m'', sc_MaxMessageLength = 1000, sc_AllowForceStop = False,
     sc_DedupWindow = 30000000000\<rparr>"

definition sample_env :: "time \<Rightarrow> call_env" where
  "sample_env t = \<lparr>ce_ready = True, ce_order1 = actions, ce_order2 = rev actions, ce_now = t,
     ce_later = t + 5, ce_gone = False, ce_ctxErr = ContextError, ce_random = Some ''abcdefghijkl'', ce_unix = 1700000000\<rparr>"

definition sample_Complete :: "call_env \<Rightarrow> service_store \<Rightarrow> history \<Rightarrow> completion \<times> service_store \<times> history" where
  "sample_Complete env = Complete (Select sample_world sample_client) (GetVM sample_world sample_infra)
     (Mutate sample_world sample_infra) sample_cfg env ''id'' sample_request"

definition sample_run :: "(call_env \<times> history \<times> completion) list" where
  "sample_run = serve_all (Select sample_world sample_client) (GetVM sample_world sample_infra)
     (Mutate sample_world sample_infra) sample_cfg
     (map (\<lambda>t. (sample_env t, ''id'', sample_request)) [0, 10000000000, 40000000000])
     (NewService sample_cfg) []"

definition executed_flags :: "completion \<Rightarrow> (bool \<times> bool) option" where
  "executed_flags c = (case c of
     Completed (Inr r) \<Rightarrow> Some (gm_Executed (rb_XGranite r), gm_Deduplicated (rb_XGranite r)) | _ \<Rightarrow> None)"

section \<open>Evaluation of the run\<close>

text \<open>
  The parts are evaluated once each, on closed terms; the request that carries the catalog of
  tools is only named.
\<close>

definition start_3052 :: ActionCall where
  "start_3052 = \<lparr>ac_Action = ActionStart, ac_VMID = 3052\<rparr>"

lemma sample_prepare: "prepare sample_cfg (sample_env t) sample_request = Inr sample_input"
proof -
  have m: "req_Model sample_request = ''granite-4.0-350m''" by (simp add: sample_request_def)
  have "ExtractInput sample_request 1000 =
      Inr \<lparr>in_Original = sample_text, in_VMID = 0, in_HasNegation = False, in_Warnings = []\<rparr>"
    using sample_request_extracted by (simp add: sample_text_def)
  with sample_text_accepted m show ?thesis
    by (simp add: prepare_def sample_env_def sample_cfg_def sample_input_def)
qed

lemma sample_endpoint: "url_Parse (gc_endpoint sample_client) \<noteq> None"
  by code_simp

lemma sample_read_answer:
  "read_answer \<lparr>StatusCode = 200, resp_Header = [], resp_Body = wire_text ''pve_vm_start'' start_arguments,
     resp_BodyError = False\<rparr> = Inr sample_call"
  by code_simp

lemma sample_selected:
  obtains req where "req_URL req = gc_endpoint sample_client"
    "Select sample_world sample_client message tools h =
      (Inr sample_call, h @ [(req, model_answer ''pve_vm_start'' start_arguments)])"
proof -
  obtain req where n: "NewRequest ''POST'' (gc_endpoint sample_client) (select_body sample_client message tools) = Some req"
    using sample_endpoint by (simp add: NewRequest_def)
  show ?thesis
    using NewRequest_fields [OF n] sample_read_answer
    by (intro that [of "header_Set ''Content-Type'' ''application/json'' (header_Set ''Authorization'' (''Bearer '' @ gc_key sample_client) req)"])
      (simp_all add: Select_def n Let_def http_Do_def sample_world_def model_answer_def)
qed

lemma sample_validated:
  "ValidateToolCall (ce_order1 (sample_env t)) (ce_order2 (sample_env t)) sample_input sample_call
     (sc_AllowForceStop sample_cfg) = Inr start_3052"
proof -
  have "ValidateToolCall actions (rev actions) sample_input sample_call False = Inr start_3052" by code_simp
  then show ?thesis by (simp add: sample_env_def sample_cfg_def)
qed

definition sample_vm :: VM where
  "sample_vm = \<lparr>VMID = 3052, Name = ''web'', Status = ''stopped'', vm_Uptime = 0\<rparr>"

definition sample_query :: HttpRequest where
  "sample_query = fst (hd (snd (GetVM sample_world sample_infra ''id'' 3052 [])))"

definition sample_change :: HttpRequest where
  "sample_change = fst (hd (snd (Mutate sample_world sample_infra ''id'' ''start'' 3052 [])))"

lemma sample_query_fields:
  "req_Method sample_query = ''GET'' \<and> req_URL sample_query = ''http://infra:8080/api/v1/pve/vms/3052''"
  by code_simp

lemma sample_change_fields:
  "req_Method sample_change = ''POST'' \<and>
   req_URL sample_change = ''http://infra:8080/api/v1/pve/vms/3052/start''"
  by code_simp


lemma sample_GetVM_any:
  "GetVM sample_world sample_infra ''id'' 3052 h = (Inr sample_vm, h @ [(sample_query, json_response 200 vm_3052)])"
  by code_simp

lemma sample_Mutate_any:
  "Mutate sample_world sample_infra ''id'' ''start'' 3052 h = (Inr \<lparr>res_Status = 202, UpstreamRequestID = ''''\<rparr>, h @ [(sample_change, json_response 202 '''')])"
  by code_simp

text \<open>The execution that the store keeps for a change that was accepted.\<close>

definition sample_execution :: execution where
  "sample_execution = \<lparr>ex_Message = Submitted ''start'' 3052, ex_VM = None,
     ex_Result = \<lparr>res_Status = 202, UpstreamRequestID = ''''\<rparr>, ex_Executed = True\<rparr>"

lemma sample_run_action:
  "run_action (GetVM sample_world sample_infra) (Mutate sample_world sample_infra) ''id'' start_3052 h =
    ((Some (AnExecution sample_execution), Cache, None),
     h @ [(sample_query, json_response 200 vm_3052), (sample_change, json_response 202 '''')])"
proof -
  have "Execute (CheckState ActionStart (Status sample_vm) 3052)" by code_simp
  then show ?thesis
    by (simp add: run_action_def sample_GetVM_any sample_Mutate_any start_3052_def ActionStart_def
        sample_execution_def)
qed

lemma sample_Complete_eq:
  obtains req where "req_URL req = gc_endpoint sample_client"
    "Complete (Select sample_world sample_client) (GetVM sample_world sample_infra)
      (Mutate sample_world sample_infra) sample_cfg (sample_env t) ''id'' sample_request st h =
     (case Do (action_key start_3052) t (t + 5) (False, Ended ContextError)
         (run_action (GetVM sample_world sample_infra) (Mutate sample_world sample_infra) ''id'' start_3052)
         st (h @ [(req, model_answer ''pve_vm_start'' start_arguments)]) of
        (result, st, h) \<Rightarrow> (answer sample_cfg (sample_env t) start_3052 [] result, st, h))"
proof -
  obtain req where r: "req_URL req = gc_endpoint sample_client"
    "Select sample_world sample_client (in_Original sample_input) (GraniteTools (sc_AllowForceStop sample_cfg)) h =
      (Inr sample_call, h @ [(req, model_answer ''pve_vm_start'' start_arguments)])"
    by (rule sample_selected)
  have "ac_Action start_3052 \<noteq> ActionGet" "in_Warnings sample_input = []"
    by (simp_all add: start_3052_def ActionStart_def ActionGet_def sample_input_def)
  moreover have "ce_now (sample_env t) = t" "ce_later (sample_env t) = t + 5" "ce_gone (sample_env t) = False" "ce_ctxErr (sample_env t) = ContextError"
    by (simp_all add: sample_env_def)
  ultimately show ?thesis
    using r by (intro that [of req]) (simp_all add: Complete_def sample_prepare sample_validated perform_def)
qed

text \<open>The stores after the first request and after the last.\<close>

definition held_store :: "time \<Rightarrow> nat \<Rightarrow> service_store \<Rightarrow> bool" where
  "held_store t a st \<longleftrightarrow> entries st (action_key start_3052) = Some a \<and> a < length (heap st) \<and>
    heap st ! a = \<lparr>e_done = True, e_value = Some (AnExecution sample_execution), e_err = None, e_expires = Some t\<rparr> \<and>
    window st = 30000000000"

lemma sample_answers:
  "executed_flags (answer sample_cfg env call ws (ran (Some (AnExecution sample_execution)) None)) = Some (True, False)"
  "executed_flags (answer sample_cfg env call ws
     \<lparr>Value = Some (AnExecution sample_execution), Err = None, Deduplicated = True\<rparr>) = Some (False, True)"
  by (simp_all add: executed_flags_def answer_def ran_def NewResponse_def sample_execution_def Let_def)

text \<open>A request that runs, and one that finds the result of another.\<close>

lemma sample_runs:
  assumes "window st = 30000000000" and "\<not> blocks (slot_of st (action_key start_3052)) t"
  obtains req c st' where "req_URL req = gc_endpoint sample_client"
    "Complete (Select sample_world sample_client) (GetVM sample_world sample_infra)
      (Mutate sample_world sample_infra) sample_cfg (sample_env t) ''id'' sample_request st h =
      (c, st', h @ [(req, model_answer ''pve_vm_start'' start_arguments),
        (sample_query, json_response 200 vm_3052), (sample_change, json_response 202 '''')])"
    "executed_flags c = Some (True, False)" "held_store (t + 30000000005) (length (heap st)) st'"
proof -
  let ?Do = "Do (action_key start_3052) t (t + 5) (False, Ended ContextError)
      (run_action (GetVM sample_world sample_infra) (Mutate sample_world sample_infra) ''id'' start_3052) st"
  have "\<exists>st'. ?Do g = (ran (Some (AnExecution sample_execution)) None, st', g @
      [(sample_query, json_response 200 vm_3052), (sample_change, json_response 202 '''')]) \<and>
      held_store (t + 30000000005) (length (heap st)) st'" for g
    using assms by (auto simp: Do_def enter_def slot_of_def blocks_def sample_run_action finish_def held_store_def
        new_entry_def Let_def split: option.splits)
  note do = this
  obtain req where r: "req_URL req = gc_endpoint sample_client"
    "Complete (Select sample_world sample_client) (GetVM sample_world sample_infra)
      (Mutate sample_world sample_infra) sample_cfg (sample_env t) ''id'' sample_request st h =
     (case ?Do (h @ [(req, model_answer ''pve_vm_start'' start_arguments)]) of
        (result, st, h) \<Rightarrow> (answer sample_cfg (sample_env t) start_3052 [] result, st, h))"
    by (rule sample_Complete_eq)
  from do [of "h @ [(req, model_answer ''pve_vm_start'' start_arguments)]"] r show ?thesis
    by (auto intro!: that [OF r(1)] simp: sample_answers)
qed

lemma sample_waits:
  assumes "held_store e a st" and "t < e"
  obtains req c where "req_URL req = gc_endpoint sample_client"
    "Complete (Select sample_world sample_client) (GetVM sample_world sample_infra)
      (Mutate sample_world sample_infra) sample_cfg (sample_env t) ''id'' sample_request st h =
      (c, st, h @ [(req, model_answer ''pve_vm_start'' start_arguments)])"
    "executed_flags c = Some (False, True)"
proof -
  let ?Do = "Do (action_key start_3052) t (t + 5) (False, Ended ContextError)
      (run_action (GetVM sample_world sample_infra) (Mutate sample_world sample_infra) ''id'' start_3052) st"
  have "?Do g = (\<lparr>Value = Some (AnExecution sample_execution), Err = None, Deduplicated = True\<rparr>, st, g)" for g
    using assms by (simp add: Do_def enter_def held_store_def waited_def)
  note do = this
  obtain req where r: "req_URL req = gc_endpoint sample_client"
    "Complete (Select sample_world sample_client) (GetVM sample_world sample_infra)
      (Mutate sample_world sample_infra) sample_cfg (sample_env t) ''id'' sample_request st h =
     (case ?Do (h @ [(req, model_answer ''pve_vm_start'' start_arguments)]) of
        (result, st, h) \<Rightarrow> (answer sample_cfg (sample_env t) start_3052 [] result, st, h))"
    by (rule sample_Complete_eq)
  show ?thesis by (rule that [OF r(1) _ sample_answers(2)]) (simp add: r(2) do)
qed

lemma sample_held_expired: "held_store e a st \<Longrightarrow> e \<le> t \<Longrightarrow> \<not> blocks (slot_of st (action_key start_3052)) t"
  by (simp add: held_store_def slot_of_def blocks_def)

lemma sample_run_nth:
  obtains new0 c0 new1 c1 new2 c2 x y where
    "sample_run = [(sample_env 0, new0, c0), (sample_env 10000000000, new1, c1), (sample_env 40000000000, new2, c2)]"
    "changes (gc_endpoint sample_client) new0 = [x]" "changes (gc_endpoint sample_client) new2 = [y]"
    "req_URL (fst x) = ''http://infra:8080/api/v1/pve/vms/3052/start''"
    "req_URL (fst y) = ''http://infra:8080/api/v1/pve/vms/3052/start''" "\<not> answered_no x"
    "executed_flags c0 = Some (True, False)" "executed_flags c1 = Some (False, True)"
proof -
  let ?x = "(sample_change, json_response 202 '''')"
  have "window (NewService sample_cfg) = 30000000000" "\<not> blocks (slot_of (NewService sample_cfg) (action_key start_3052)) 0"
    by (simp_all add: NewService_def blocks_def) (simp add: new_store_def sample_cfg_def)
  then obtain r0 c0 st0 where 0: "req_URL r0 = gc_endpoint sample_client"
    "Complete (Select sample_world sample_client) (GetVM sample_world sample_infra)
      (Mutate sample_world sample_infra) sample_cfg (sample_env 0) ''id'' sample_request (NewService sample_cfg) [] =
      (c0, st0, [] @ [(r0, model_answer ''pve_vm_start'' start_arguments),
        (sample_query, json_response 200 vm_3052), ?x])"
    "executed_flags c0 = Some (True, False)" "held_store (0 + 30000000005) (length (heap (NewService sample_cfg))) st0"
    by (rule sample_runs)
  let ?h0 = "[] @ [(r0, model_answer ''pve_vm_start'' start_arguments), (sample_query, json_response 200 vm_3052), ?x]"
  have "(10000000000 :: time) < 0 + 30000000005" by simp
  from 0(4) this obtain r1 c1 where 1: "req_URL r1 = gc_endpoint sample_client"
    "Complete (Select sample_world sample_client) (GetVM sample_world sample_infra)
      (Mutate sample_world sample_infra) sample_cfg (sample_env 10000000000) ''id'' sample_request st0 ?h0 =
      (c1, st0, ?h0 @ [(r1, model_answer ''pve_vm_start'' start_arguments)])"
    "executed_flags c1 = Some (False, True)"
    by (rule sample_waits)
  let ?h1 = "?h0 @ [(r1, model_answer ''pve_vm_start'' start_arguments)]"
  have "window st0 = 30000000000" "\<not> blocks (slot_of st0 (action_key start_3052)) 40000000000"
    using 0(4) sample_held_expired [OF 0(4)] by (simp_all add: held_store_def)
  then obtain r2 c2 st2 where 2: "req_URL r2 = gc_endpoint sample_client"
    "Complete (Select sample_world sample_client) (GetVM sample_world sample_infra)
      (Mutate sample_world sample_infra) sample_cfg (sample_env 40000000000) ''id'' sample_request st0 ?h1 =
      (c2, st2, ?h1 @ [(r2, model_answer ''pve_vm_start'' start_arguments),
        (sample_query, json_response 200 vm_3052), ?x])"
    "executed_flags c2 = Some (True, False)"
    by (rule sample_runs)
  have "''http://infra:8080/api/v1/pve/vms/3052/start'' \<noteq> gc_endpoint sample_client" by code_simp
  then have ch: "is_change (gc_endpoint sample_client) (sample_change, q)"
      "\<not> is_change (gc_endpoint sample_client) (sample_query, q)"
      "req_URL r = gc_endpoint sample_client \<Longrightarrow> \<not> is_change (gc_endpoint sample_client) (r, q)" for r and q
    using sample_query_fields sample_change_fields by (simp_all add: is_change_def)
  have run: "sample_run =
     [(sample_env 0, drop 0 ?h0, c0), (sample_env 10000000000, [(r1, model_answer ''pve_vm_start'' start_arguments)], c1),
      (sample_env 40000000000, [(r2, model_answer ''pve_vm_start'' start_arguments),
        (sample_query, json_response 200 vm_3052), ?x], c2)]"
    using 0(2) 1(2) 2(2) by (simp add: sample_run_def)
  show ?thesis
    by (rule that [OF run, of ?x ?x])
      (use 0 1 2 sample_change_fields in \<open>auto simp: changes_def ch answered_no_def json_response_def\<close>)
qed

lemma sample_run_first:
  assumes "sample_Complete (sample_env 0) (NewService sample_cfg) [] = (c, st', h')"
  shows "hd sample_run = (sample_env 0, h', c)"
  using assms by (simp add: sample_run_def sample_Complete_def)

lemma sample_orders: "set (ce_order1 (sample_env t)) = set actions" "set (ce_order2 (sample_env t)) = set actions"
  by (simp_all add: sample_env_def)

lemma sample_wf: "wf_store (NewService sample_cfg)"
  by (simp add: NewService_def wf_new_store)

theorem at_most_one_change_witness:
  "\<exists>c st' h'. sample_Complete (sample_env 0) (NewService sample_cfg) [] = (c, st', h') \<and> length h' \<le> 3"
proof -
  obtain c st' h' where s: "sample_Complete (sample_env 0) (NewService sample_cfg) [] = (c, st', h')"
    by (cases "sample_Complete (sample_env 0) (NewService sample_cfg) []")
  from at_most_one_change [OF sample_wf s [unfolded sample_Complete_def]] s show ?thesis by auto
qed

theorem change_only_when_safe_witness:
  "\<exists>c st' h' x v. sample_Complete (sample_env 0) (NewService sample_cfg) [] = (c, st', h') \<and>
    x \<in> set (changes (gc_endpoint sample_client) h') \<and>
    req_URL (fst x) = ''http://infra:8080/api/v1/pve/vms/3052/start'' \<and>
    (\<exists>value a. safe_command (TrimSpace value) False a v)"
proof -
  obtain c st' h' where s: "sample_Complete (sample_env 0) (NewService sample_cfg) [] = (c, st', h')"
    by (cases "sample_Complete (sample_env 0) (NewService sample_cfg) []")
  obtain x where x: "changes (gc_endpoint sample_client) h' = [x]"
    "req_URL (fst x) = ''http://infra:8080/api/v1/pve/vms/3052/start''"
  proof (rule sample_run_nth, goal_cases)
    case (1 new0 c0 new1 c1 new2 c2 x y)
    have "h' = new0" using sample_run_first [OF s] 1(2) by (metis list.sel(1) prod.inject)
    with 1(3,5) show ?case by (intro 1(1)) simp_all
  qed
  then have "x \<in> set (changes (gc_endpoint sample_client) (drop (length []) h'))" by simp
  from change_only_when_safe [OF sample_wf sample_orders s [unfolded sample_Complete_def] this]
  obtain a v "value" where "safe_command (TrimSpace value) (sc_AllowForceStop sample_cfg) a v" by blast
  moreover have "sc_AllowForceStop sample_cfg = False" by (simp add: sample_cfg_def)
  ultimately show ?thesis using s x
    by (intro exI [of _ c] exI [of _ st'] exI [of _ h'] exI [of _ x] exI [of _ v] conjI) auto
qed

theorem no_second_change_witness:
  "\<exists>new0 c0 new1 c1 new2 c2 x y.
    sample_run = [(sample_env 0, new0, c0), (sample_env 10000000000, new1, c1), (sample_env 40000000000, new2, c2)] \<and>
    x \<in> set (changes (gc_endpoint sample_client) new0) \<and> y \<in> set (changes (gc_endpoint sample_client) new2) \<and>
    req_URL (fst x) = req_URL (fst y) \<and>
    ce_later (sample_env 0) + sc_DedupWindow sample_cfg \<le> ce_now (sample_env 40000000000)"
proof -
  obtain new0 c0 new1 c1 new2 c2 x y where r:
    "sample_run = [(sample_env 0, new0, c0), (sample_env 10000000000, new1, c1), (sample_env 40000000000, new2, c2)]"
    "changes (gc_endpoint sample_client) new0 = [x]" "changes (gc_endpoint sample_client) new2 = [y]"
    "req_URL (fst x) = ''http://infra:8080/api/v1/pve/vms/3052/start''"
    "req_URL (fst y) = ''http://infra:8080/api/v1/pve/vms/3052/start''" "\<not> answered_no x"
    by (rule sample_run_nth)
  have clock: "clock_ok 0 (map fst (map (\<lambda>t. (sample_env t, ''id'', sample_request)) [0, 10000000000, 40000000000]))"
    by (simp add: sample_env_def)
  have "ce_later (sample_env 0) + sc_DedupWindow sample_cfg \<le> ce_now (sample_env 40000000000)"
    using no_second_change [OF clock sample_run_def, of 0 2 "sample_env 0" new0 c0 "sample_env 40000000000" new2 c2 x y]
    by (simp add: r)
  with r show ?thesis
    by (intro exI [of _ new0] exI [of _ c0] exI [of _ new1] exI [of _ c1] exI [of _ new2] exI [of _ c2]
        exI [of _ x] exI [of _ y] conjI) simp_all
qed

theorem answers_tell_the_truth_witness:
  "\<exists>resp st' h'. sample_Complete (sample_env 0) (NewService sample_cfg) [] = (Completed (Inr resp), st', h') \<and>
    gm_Executed (rb_XGranite resp) \<and> told_truth (gc_endpoint sample_client) (ic_baseURL sample_infra) resp h'"
proof -
  obtain c st' h' where s: "sample_Complete (sample_env 0) (NewService sample_cfg) [] = (c, st', h')"
    by (cases "sample_Complete (sample_env 0) (NewService sample_cfg) []")
  obtain new0 c0 new1 c1 new2 c2 where
    r: "sample_run = [(sample_env 0, new0, c0), (sample_env 10000000000, new1, c1), (sample_env 40000000000, new2, c2)]"
    and f: "executed_flags c0 = Some (True, False)"
    by (rule sample_run_nth)
  have "(sample_env 0, new0, c0) = (sample_env 0, h', c)"
    using sample_run_first [OF s] unfolding r list.sel .
  then have "executed_flags c = Some (True, False)" using f by simp
  then obtain resp where c: "c = Completed (Inr resp)" "gm_Executed (rb_XGranite resp)"
    by (auto simp: executed_flags_def split: completion.splits sum.splits)
  have "\<not> sublist ''/api/v1/pve/vms/'' (gc_endpoint sample_client)" by code_simp
  from answers_tell_the_truth [OF sample_wf this s [unfolded sample_Complete_def c(1)]] s c show ?thesis by auto
qed

end
