(* ===== verification/Handler.thy ===== *)
theory Handler
  imports Service
begin

text \<open>
  The HTTP surface: \<open>internal/handler\<close>, \<open>internal/middleware/auth.go\<close>,
  \<open>internal/requestid/requestid.go\<close> and \<open>internal/safelog/access.go\<close>. A handler gets a
  request of the server side and what it needs of the service, and gives the response that it
  writes. The dispatch of requests to the routes is that of the framework; the table of routes
  with their middleware is the code's.
\<close>

record ServerRequest =
  sr_Method :: string
  sr_Path :: string
  sr_Header :: "(string \<times> string) list"
  sr_Body :: string
  sr_BodyError :: bool
  sr_ContentLength :: int64

record ServerResponse =
  wr_Header :: "(string \<times> string) list"
  wr_Status :: int
  wr_Body :: string

section \<open>Request identifiers\<close>

definition safe_char :: "char \<Rightarrow> bool" where
  "safe_char c \<longleftrightarrow> is_letter c \<or> is_digit c \<or> c \<in> set ''._:-''"

text \<open>The expression \<open>^[A-Za-z0-9._:-]{1,128}$\<close>.\<close>

definition Valid :: "string \<Rightarrow> bool" where
  "Valid value = (value \<noteq> [] \<and> int (length value) \<le> 128 \<and> list_all safe_char value)"

text \<open>\<open>random\<close> is what the random source gives for sixteen bytes, \<open>None\<close> for an error.\<close>

definition FromRequest :: "string option \<Rightarrow> ServerRequest \<Rightarrow> string" where
  "FromRequest random r =
    (let value = header_Get ''X-Request-ID'' (sr_Header r) in
     if Valid value then value
     else case random of
       Some buf \<Rightarrow> EncodeToString buf
     | None \<Rightarrow> ''00000000000000000000000000000000'')"

section \<open>Writing responses\<close>

definition enc_optional :: "string option \<Rightarrow> string" where
  "enc_optional x = (case x of None \<Rightarrow> ''null'' | Some s \<Rightarrow> enc_string s)"

definition enc_error :: "Response \<Rightarrow> string" where
  "enc_error r = enc_object [(''error'', enc_object
     [(''message'', enc_string (body_Message (response_Error r))),
      (''type'', enc_string (body_Type (response_Error r))),
      (''param'', enc_optional (body_Param (response_Error r))),
      (''code'', enc_string (body_Code (response_Error r)))])]"

text \<open>The encoder ends a document with a line feed.\<close>

definition newline :: string where "newline = [CHR 0x0A]"

definition WriteJSON :: "int \<Rightarrow> string \<Rightarrow> string \<Rightarrow> ServerResponse" where
  "WriteJSON status requestID body =
    \<lparr>wr_Header = [(''Content-Type'', ''application/json''), (''X-Request-ID'', requestID)],
     wr_Status = status, wr_Body = body @ newline\<rparr>"

definition WriteError :: "string \<Rightarrow> apierror \<Rightarrow> ServerResponse" where
  "WriteError requestID err = WriteJSON (HTTPStatus err) requestID (enc_error (error_response err))"

section \<open>Reading the request\<close>

definition dec_StreamOptions :: "StreamOptions decoder" where
  "dec_StreamOptions = dec_struct False
    [fld ''include_usage'' dec_bool IncludeUsage IncludeUsage_update]"

definition dec_Message :: "Message decoder" where
  "dec_Message = dec_struct False
    [fld ''role'' dec_string msg_Role msg_Role_update,
     fld ''content'' dec_raw msg_Content msg_Content_update,
     fld ''name'' dec_string msg_Name msg_Name_update,
     fld ''tool_call_id'' dec_string msg_ToolCallID msg_ToolCallID_update]"

definition zero_Message :: Message where
  "zero_Message = \<lparr>msg_Role = '''', msg_Content = '''', msg_Name = '''', msg_ToolCallID = ''''\<rparr>"

definition dec_FunctionDefinition :: "FunctionDefinition decoder" where
  "dec_FunctionDefinition = dec_struct False
    [fld ''name'' dec_string fd_Name fd_Name_update,
     fld ''description'' dec_string fd_Description fd_Description_update,
     fld ''parameters'' dec_raw fd_Parameters fd_Parameters_update]"

definition dec_FunctionTool :: "FunctionTool decoder" where
  "dec_FunctionTool = dec_struct False
    [fld ''type'' dec_string ft_Type ft_Type_update,
     fld ''function'' dec_FunctionDefinition ft_Function ft_Function_update]"

definition zero_FunctionTool :: FunctionTool where
  "zero_FunctionTool =
    \<lparr>ft_Type = '''', ft_Function = \<lparr>fd_Name = '''', fd_Description = '''', fd_Parameters = ''''\<rparr>\<rparr>"

definition dec_ChatCompletionRequest :: "ChatCompletionRequest decoder" where
  "dec_ChatCompletionRequest = dec_struct False
    [fld ''model'' dec_string req_Model req_Model_update,
     fld ''messages'' (dec_slice dec_Message zero_Message) req_Messages req_Messages_update,
     fld ''tools'' (dec_slice dec_FunctionTool zero_FunctionTool) req_Tools req_Tools_update,
     fld ''tool_choice'' dec_raw req_ToolChoice req_ToolChoice_update,
     fld ''max_tokens'' (dec_ptr dec_int64 0) req_MaxTokens req_MaxTokens_update,
     fld ''max_completion_tokens'' (dec_ptr dec_int64 0) req_MaxCompletionTokens req_MaxCompletionTokens_update,
     fld ''stream'' dec_bool req_Stream req_Stream_update,
     fld ''stream_options'' (dec_ptr dec_StreamOptions \<lparr>IncludeUsage = False\<rparr>)
       req_StreamOptions req_StreamOptions_update,
     fld ''response_format'' dec_raw req_ResponseFormat req_ResponseFormat_update,
     fld ''n'' (dec_ptr dec_int64 0) req_N req_N_update,
     fld ''temperature'' (dec_ptr dec_float64 ''0'') req_Temperature req_Temperature_update,
     fld ''top_p'' (dec_ptr dec_float64 ''0'') req_TopP req_TopP_update,
     fld ''seed'' (dec_ptr dec_int64 0) req_Seed req_Seed_update,
     fld ''stop'' dec_raw req_Stop req_Stop_update]"

definition maxChatRequestBytes :: int where
  "maxChatRequestBytes = 8 * 2 ^ 20"

text \<open>
  \<open>http.MaxBytesReader\<close>: the bytes up to the limit, and whether reading on is an error,
  because the body is longer or because it ends in an error itself.
\<close>

definition MaxBytesReader :: "ServerRequest \<Rightarrow> int \<Rightarrow> string \<times> bool" where
  "MaxBytesReader r n =
    (LimitReader (sr_Body r) n, sr_BodyError r \<or> int (length (sr_Body r)) > n)"

text \<open>
  \<open>DecodeJSON\<close>: one document, and then nothing but white space up to the end of the body. An
  error of reading shows when the decoder needs more of the body: always for the second
  document, and for the first when it is not complete without it.
\<close>

definition DecodeJSON :: "'a decoder \<Rightarrow> 'a \<Rightarrow> ServerRequest \<Rightarrow> int \<Rightarrow> apierror + 'a" where
  "DecodeJSON dec zero r maxBytes =
    (case MaxBytesReader r maxBytes of (body, failed) \<Rightarrow>
       (case decode_next dec zero body of
          DecodeEOF \<Rightarrow> Inl (InvalidRequest (Some DecodeError))
        | DecodeFailed x \<Rightarrow> Inl (InvalidRequest (Some DecodeError))
        | Decoded x rest \<Rightarrow>
            (case next_json rest of
               EndOfStream \<Rightarrow> if failed then Inl (InvalidRequest (Some DecodeError)) else Inr x
             | BadValue \<Rightarrow> Inl (InvalidRequest (Some DecodeError))
             | NextValue j rest \<Rightarrow> Inl (InvalidRequest None))))"

section \<open>The handlers\<close>

text \<open>What a handler writes: nothing, a response, or a panic, which the server turns into one.\<close>

datatype written = NoResponse | Written ServerResponse | HandlerPanic

text \<open>\<open>Health\<close>, \<open>Ready\<close> and \<open>Models\<close>.\<close>

definition Health :: "string option \<Rightarrow> ServerRequest \<Rightarrow> ServerResponse" where
  "Health random r =
    WriteJSON 200 (FromRequest random r) (enc_object [(''status'', enc_string ''ok'')])"

definition Ready :: "bool \<Rightarrow> string option \<Rightarrow> ServerRequest \<Rightarrow> ServerResponse" where
  "Ready service_ready random r =
    (let status = 200; state = ''ready'';
         (status, state) = (if \<not> service_ready then (503, ''granite_loading'') else (status, state))
     in WriteJSON status (FromRequest random r)
          (enc_object [(''status'', enc_string state), (''model'', enc_string state)]))"

definition enc_ModelList :: "ModelListResponse \<Rightarrow> string" where
  "enc_ModelList l = enc_object
    [(''object'', enc_string (ml_Object l)),
     (''data'', enc_array (map (\<lambda>m. enc_object
        [(''id'', enc_string (model_ID m)), (''object'', enc_string (model_Object m)),
         (''created'', enc_int (model_Created m)), (''owned_by'', enc_string (model_OwnedBy m))])
        (ml_Data l)))]"

definition Models :: "ServiceConfig \<Rightarrow> string option \<Rightarrow> ServerRequest \<Rightarrow> ServerResponse" where
  "Models cfg random r =
    (let requestID = FromRequest random r in
     WriteJSON 200 requestID (enc_ModelList (Service_ModelList cfg)))"

definition event_text :: "string \<Rightarrow> string" where
  "event_text data = ''data: '' @ data @ newline @ newline"

definition stream_response :: "string \<Rightarrow> string list \<Rightarrow> ServerResponse" where
  "stream_response requestID events =
    \<lparr>wr_Header = [(''Content-Type'', ''text/event-stream''), (''Cache-Control'', ''no-cache''),
       (''Connection'', ''keep-alive''), (''X-Request-ID'', requestID)],
     wr_Status = 200, wr_Body = concat (map event_text events)\<rparr>"

text \<open>\<open>complete\<close> is the service: what it answers, with its state after that.\<close>

definition ChatCompletions ::
  "(string \<Rightarrow> ChatCompletionRequest \<Rightarrow> 's \<Rightarrow> completion \<times> 's) \<Rightarrow> string option \<Rightarrow> ServerRequest \<Rightarrow> 's
    \<Rightarrow> written \<times> 's"
where
  "ChatCompletions complete random r s =
    (let requestID = FromRequest random r in
     case DecodeJSON dec_ChatCompletionRequest zero_request r maxChatRequestBytes of
       Inl err \<Rightarrow> (Written (WriteError requestID err), s)
     | Inr input \<Rightarrow>
         (case complete requestID input s of
            (Panic, s) \<Rightarrow> (HandlerPanic, s)
          | (Completed (Inl err), s) \<Rightarrow>
              if Code err = ''request_canceled'' then (NoResponse, s)
              else (Written (WriteError requestID err), s)
          | (Completed (Inr response), s) \<Rightarrow>
              if \<not> req_Stream input then (Written (WriteJSON 200 requestID (enc_response response)), s)
              else
                let includeUsage = (case req_StreamOptions input of None \<Rightarrow> False | Some o1 \<Rightarrow> IncludeUsage o1) in
                (case StreamEvents response includeUsage of
                   None \<Rightarrow> (HandlerPanic, s)
                 | Some events \<Rightarrow> (Written (stream_response requestID events), s))))"

section \<open>Authentication\<close>

text \<open>
  \<open>NewBearerAuth\<close> compares the digests of the configured and the presented token. The digest
  is an argument. The function gives the response of the middleware, or \<open>None\<close> where it hands
  over to the next handler.
\<close>

definition presented_token :: "ServerRequest \<Rightarrow> string option" where
  "presented_token r =
    (let values = header_Values ''Authorization'' (sr_Header r);
         valid = (length values = 1 \<and> HasPrefix (hd values) ''Bearer '')
     in if \<not> valid then None
        else let presented = TrimPrefix (hd values) ''Bearer '' in
          if presented \<noteq> [] \<and> \<not> ContainsAny presented [CHR 0x20, CHR 0x09, CHR 0x0D, CHR 0x0A]
          then Some presented else None)"

definition unauthorized :: apierror where
  "unauthorized = OpenAIKind ''invalid_api_key'' ''Incorrect API key provided.'' ''''
     ''authentication_error'' 401 None"

definition BearerAuth ::
  "(string \<Rightarrow> 'd) \<Rightarrow> string \<Rightarrow> string option \<Rightarrow> ServerRequest \<Rightarrow> ServerResponse option"
where
  "BearerAuth sha256 token random r =
    (let valid = (case presented_token r of None \<Rightarrow> False | Some presented \<Rightarrow> sha256 presented = sha256 token)
     in if \<not> valid then Some (WriteError (FromRequest random r) unauthorized) else None)"

section \<open>The access log\<close>

text \<open>The verb \<open>%q\<close> on the user agent is an argument; the status is the last one written.\<close>

definition Access_line :: "(string \<Rightarrow> string) \<Rightarrow> ServerRequest \<Rightarrow> int \<Rightarrow> int \<Rightarrow> string" where
  "Access_line quoted r status durationMs =
    ''method='' @ sr_Method r @ '' path='' @ sr_Path r @ '' status='' @ FormatInt status @
    '' durationMs='' @ FormatInt durationMs @ '' contentLength='' @ FormatInt (sr_ContentLength r) @
    '' userAgent='' @ quoted (header_Get ''User-Agent'' (sr_Header r))"

text \<open>
  The line that is written after the handler has returned: the status is 200 unless the handler
  has written another, and a panic passes by.
\<close>

definition Access :: "(string \<Rightarrow> string) \<Rightarrow> ServerRequest \<Rightarrow> int \<Rightarrow> written \<Rightarrow> string option" where
  "Access quoted r durationMs w =
    (case w of
       NoResponse \<Rightarrow> Some (Access_line quoted r 200 durationMs)
     | Written resp \<Rightarrow> Some (Access_line quoted r (wr_Status resp) durationMs)
     | HandlerPanic \<Rightarrow> None)"

section \<open>Routes\<close>

datatype endpoint = HealthEndpoint | ReadyEndpoint | ModelsEndpoint | ChatEndpoint

text \<open>Method, path, whether the route is behind the authentication, and its handler.\<close>

definition routes :: "(string \<times> string \<times> bool \<times> endpoint) list" where
  "routes =
    [(''GET'', ''/healthz'', False, HealthEndpoint), (''GET'', ''/readyz'', False, ReadyEndpoint),
     (''GET'', ''/v1/models'', True, ModelsEndpoint),
     (''POST'', ''/v1/chat/completions'', True, ChatEndpoint)]"

definition route_of :: "string \<Rightarrow> string \<Rightarrow> (bool \<times> endpoint) option" where
  "route_of method path =
    (case find (\<lambda>(m, p, a, e). m = method \<and> p = path) routes of
       Some (m, p, a, e) \<Rightarrow> Some (a, e) | None \<Rightarrow> None)"

text \<open>
  A routed request: the middleware in front of the handler, and the handler. \<open>None\<close> is a
  request that has no route, which the framework answers.
\<close>

definition serve ::
  "(string \<Rightarrow> 'd) \<Rightarrow> string \<Rightarrow> ServiceConfig \<Rightarrow> bool \<Rightarrow> (string \<Rightarrow> ChatCompletionRequest \<Rightarrow> 's \<Rightarrow> completion \<times> 's)
    \<Rightarrow> string option \<Rightarrow> ServerRequest \<Rightarrow> 's \<Rightarrow> (written \<times> 's) option"
where
  "serve sha256 token cfg service_ready complete random r s =
    (case route_of (sr_Method r) (sr_Path r) of
       None \<Rightarrow> None
     | Some (protected, e) \<Rightarrow>
         (case (if protected then BearerAuth sha256 token random r else None) of
            Some rejection \<Rightarrow> Some (Written rejection, s)
          | None \<Rightarrow> Some
              (case e of
                 HealthEndpoint \<Rightarrow> (Written (Health random r), s)
               | ReadyEndpoint \<Rightarrow> (Written (Ready service_ready random r), s)
               | ModelsEndpoint \<Rightarrow> (Written (Models cfg random r), s)
               | ChatEndpoint \<Rightarrow> ChatCompletions complete random r s)))"

section \<open>Identifiers of requests\<close>

lemma EncodeToString_chars: "c \<in> set (EncodeToString bs) \<Longrightarrow> c \<in> set ''0123456789abcdef''"
proof -
  have h: "hex_digit n \<in> set ''0123456789abcdef''" if "0 \<le> n" "n < 16" for n
  proof -
    have "list_all (\<lambda>n. hex_digit n \<in> set ''0123456789abcdef'') [0..15]" by code_simp
    moreover have "n \<in> set [0..15]" using that unfolding set_upto by simp
    ultimately show ?thesis unfolding list_all_iff by blast
  qed
  assume "c \<in> set (EncodeToString bs)"
  then obtain b where "c = hex_digit (code b div 16) \<or> c = hex_digit (code b mod 16)"
    by (auto simp: EncodeToString_def)
  then show ?thesis
    using h [of "code b div 16"] h [of "code b mod 16"] code_bounds [of b] by auto
qed

lemma FromRequest_safe:
  assumes "\<And>buf. random = Some buf \<Longrightarrow> length buf = 16"
  shows "Valid (FromRequest random r)"
proof -
  have s: "list_all safe_char ''0123456789abcdef''" "Valid ''00000000000000000000000000000000''" by code_simp+
  have "Valid (EncodeToString buf)" if "length buf = 16" for buf
  proof -
    have "length (EncodeToString buf) = 32" using that by (simp add: length_EncodeToString)
    then have "EncodeToString buf \<noteq> []" "int (length (EncodeToString buf)) \<le> 128" by auto
    moreover have "list_all safe_char (EncodeToString buf)"
      using EncodeToString_chars [of _ buf] s(1) unfolding list_all_iff by blast
    ultimately show ?thesis unfolding Valid_def by blast
  qed
  then show ?thesis using assms s(2) by (auto simp: FromRequest_def Let_def split: option.splits)
qed

lemma safe_char_harmless: "safe_char c \<Longrightarrow> c \<noteq> CHR 0x0D \<and> c \<noteq> CHR 0x0A \<and> c \<noteq> CHR 0x20"
proof -
  have "\<not> safe_char CHR 0x0D" "\<not> safe_char CHR 0x0A" "\<not> safe_char CHR 0x20" by code_simp+
  then show "safe_char c \<Longrightarrow> ?thesis" by metis
qed

text \<open>
  C38. The identifier of a request, which goes into every response and to the infrastructure
  service, is the client's when that is safe, and otherwise one of 32 characters; it is never
  empty, never longer than 128 characters, and has no character that could end a header or a
  line.
\<close>

theorem FromRequest_valid:
  assumes "\<And>buf. random = Some buf \<Longrightarrow> length buf = 16"
  shows "Valid (FromRequest random r) \<and>
    (if Valid (header_Get ''X-Request-ID'' (sr_Header r))
     then FromRequest random r = header_Get ''X-Request-ID'' (sr_Header r)
     else length (FromRequest random r) = 32) \<and>
    list_all (\<lambda>c. c \<noteq> CHR 0x0D \<and> c \<noteq> CHR 0x0A \<and> c \<noteq> CHR 0x20) (FromRequest random r)"
proof -
  note v = FromRequest_safe [OF assms, where r = r]
  have "list_all safe_char (FromRequest random r)" using v by (simp add: Valid_def)
  then have "list_all (\<lambda>c. c \<noteq> CHR 0x0D \<and> c \<noteq> CHR 0x0A \<and> c \<noteq> CHR 0x20) (FromRequest random r)"
    using safe_char_harmless unfolding list_all_iff by blast
  then show ?thesis
    using v assms by (auto simp: FromRequest_def Let_def length_EncodeToString split: option.splits)
qed

section \<open>Authentication\<close>

lemma TrimPrefix_append [simp]: "TrimPrefix (p @ s) p = s"
  by (simp add: TrimPrefix_def HasPrefix_def)

lemma token_chars:
  "\<not> ContainsAny p [CHR 0x20, CHR 0x09, CHR 0x0D, CHR 0x0A] \<longleftrightarrow>
    list_all (\<lambda>c. c \<notin> {CHR 0x20, CHR 0x09, CHR 0x0D, CHR 0x0A}) p"
  by (auto simp: ContainsAny_def list_ex_iff list_all_iff)

lemma presented_token_one:
  assumes "header_Values ''Authorization'' (sr_Header r) = [''Bearer '' @ p]"
  shows "presented_token r = (if p \<noteq> [] \<and> list_all (\<lambda>c. c \<notin> {CHR 0x20, CHR 0x09, CHR 0x0D, CHR 0x0A}) p
    then Some p else None)"
proof -
  have "HasPrefix (''Bearer '' @ p) ''Bearer ''" unfolding HasPrefix_def by (rule prefixI) simp
  then show ?thesis
    unfolding presented_token_def Let_def assms token_chars [symmetric] TrimPrefix_append list.sel by simp
qed

lemma presented_token_Some:
  "presented_token r = Some p \<longleftrightarrow>
    header_Values ''Authorization'' (sr_Header r) = [''Bearer '' @ p] \<and> p \<noteq> [] \<and>
    list_all (\<lambda>c. c \<notin> {CHR 0x20, CHR 0x09, CHR 0x0D, CHR 0x0A}) p"
proof (cases "\<exists>q. header_Values ''Authorization'' (sr_Header r) = [''Bearer '' @ q]")
  case True
  then obtain q where q: "header_Values ''Authorization'' (sr_Header r) = [''Bearer '' @ q]" by blast
  show ?thesis unfolding presented_token_one [OF q] q by auto
next
  case False
  have "\<not> (length (header_Values ''Authorization'' (sr_Header r)) = 1 \<and>
      HasPrefix (hd (header_Values ''Authorization'' (sr_Header r))) ''Bearer '')"
  proof
    assume a: "length (header_Values ''Authorization'' (sr_Header r)) = 1 \<and>
      HasPrefix (hd (header_Values ''Authorization'' (sr_Header r))) ''Bearer ''"
    then obtain v where v: "header_Values ''Authorization'' (sr_Header r) = [v]" by (auto simp: length_Suc_conv)
    with a obtain q where "v = ''Bearer '' @ q" unfolding HasPrefix_def prefix_def by auto
    with v False show False by blast
  qed
  then have "presented_token r = None" by (simp add: presented_token_def Let_def)
  with False show ?thesis by auto
qed

lemma BearerAuth_None:
  "BearerAuth sha256 token random r = None \<longleftrightarrow>
     (\<exists>p. header_Values ''Authorization'' (sr_Header r) = [''Bearer '' @ p] \<and> p \<noteq> [] \<and>
        list_all (\<lambda>c. c \<notin> {CHR 0x20, CHR 0x09, CHR 0x0D, CHR 0x0A}) p \<and> sha256 p = sha256 token)"
proof (cases "presented_token r")
  case None
  then have "\<not> (\<exists>p. header_Values ''Authorization'' (sr_Header r) = [''Bearer '' @ p] \<and> p \<noteq> [] \<and>
      list_all (\<lambda>c. c \<notin> {CHR 0x20, CHR 0x09, CHR 0x0D, CHR 0x0A}) p)"
    using presented_token_Some by (metis option.distinct(1))
  with None show ?thesis by (auto simp: BearerAuth_def)
next
  case (Some p)
  then show ?thesis using presented_token_Some [of r p] by (auto simp: BearerAuth_def)
qed

text \<open>
  C37. The middleware hands a request over exactly when it has one single header for the
  authorization, with the scheme of a bearer and a token that is not empty, has no white space
  and has the digest of the configured one. Every other request gets a 401 with the same body,
  whatever was wrong.
\<close>

theorem BearerAuth_decides:
  "(BearerAuth sha256 token random r = None \<longleftrightarrow>
     (\<exists>p. header_Values ''Authorization'' (sr_Header r) = [''Bearer '' @ p] \<and> p \<noteq> [] \<and>
        list_all (\<lambda>c. c \<notin> {CHR 0x20, CHR 0x09, CHR 0x0D, CHR 0x0A}) p \<and> sha256 p = sha256 token)) \<and>
   (BearerAuth sha256 token random r = None \<or>
     BearerAuth sha256 token random r = Some (WriteError (FromRequest random r) unauthorized) \<and>
     wr_Status (WriteError (FromRequest random r) unauthorized) = 401)"
proof (rule conjI, rule BearerAuth_None)
  have "wr_Status (WriteError (FromRequest random r) unauthorized) = 401"
    by (simp add: WriteError_def WriteJSON_def unauthorized_def OpenAIKind_def)
  then show "BearerAuth sha256 token random r = None \<or>
     BearerAuth sha256 token random r = Some (WriteError (FromRequest random r) unauthorized) \<and>
     wr_Status (WriteError (FromRequest random r) unauthorized) = 401"
    by (simp add: BearerAuth_def)
qed

section \<open>Reading a body\<close>

lemma LimitReader_all: "int (length s) \<le> n \<Longrightarrow> LimitReader s n = s"
  by (simp add: LimitReader_def)

lemma DecodeJSON_Inr:
  "DecodeJSON dec zero r n = Inr x \<longleftrightarrow>
    int (length (sr_Body r)) \<le> n \<and> \<not> sr_BodyError r \<and>
    (\<exists>rest. decode_next dec zero (sr_Body r) = Decoded x rest \<and> list_all is_ws rest)"
proof -
  have e: "next_json s = EndOfStream \<longleftrightarrow> list_all is_ws s" for s
    by (auto simp: next_json_def skip_ws_def dropWhile_eq_Nil_conv list_all_iff split: option.splits)
  show ?thesis
  proof (cases "int (length (sr_Body r)) \<le> n \<and> \<not> sr_BodyError r")
    case True
    then show ?thesis
      by (auto simp: DecodeJSON_def MaxBytesReader_def LimitReader_all e [symmetric] split: decoded.splits next_value.splits)
  next
    case False
    then show ?thesis
      by (auto simp: DecodeJSON_def MaxBytesReader_def split: decoded.splits next_value.splits)
  qed
qed

text \<open>
  A body is accepted exactly when it is within the limit, was read to its end without an
  error, and is one JSON document of the right type with nothing but white space behind it.
\<close>

lemma DecodeJSON_accepts:
  "DecodeJSON dec zero r n = Inr x \<longleftrightarrow>
    int (length (sr_Body r)) \<le> n \<and> \<not> sr_BodyError r \<and>
    (\<exists>rest. decode_next dec zero (sr_Body r) = Decoded x rest \<and> list_all is_ws rest)"
  by (rule DecodeJSON_Inr)

definition sample_server_request :: ServerRequest where
  "sample_server_request = \<lparr>sr_Method = ''POST'', sr_Path = ''/v1/chat/completions'',
     sr_Header = [(''authorization'', ''Bearer key''), (''X-Request-ID'', ''bad id'')], sr_Body = '''',
     sr_BodyError = False, sr_ContentLength = 0\<rparr>"

theorem FromRequest_valid_witness:
  "FromRequest (Some ''abcdefghijklmnop'') sample_server_request = ''6162636465666768696a6b6c6d6e6f70'' \<and>
   Valid (FromRequest (Some ''abcdefghijklmnop'') sample_server_request)"
proof -
  have "FromRequest (Some ''abcdefghijklmnop'') sample_server_request = ''6162636465666768696a6b6c6d6e6f70''" by code_simp
  moreover have "\<And>buf. Some ''abcdefghijklmnop'' = Some buf \<Longrightarrow> length buf = 16" by auto
  ultimately show ?thesis using FromRequest_valid [of "Some ''abcdefghijklmnop''" sample_server_request] by simp
qed

end
