(* ===== verification/Process.thy ===== *)
theory Process
  imports Http Machine
begin

text \<open>
  \<open>internal/granite/process.go\<close>: the manager of the \<open>llama-server\<close> process. \<open>Start\<close> runs in
  one goroutine and leaves behind another that waits for the process, \<open>Stop\<close> runs in a third;
  they meet in the fields of the manager. Each operation is cut at the points where another
  goroutine, the process or the clock can come in between, and an action is one such piece.
  Times are nanoseconds. The process, its start and its death are the operating system's: what
  they give is an argument of the action.
\<close>

section \<open>The manager\<close>

record ProcessConfig =
  pc_Binary :: string
  pc_Model :: string
  pc_Threads :: int
  pc_ContextSize :: int
  pc_StartupTimeout :: int

text \<open>
  \<open>m_cancel\<close> says that the field \<open>cancel\<close> holds a function, \<open>m_exited\<close> that the channel
  \<open>exited\<close> is closed; \<open>m_cmd\<close> is the program with its arguments.
\<close>

record Manager =
  m_cfg :: ProcessConfig
  m_cmd :: "(string \<times> string list) option"
  m_cancel :: bool
  m_ready :: bool
  m_stopping :: bool
  m_exited :: bool
  m_exitErr :: "goerror option"
  m_key :: string

text \<open>\<open>random\<close> is what the random source gives for 32 bytes; without them there is a panic.\<close>

definition NewManager :: "ProcessConfig \<Rightarrow> string option \<Rightarrow> Manager option" where
  "NewManager cfg random =
    (case random of
       None \<Rightarrow> None
     | Some keyBytes \<Rightarrow> Some \<lparr>m_cfg = cfg, m_cmd = None, m_cancel = False, m_ready = False,
         m_stopping = False, m_exited = False, m_exitErr = None, m_key = EncodeToString keyBytes\<rparr>)"

definition start_args :: "Manager \<Rightarrow> string list" where
  "start_args m =
    [''--model'', pc_Model (m_cfg m), ''--host'', ''127.0.0.1'', ''--port'', ''18080'',
     ''--ctx-size'', FormatInt (pc_ContextSize (m_cfg m)), ''--parallel'', ''1'',
     ''--threads'', FormatInt (pc_Threads (m_cfg m)), ''--jinja'', ''--api-key'', m_key m]"

definition Manager_Ready :: "Manager \<Rightarrow> bool" where "Manager_Ready m = m_ready m"
definition Manager_Stopping :: "Manager \<Rightarrow> bool" where "Manager_Stopping m = m_stopping m"
definition Manager_APIKey :: "Manager \<Rightarrow> string" where "Manager_APIKey m = m_key m"
definition ExitError :: "Manager \<Rightarrow> goerror option" where "ExitError m = m_exitErr m"

text \<open>\<open>Wait\<close> gives the channel: receiving from it is possible once it is closed.\<close>

definition Wait_done :: "Manager \<Rightarrow> bool" where "Wait_done m = m_exited m"

section \<open>The goroutines\<close>

text \<open>What \<open>Start\<close> returns when it fails.\<close>

datatype start_error =
    NotLaunched goerror
  | ExitedEarly "goerror option"
  | StartupTimedOut
  | StartCanceled

text \<open>
  Where the call of \<open>Start\<close> is: not made, before the launch of the process, in the loop, in the
  probe, behind the announcement that the process is ready, or back with its result; where the goroutine that waits for the process is; where the
  call of \<open>Stop\<close> is: not made, behind each of its steps, back. The flag of \<open>StopTaken\<close> is
  whether the field \<open>cancel\<close> held a function.
\<close>

datatype starter = NotCalled | Created | Selecting | Probing | Readied | StartReturned "start_error option"
datatype reaper = NoReaper | Reaping | Stored | Closed
datatype stopper = Serving | StopFlagged | StopNotReady | StopTaken bool | StopWaiting | Stopped
datatype child = NotStarted | Alive | Died "goerror option"

text \<open>
  \<open>process_done\<close> and \<open>parent_done\<close> are the ends of the context of the process and of the
  context given to \<open>Start\<close>; the latter can only end when it is \<open>cancelable\<close>. \<open>started\<close> is the
  time of the launch, \<open>next_tick\<close> that of the first tick that was not received, and
  \<open>probed\<close> records that a probe has succeeded.
\<close>

record world =
  mgr :: Manager
  process_done :: bool
  parent_done :: bool
  cancelable :: bool
  child :: child
  starter :: starter
  reaper :: reaper
  stopper :: stopper
  wall :: int
  started :: int
  next_tick :: int
  probed :: bool

definition new_world :: "Manager \<Rightarrow> bool \<Rightarrow> int \<Rightarrow> world" where
  "new_world m can t = \<lparr>mgr = m, process_done = False, parent_done = False, cancelable = can,
     child = NotStarted, starter = NotCalled, reaper = NoReaper, stopper = Serving, wall = t,
     started = 0, next_tick = 0, probed = False\<rparr>"

definition tick_period :: int where "tick_period = 10000000"

text \<open>\<open>Start\<close>, up to the command.\<close>

definition start_create :: "world \<Rightarrow> world" where
  "start_create w = w\<lparr>process_done := False, starter := Created,
     mgr := (mgr w)\<lparr>m_cancel := True, m_cmd := Some (pc_Binary (m_cfg (mgr w)), start_args (mgr w))\<rparr>\<rparr>"

text \<open>
  The launch, with the error that the operating system gives; a command whose context has ended
  is not launched. It starts the goroutine that waits, the timer and the ticker.
\<close>

definition start_launch :: "goerror option \<Rightarrow> world \<Rightarrow> world" where
  "start_launch failure w =
    (case (if process_done w then Some ContextError else failure) of
       Some err \<Rightarrow> w\<lparr>process_done := True, starter := StartReturned (Some (NotLaunched err))\<rparr>
     | None \<Rightarrow> w\<lparr>child := Alive, reaper := Reaping, starter := Selecting, started := wall w,
                 next_tick := wall w + tick_period\<rparr>)"

text \<open>The branches of the \<open>select\<close>, each with the condition under which it can be taken.\<close>

definition select_exited :: "world \<Rightarrow> world option" where
  "select_exited w =
    (if m_exited (mgr w)
     then Some (w\<lparr>process_done := True, starter := StartReturned (Some (ExitedEarly (m_exitErr (mgr w))))\<rparr>)
     else None)"

definition select_deadline :: "world \<Rightarrow> world option" where
  "select_deadline w =
    (if started w + pc_StartupTimeout (m_cfg (mgr w)) \<le> wall w
     then Some (w\<lparr>process_done := True, starter := StartReturned (Some StartupTimedOut)\<rparr>)
     else None)"

definition select_done :: "world \<Rightarrow> world option" where
  "select_done w =
    (if parent_done w
     then Some (w\<lparr>process_done := True, starter := StartReturned (Some StartCanceled)\<rparr>)
     else None)"

definition select_tick :: "world \<Rightarrow> world option" where
  "select_tick w =
    (if next_tick w \<le> wall w
     then Some (w\<lparr>starter := Probing,
            next_tick := started w + tick_period * ((wall w - started w) div tick_period + 1)\<rparr>)
     else None)"

definition probe_return :: "bool \<Rightarrow> world \<Rightarrow> world" where
  "probe_return answer w =
    (if answer
     then w\<lparr>mgr := (mgr w)\<lparr>m_ready := True\<rparr>, probed := True, starter := Readied\<rparr>
     else w\<lparr>starter := Selecting\<rparr>)"

text \<open>\<open>Start\<close> returns only after that; the readiness can be seen before.\<close>

definition start_return :: "world \<Rightarrow> world" where
  "start_return w = w\<lparr>starter := StartReturned None\<rparr>"

text \<open>The goroutine that waits for the process: the error first, then the channel.\<close>

definition reap_store :: "goerror option \<Rightarrow> world \<Rightarrow> world" where
  "reap_store err w = w\<lparr>mgr := (mgr w)\<lparr>m_exitErr := err\<rparr>, reaper := Stored\<rparr>"

definition reap_close :: "world \<Rightarrow> world" where
  "reap_close w = w\<lparr>mgr := (mgr w)\<lparr>m_exited := True\<rparr>, reaper := Closed\<rparr>"

text \<open>\<open>Stop\<close>, step by step.\<close>

definition stop_flag :: "world \<Rightarrow> world" where
  "stop_flag w = w\<lparr>mgr := (mgr w)\<lparr>m_stopping := True\<rparr>, stopper := StopFlagged\<rparr>"

definition stop_not_ready :: "world \<Rightarrow> world" where
  "stop_not_ready w = w\<lparr>mgr := (mgr w)\<lparr>m_ready := False\<rparr>, stopper := StopNotReady\<rparr>"

definition stop_take :: "world \<Rightarrow> world" where
  "stop_take w = w\<lparr>mgr := (mgr w)\<lparr>m_cancel := False\<rparr>, stopper := StopTaken (m_cancel (mgr w))\<rparr>"

definition stop_cancel :: "bool \<Rightarrow> world \<Rightarrow> world" where
  "stop_cancel has w = (if has then w\<lparr>process_done := True, stopper := StopWaiting\<rparr> else w\<lparr>stopper := Stopped\<rparr>)"

definition stop_wait :: "world \<Rightarrow> world option" where
  "stop_wait w = (if m_exited (mgr w) then Some (w\<lparr>stopper := Stopped\<rparr>) else None)"

section \<open>Actions and runs\<close>

datatype action =
    CallStart
  | Launch "goerror option"
  | SelectExited | SelectDeadline | SelectDone | SelectTick
  | ProbeReturns bool
  | StartReturns
  | ChildDies "goerror option"
  | ReapStore | ReapClose
  | StopStep
  | CancelParent
  | Pass int

text \<open>
  One action, \<open>None\<close> where it is not possible. A process that runs can end at any time, by
  itself or because it was killed when its context ended; nothing says that it has ended, or
  that it will. \<open>Start\<close> and \<open>Stop\<close> are called once.
\<close>

fun act :: "action \<Rightarrow> world \<Rightarrow> world option" where
  "act CallStart w = (if starter w = NotCalled then Some (start_create w) else None)"
| "act (Launch failure) w = (if starter w = Created then Some (start_launch failure w) else None)"
| "act SelectExited w = (if starter w = Selecting then select_exited w else None)"
| "act SelectDeadline w = (if starter w = Selecting then select_deadline w else None)"
| "act SelectDone w = (if starter w = Selecting then select_done w else None)"
| "act SelectTick w = (if starter w = Selecting then select_tick w else None)"
| "act (ProbeReturns answer) w = (if starter w = Probing then Some (probe_return answer w) else None)"
| "act StartReturns w = (if starter w = Readied then Some (start_return w) else None)"
| "act (ChildDies err) w = (if child w = Alive then Some (w\<lparr>child := Died err\<rparr>) else None)"
| "act ReapStore w =
    (case (reaper w, child w) of (Reaping, Died err) \<Rightarrow> Some (reap_store err w) | _ \<Rightarrow> None)"
| "act ReapClose w = (if reaper w = Stored then Some (reap_close w) else None)"
| "act StopStep w =
    (case stopper w of
       Serving \<Rightarrow> Some (stop_flag w)
     | StopFlagged \<Rightarrow> Some (stop_not_ready w)
     | StopNotReady \<Rightarrow> Some (stop_take w)
     | StopTaken has \<Rightarrow> Some (stop_cancel has w)
     | StopWaiting \<Rightarrow> stop_wait w
     | Stopped \<Rightarrow> None)"
| "act CancelParent w = (if cancelable w then Some (w\<lparr>parent_done := True\<rparr>) else None)"
| "act (Pass d) w = (if 0 \<le> d then Some (w\<lparr>wall := wall w + d\<rparr>) else None)"

abbreviation acts :: "action list \<Rightarrow> world \<Rightarrow> world option" where
  "acts \<equiv> runs act"

inductive reached :: "Manager \<Rightarrow> world \<Rightarrow> bool" for m where
  start: "reached m (new_world m can t)"
| more: "reached m w \<Longrightarrow> act a w = Some w' \<Longrightarrow> reached m w'"

lemmas operations = start_create_def start_launch_def select_exited_def select_deadline_def
  select_done_def select_tick_def probe_return_def start_return_def reap_store_def reap_close_def stop_flag_def
  stop_not_ready_def stop_take_def stop_cancel_def stop_wait_def

text \<open>An action that is possible: its condition and the state that it leads to.\<close>

lemma act_cases:
  assumes "act a w = Some w'"
  obtains (call) "starter w = NotCalled" "w' = start_create w"
  | (refused) err where "starter w = Created" "process_done w \<and> err = ContextError \<or> a = Launch (Some err)"
      "w' = w\<lparr>process_done := True, starter := StartReturned (Some (NotLaunched err))\<rparr>"
  | (launched) "starter w = Created" "\<not> process_done w"
      "w' = w\<lparr>child := Alive, reaper := Reaping, starter := Selecting, started := wall w,
             next_tick := wall w + tick_period\<rparr>"
  | (exited) "starter w = Selecting" "m_exited (mgr w)"
      "w' = w\<lparr>process_done := True, starter := StartReturned (Some (ExitedEarly (m_exitErr (mgr w))))\<rparr>"
  | (deadline) "starter w = Selecting" "started w + pc_StartupTimeout (m_cfg (mgr w)) \<le> wall w"
      "w' = w\<lparr>process_done := True, starter := StartReturned (Some StartupTimedOut)\<rparr>"
  | (canceled) "starter w = Selecting" "parent_done w"
      "w' = w\<lparr>process_done := True, starter := StartReturned (Some StartCanceled)\<rparr>"
  | (tick) t where "starter w = Selecting" "next_tick w \<le> wall w" "w' = w\<lparr>starter := Probing, next_tick := t\<rparr>"
  | (answered) "starter w = Probing"
      "w' = w\<lparr>mgr := (mgr w)\<lparr>m_ready := True\<rparr>, probed := True, starter := Readied\<rparr>"
  | (returns) "starter w = Readied" "w' = w\<lparr>starter := StartReturned None\<rparr>"
  | (unanswered) "starter w = Probing" "w' = w\<lparr>starter := Selecting\<rparr>"
  | (dies) err where "child w = Alive" "w' = w\<lparr>child := Died err\<rparr>"
  | (reap) err where "reaper w = Reaping" "child w = Died err" "w' = reap_store err w"
  | (reaped) "reaper w = Stored" "w' = reap_close w"
  | (flag) "stopper w = Serving" "w' = stop_flag w"
  | (not_ready) "stopper w = StopFlagged" "w' = stop_not_ready w"
  | (take) "stopper w = StopNotReady" "w' = stop_take w"
  | (cancel) "stopper w = StopTaken True" "w' = w\<lparr>process_done := True, stopper := StopWaiting\<rparr>"
  | (no_cancel) "stopper w = StopTaken False" "w' = w\<lparr>stopper := Stopped\<rparr>"
  | (stopped) "stopper w = StopWaiting" "m_exited (mgr w)" "w' = w\<lparr>stopper := Stopped\<rparr>"
  | (parent) "cancelable w" "w' = w\<lparr>parent_done := True\<rparr>"
  | (passed) d where "0 \<le> d" "w' = w\<lparr>wall := wall w + d\<rparr>"
proof (cases a)
  case StopStep
  show ?thesis
  proof (cases "stopper w")
    case (StopTaken has)
    then show ?thesis using assms StopStep cancel no_cancel by (cases has) (simp_all add: stop_cancel_def)
  qed (use assms StopStep flag not_ready take stopped in \<open>auto simp: stop_wait_def split: if_splits\<close>)
next
  case (Launch failure)
  then show ?thesis
    using assms launched refused by (cases failure) (auto simp: start_launch_def split: if_splits)
next
  case ReapStore
  then show ?thesis using assms reap by (auto split: reaper.splits child.splits)
next
  case (ProbeReturns b)
  then show ?thesis using assms answered unanswered by (cases b) (auto simp: probe_return_def split: if_splits)
next
  case CallStart
  then show ?thesis using assms call by (auto split: if_splits)
next
  case SelectExited
  then show ?thesis using assms exited by (auto simp: select_exited_def split: if_splits)
next
  case SelectDeadline
  then show ?thesis using assms deadline by (auto simp: select_deadline_def split: if_splits)
next
  case SelectDone
  then show ?thesis using assms canceled by (auto simp: select_done_def split: if_splits)
next
  case SelectTick
  then show ?thesis using assms tick by (auto simp: select_tick_def split: if_splits)
next
  case StartReturns
  then show ?thesis using assms returns by (auto simp: start_return_def split: if_splits)
next
  case ChildDies
  then show ?thesis using assms dies by (auto split: if_splits)
next
  case ReapClose
  then show ?thesis using assms reaped by (auto split: if_splits)
next
  case CancelParent
  then show ?thesis using assms parent by (auto split: if_splits)
next
  case (Pass d)
  then show ?thesis using assms passed by (auto split: if_splits)
qed

section \<open>The invariant\<close>

text \<open>A probe has succeeded exactly when \<open>Start\<close> has announced it, whether it has returned or not.\<close>

definition start_inv :: "world \<Rightarrow> bool" where
  "start_inv w \<longleftrightarrow>
    (starter w = NotCalled \<or> starter w = Created \<longrightarrow> reaper w = NoReaper) \<and>
    (starter w = Selecting \<or> starter w = Probing \<or> starter w = Readied \<or> starter w = StartReturned None \<longrightarrow>
       reaper w \<noteq> NoReaper) \<and>
    (m_ready (mgr w) \<longrightarrow> probed w) \<and>
    (probed w \<longleftrightarrow> starter w = Readied \<or> starter w = StartReturned None)"

definition reap_inv :: "world \<Rightarrow> bool" where
  "reap_inv w \<longleftrightarrow>
    (m_exited (mgr w) \<longleftrightarrow> reaper w = Closed) \<and>
    (reaper w = NoReaper \<longleftrightarrow> child w = NotStarted) \<and>
    (reaper w = Stored \<or> reaper w = Closed \<longrightarrow> child w = Died (m_exitErr (mgr w)))"

definition stop_inv :: "world \<Rightarrow> bool" where
  "stop_inv w \<longleftrightarrow>
    (m_stopping (mgr w) \<longleftrightarrow> stopper w \<noteq> Serving) \<and>
    (stopper w = StopWaiting \<longrightarrow> process_done w \<and> starter w \<noteq> NotCalled) \<and>
    (stopper w = StopTaken True \<or> m_cancel (mgr w) \<longrightarrow> starter w \<noteq> NotCalled)"

definition failure_inv :: "world \<Rightarrow> bool" where
  "failure_inv w \<longleftrightarrow>
    (\<forall>e. starter w = StartReturned (Some e) \<longrightarrow> process_done w) \<and>
    (\<forall>err. starter w = StartReturned (Some (NotLaunched err)) \<longrightarrow> reaper w = NoReaper) \<and>
    (\<forall>err. starter w = StartReturned (Some (ExitedEarly err)) \<longrightarrow> m_exited (mgr w) \<and> m_exitErr (mgr w) = err) \<and>
    (starter w = StartReturned (Some StartupTimedOut) \<longrightarrow>
       reaper w \<noteq> NoReaper \<and> started w + pc_StartupTimeout (m_cfg (mgr w)) \<le> wall w) \<and>
    (starter w = StartReturned (Some StartCanceled) \<longrightarrow> reaper w \<noteq> NoReaper \<and> parent_done w)"

definition coherent :: "world \<Rightarrow> bool" where
  "coherent w \<longleftrightarrow> start_inv w \<and> reap_inv w \<and> stop_inv w \<and> failure_inv w"

lemma coherent_new: "NewManager cfg random = Some m \<Longrightarrow> coherent (new_world m can t)"
  by (auto simp: coherent_def start_inv_def reap_inv_def stop_inv_def failure_inv_def new_world_def
      NewManager_def split: option.splits)

lemma start_inv_act: "act a w = Some w' \<Longrightarrow> start_inv w \<Longrightarrow> start_inv w'"
  by (erule act_cases) (auto simp: start_inv_def operations)

lemma reap_inv_act: "act a w = Some w' \<Longrightarrow> start_inv w \<Longrightarrow> reap_inv w \<Longrightarrow> reap_inv w'"
  by (erule act_cases) (auto simp: start_inv_def reap_inv_def operations)

lemma stop_inv_act: "act a w = Some w' \<Longrightarrow> stop_inv w \<Longrightarrow> stop_inv w'"
  by (erule act_cases) (auto simp: stop_inv_def operations)

lemma failure_inv_act:
  assumes "act a w = Some w'" "start_inv w" "reap_inv w" "failure_inv w"
  shows "failure_inv w'"
proof -
  have s: "starter w = Created \<Longrightarrow> reaper w = NoReaper" "starter w = Selecting \<Longrightarrow> reaper w \<noteq> NoReaper"
    "m_exited (mgr w) \<longleftrightarrow> reaper w = Closed"
    using assms(2,3) by (simp_all add: start_inv_def reap_inv_def)
  show ?thesis
    by (insert assms(4), rule act_cases [OF assms(1)]) (simp_all add: failure_inv_def operations s, auto)
qed

lemma coherent_act: "coherent w \<Longrightarrow> act a w = Some w' \<Longrightarrow> coherent w'"
  unfolding coherent_def using start_inv_act reap_inv_act stop_inv_act failure_inv_act by blast

lemma reached_coherent:
  assumes "reached m w" "NewManager cfg random = Some m"
  shows "coherent w"
  using assms(1) by induction (auto intro: coherent_new [OF assms(2)] coherent_act)

text \<open>The configuration and the key of the manager never change.\<close>

lemma act_constant: "act a w = Some w' \<Longrightarrow> m_cfg (mgr w') = m_cfg (mgr w) \<and> m_key (mgr w') = m_key (mgr w)"
  by (erule act_cases) (simp_all add: operations)

section \<open>What the manager promises\<close>

lemma ready_after_probe_aux:
  assumes "NewManager cfg random = Some m" "reached m w" "Manager_Ready (mgr w)"
  shows "(starter w = Readied \<or> starter w = StartReturned None) \<and> probed w \<and> child w \<noteq> NotStarted"
  using reached_coherent [OF assms(2,1)] assms(3)
  by (auto simp: coherent_def start_inv_def reap_inv_def Manager_Ready_def)

text \<open>\<open>Start\<close> cannot go back on the announcement.\<close>

lemma announced_acts:
  "acts as w = Some w' \<Longrightarrow> starter w = Readied \<or> starter w = StartReturned None \<Longrightarrow>
    starter w' = Readied \<or> starter w' = StartReturned None"
  by (erule runs_keep [where P = "\<lambda>w. starter w = Readied \<or> starter w = StartReturned None"], assumption)
    (erule act_cases, auto simp: operations)

text \<open>
  C25. The manager is ready only after a process was launched and a probe of it has succeeded;
  \<open>Start\<close> has then announced it, and has returned without an error or has only its return left,
  so it never fails after that.
\<close>

theorem ready_after_probe:
  assumes "NewManager cfg random = Some m" "reached m w" "Manager_Ready (mgr w)"
  shows "(starter w = Readied \<or> starter w = StartReturned None) \<and> probed w \<and> child w \<noteq> NotStarted \<and>
    (\<forall>as w'. acts as w = Some w' \<longrightarrow> starter w' = Readied \<or> starter w' = StartReturned None)"
  using ready_after_probe_aux [OF assms] announced_acts by blast

text \<open>
  C24. When \<open>Start\<close> has failed, the context of the process has ended, which is the order to kill
  it, and the error tells the truth: the process was never launched, or it has exited with that
  very error, or the time for the start was over, or the caller gave up. In the last two cases
  the process need not have ended yet: \<open>Start\<close> does not wait for it.
\<close>

theorem failed_start:
  assumes "NewManager cfg random = Some m" "reached m w" "starter w = StartReturned (Some e)"
  shows "process_done w \<and>
    (case e of
       NotLaunched err \<Rightarrow> child w = NotStarted
     | ExitedEarly err \<Rightarrow> child w = Died err \<and> ExitError (mgr w) = err
     | StartupTimedOut \<Rightarrow> child w \<noteq> NotStarted \<and> started w + pc_StartupTimeout (m_cfg (mgr w)) \<le> wall w
     | StartCanceled \<Rightarrow> child w \<noteq> NotStarted \<and> parent_done w)"
proof -
  have f: "failure_inv w" and r: "reaper w = NoReaper \<longleftrightarrow> child w = NotStarted"
    "m_exited (mgr w) \<Longrightarrow> child w = Died (m_exitErr (mgr w))"
    using reached_coherent [OF assms(2,1)] by (simp_all add: coherent_def reap_inv_def)
  from f assms(3) show ?thesis
    by (cases e) (simp_all add: failure_inv_def ExitError_def r)
qed

text \<open>The states that actions lead to.\<close>

interpretation acting: machine act "\<lambda>a. True" "reached m" for m
  by unfold_locales (blast intro: reached.more)

lemma reached_acts: "acts as w = Some w' \<Longrightarrow> reached m w \<Longrightarrow> reached m w'"
  by (erule acting.state_runs) (simp_all add: list_all_iff)

text \<open>A \<open>Stop\<close> that waits where no process was launched waits for ever.\<close>

definition stuck :: "world \<Rightarrow> bool" where
  "stuck w \<longleftrightarrow> stopper w = StopWaiting \<and> child w = NotStarted \<and> reaper w = NoReaper \<and> \<not> m_exited (mgr w) \<and>
    process_done w \<and> starter w \<noteq> NotCalled \<and> starter w \<noteq> Selecting \<and> starter w \<noteq> Probing \<and> starter w \<noteq> Readied"

lemma stuck_act: "act a w = Some w' \<Longrightarrow> stuck w \<Longrightarrow> stuck w'"
  by (erule act_cases) (simp_all add: stuck_def operations)

lemma stuck_acts: "acts as w = Some w' \<Longrightarrow> stuck w \<Longrightarrow> stuck w'"
  by (erule runs_keep) (auto intro: stuck_act)

lemma stop_finishes:
  assumes "coherent w" "stopper w = StopWaiting" "child w \<noteq> NotStarted"
  obtains as w' where "acts as w = Some w'" "stopper w' = Stopped" "length as \<le> 4"
proof -
  have r: "reaper w \<noteq> NoReaper" "m_exited (mgr w) \<longleftrightarrow> reaper w = Closed"
    "reaper w = Stored \<or> reaper w = Closed \<Longrightarrow> child w \<noteq> Alive"
    using assms(1,3) by (auto simp: coherent_def reap_inv_def)
  show ?thesis
  proof (cases "reaper w")
    case Reaping
    show ?thesis
    proof (cases "child w")
      case Alive
      then show ?thesis
        using Reaping assms(2)
        by - (rule that [of "[ChildDies None, ReapStore, ReapClose, StopStep]"], simp add: operations, simp, simp)
    next
      case (Died err)
      then show ?thesis
        using Reaping assms(2)
        by - (rule that [of "[ReapStore, ReapClose, StopStep]"], simp add: operations, simp, simp)
    qed (use assms(3) in simp)
  next
    case Stored
    then show ?thesis
      using assms(2)
        by - (rule that [of "[ReapClose, StopStep]"], simp add: operations, simp, simp)
  next
    case Closed
    then show ?thesis
      using assms(2) r(2)
        by - (rule that [of "[StopStep]"], simp add: operations, simp, simp)
  qed (use r in simp)
qed

text \<open>
  C23. A call of \<open>Stop\<close> that waits for the end of the process can return exactly when a process
  was launched: the process is told to end, its death is awaited and reported, and four more
  steps are enough. When the launch has failed, or is refused because \<open>Stop\<close> came before it,
  the call never returns, whatever happens.
\<close>

theorem stop_returns_iff_launched:
  assumes "NewManager cfg random = Some m" "reached m w" "stopper w = StopWaiting"
  shows "process_done w \<and>
    ((\<exists>as w'. acts as w = Some w' \<and> length as \<le> 4 \<and> stopper w' = Stopped) \<longleftrightarrow> child w \<noteq> NotStarted) \<and>
    ((\<exists>as w'. acts as w = Some w' \<and> stopper w' = Stopped) \<longleftrightarrow> child w \<noteq> NotStarted)"
proof -
  note c = reached_coherent [OF assms(2,1)]
  have p: "process_done w" using c assms(3) by (simp add: coherent_def stop_inv_def)
  have s: "stuck w" if "child w = NotStarted"
    using c assms(3) that by (auto simp: coherent_def stuck_def start_inv_def reap_inv_def stop_inv_def)
  have "child w \<noteq> NotStarted" if "acts as w = Some w'" "stopper w' = Stopped" for as w'
    using stuck_acts [OF that(1)] s that(2) by (auto simp: stuck_def)
  moreover have "\<exists>as w'. acts as w = Some w' \<and> length as \<le> 4 \<and> stopper w' = Stopped" if "child w \<noteq> NotStarted"
    using stop_finishes [OF c assms(3) that] by metis
  ultimately show ?thesis using p by blast
qed

lemma unready_acts:
  "acts as w = Some w' \<Longrightarrow> starter w = StartReturned r \<Longrightarrow> \<not> m_ready (mgr w) \<Longrightarrow> \<not> m_ready (mgr w')"
proof -
  assume a: "acts as w = Some w'" "starter w = StartReturned r" "\<not> m_ready (mgr w)"
  have "starter v' = StartReturned r \<and> \<not> m_ready (mgr v')"
    if "act b v = Some v'" "starter v = StartReturned r \<and> \<not> m_ready (mgr v)" for b v v'
    using that by - (erule act_cases, simp_all add: operations)
  with runs_keep [OF a(1), where P = "\<lambda>w. starter w = StartReturned r \<and> \<not> m_ready (mgr w)"] a(2,3)
  show ?thesis by blast
qed

text \<open>
  When \<open>Start\<close> has returned before \<open>Stop\<close> takes the readiness back, the manager is never
  ready again.
\<close>

lemma stopped_stays_unready:
  assumes "starter w = StartReturned r" "stopper w = StopFlagged" "act StopStep w = Some w1" "acts as w1 = Some w2"
  shows "\<not> Manager_Ready (mgr w2)"
  using unready_acts [OF assms(4), of r] assms(1-3) by (auto simp: stop_not_ready_def Manager_Ready_def)

section \<open>Concrete runs\<close>

definition sample_process :: ProcessConfig where
  "sample_process = \<lparr>pc_Binary = ''/opt/granite/llama-server'',
     pc_Model = ''/opt/granite/granite-4.0-350m-Q4_K_M.gguf'', pc_Threads = 8, pc_ContextSize = 2048,
     pc_StartupTimeout = 90500000000\<rparr>"

definition sample_manager :: Manager where
  "sample_manager = the (NewManager sample_process (Some ''0123456789abcdef0123456789abcdef''))"

lemma sample_NewManager: "NewManager sample_process (Some ''0123456789abcdef0123456789abcdef'') = Some sample_manager"
  by (simp add: sample_manager_def NewManager_def)

text \<open>A start that succeeds at the second tick, a start that times out, and a stop that waits.\<close>

definition good_start :: "action list" where
  "good_start = [CallStart, Launch None, Pass 10000000, SelectTick, ProbeReturns False, Pass 25000000, SelectTick,
     ProbeReturns True, StartReturns]"

definition slow_start :: "action list" where
  "slow_start = [CallStart, Launch None, Pass 120000000000, SelectDeadline]"

definition begin_stop :: "action list" where
  "begin_stop = [StopStep, StopStep, StopStep, StopStep]"

definition at_rest :: "action list \<Rightarrow> world \<Rightarrow> bool" where
  "at_rest as w \<longleftrightarrow> acts as (new_world sample_manager False 0) = Some w"

lemma at_rest_reached: "at_rest as w \<Longrightarrow> reached sample_manager w"
  unfolding at_rest_def by (rule reached_acts [OF _ reached.start])

lemma good_start_ends:
  "map_option (\<lambda>w. (starter w, m_ready (mgr w), next_tick w)) (acts good_start (new_world sample_manager False 0)) =
    Some (StartReturned None, True, 40000000)"
  by code_simp

lemma slow_start_ends:
  "map_option (\<lambda>w. (starter w, wall w)) (acts slow_start (new_world sample_manager False 0)) =
    Some (StartReturned (Some StartupTimedOut), 120000000000)"
  by code_simp

text \<open>
  The start is given up, and nothing has happened to the process: it may still be running. And
  the manager can be seen ready before \<open>Start\<close> has returned.
\<close>

lemma slow_start_leaves_process:
  "map_option (\<lambda>w. (starter w, process_done w, child w)) (acts slow_start (new_world sample_manager False 0)) =
    Some (StartReturned (Some StartupTimedOut), True, Alive)"
  by code_simp

lemma ready_before_return:
  "map_option (\<lambda>w. (starter w, Manager_Ready (mgr w))) (acts (butlast good_start) (new_world sample_manager False 0)) =
    Some (Readied, True)"
  by code_simp

lemma stop_after_start:
  "map_option (\<lambda>w. (stopper w, child w)) (acts (good_start @ begin_stop) (new_world sample_manager False 0)) =
    Some (StopWaiting, Alive)"
  by code_simp

lemma stop_before_launch:
  "map_option (\<lambda>w. (stopper w, child w)) (acts ([CallStart] @ begin_stop) (new_world sample_manager False 0)) =
    Some (StopWaiting, NotStarted)"
  by code_simp

text \<open>A probe that is on its way while \<open>Stop\<close> runs makes the manager ready after it.\<close>

lemma ready_while_stopping:
  "map_option (\<lambda>w. (Manager_Stopping (mgr w), Manager_Ready (mgr w)))
     (acts ([CallStart, Launch None, Pass 10000000, SelectTick] @ begin_stop @ [ProbeReturns True])
        (new_world sample_manager False 0)) = Some (True, True)"
  by code_simp

theorem ready_after_probe_witness:
  "\<exists>w w'. at_rest (butlast good_start) w \<and> Manager_Ready (mgr w) \<and> probed w \<and> starter w = Readied \<and>
    acts [StartReturns] w = Some w' \<and> starter w' \<noteq> StartReturned (Some StartupTimedOut)"
proof -
  obtain w where w: "acts (butlast good_start) (new_world sample_manager False 0) = Some w" "Manager_Ready (mgr w)"
    "starter w = Readied"
    using ready_before_return by auto
  then have w': "acts [StartReturns] w = Some (start_return w)" by simp
  from ready_after_probe [OF sample_NewManager at_rest_reached, of "butlast good_start" w] w w' show ?thesis
    unfolding at_rest_def by fastforce
qed

theorem failed_start_witness:
  "\<exists>w. at_rest slow_start w \<and> starter w = StartReturned (Some StartupTimedOut) \<and> process_done w"
proof -
  obtain w where w: "acts slow_start (new_world sample_manager False 0) = Some w"
    "starter w = StartReturned (Some StartupTimedOut)"
    using slow_start_ends by auto
  then show ?thesis
    using failed_start [OF sample_NewManager at_rest_reached, of slow_start w]
    by (auto simp: at_rest_def)
qed

theorem stop_returns_iff_launched_witness:
  "(\<exists>w as w'. at_rest (good_start @ begin_stop) w \<and> acts as w = Some w' \<and> stopper w' = Stopped) \<and>
   (\<exists>w. at_rest ([CallStart] @ begin_stop) w \<and> \<not> (\<exists>as w'. acts as w = Some w' \<and> stopper w' = Stopped))"
proof -
  obtain w where w: "at_rest (good_start @ begin_stop) w" "stopper w = StopWaiting" "child w = Alive"
    using stop_after_start by (auto simp: at_rest_def)
  obtain v where v: "at_rest ([CallStart] @ begin_stop) v" "stopper v = StopWaiting" "child v = NotStarted"
    using stop_before_launch by (auto simp: at_rest_def)
  from stop_returns_iff_launched [OF sample_NewManager at_rest_reached, of _ w] w
    stop_returns_iff_launched [OF sample_NewManager at_rest_reached, of _ v] v
  show ?thesis by (metis child.distinct(1))
qed

end
