(* ===== verification/Svc.thy ===== *)
theory Svc
  imports Process ServiceRun
begin

text \<open>
  \<open>internal/svc/context.go\<close>: the wiring of the service. The clients get the address and the key
  of the local model and the settings of the infrastructure service; the service asks the
  manager whether the model is ready.
\<close>

record ServiceContext =
  sctx_Config :: Config
  sctx_Model :: GraniteClient
  sctx_Infra :: InfraClient
  sctx_Service :: ServiceConfig
  sctx_Store :: service_store

definition service_config :: "Config \<Rightarrow> ServiceConfig" where
  "service_config cfg =
    \<lparr>sc_ModelID = ModelID (Granite cfg), sc_MaxMessageLength = MaxMessageLength (Granite cfg),
     sc_AllowForceStop = AllowForceStop (Granite cfg), sc_DedupWindow = ActionDedupWindow (Granite cfg)\<rparr>"

definition NewServiceContext :: "Config \<Rightarrow> Manager \<Rightarrow> ServiceContext" where
  "NewServiceContext cfg manager =
    (let client = NewGraniteClient ''http://127.0.0.1:18080'' (Manager_APIKey manager) (ModelID (Granite cfg))
                    (MaxTokens (Granite cfg));
         service = service_config cfg
     in \<lparr>sctx_Config = cfg, sctx_Model = client, sctx_Infra = NewInfraClient (InfraControl cfg),
         sctx_Service = service, sctx_Store = NewService service\<rparr>)"

text \<open>A request to the wired service, while the manager is in a given state.\<close>

definition context_Complete ::
  "network \<Rightarrow> ServiceContext \<Rightarrow> Manager \<Rightarrow> call_env \<Rightarrow> string \<Rightarrow> ChatCompletionRequest
    \<Rightarrow> service_store \<Rightarrow> history \<Rightarrow> completion \<times> service_store \<times> history"
where
  "context_Complete net ctx manager env =
    Complete (Select net (sctx_Model ctx)) (GetVM net (sctx_Infra ctx)) (Mutate net (sctx_Infra ctx))
      (sctx_Service ctx) (env\<lparr>ce_ready := Service_Ready (Some (Manager_Ready manager))\<rparr>)"

lemma NewServiceContext_simps [simp]:
  "sctx_Config (NewServiceContext cfg m) = cfg"
  "sctx_Infra (NewServiceContext cfg m) = NewInfraClient (InfraControl cfg)"
  "sctx_Service (NewServiceContext cfg m) = service_config cfg"
  "sctx_Store (NewServiceContext cfg m) = NewService (service_config cfg)"
  by (simp_all add: NewServiceContext_def Let_def)

lemma model_endpoint: "gc_endpoint (sctx_Model (NewServiceContext cfg m)) = ''http://127.0.0.1:18080/v1/chat/completions''"
  by (simp add: NewServiceContext_def NewGraniteClient_def TrimRight_def Let_def)

section \<open>Where the requests go\<close>

lemma FormatInt_chars: "set (FormatInt v) \<subseteq> set ''-0123456789''"
proof -
  have d: "c \<in> set ''0123456789''" if "is_digit c" for c
  proof -
    have "list_all (\<lambda>n. byte n \<in> set ''0123456789'') [48..57]" by code_simp
    moreover have "code c \<in> set [48..57]" using that unfolding set_upto is_digit_def atLeastAtMost_iff by blast
    ultimately have "byte (code c) \<in> set ''0123456789''" unfolding list_all_iff by (rule bspec)
    then show ?thesis by simp
  qed
  have "list_all is_digit (itoa_pos (if v < 0 then - v else v))" using itoa_pos_digits by simp
  then have i: "set (itoa_pos (if v < 0 then - v else v)) \<subseteq> set ''0123456789''" using d unfolding list_all_iff by blast
  have "set (FormatInt v) \<subseteq> insert CHR ''-'' (set (itoa_pos (if v < 0 then - v else v)))"
    by (auto simp: FormatInt_def)
  also have "\<dots> \<subseteq> insert CHR ''-'' (set ''0123456789'')" using i by (rule insert_mono)
  finally show ?thesis unfolding list.set .
qed

lemma plain_path:
  assumes "set p \<subseteq> set ''-0123456789abcdefghijklmnopqrstuvwxyz/''"
  shows "set p \<inter> set ''#?%'' = {}" "\<not> has_ctl p"
proof -
  have "list_all (\<lambda>c. c \<notin> set ''#?%'' \<and> \<not> (code c < 0x20 \<or> code c = 0x7F)) ''-0123456789abcdefghijklmnopqrstuvwxyz/''"
    by code_simp
  then have "c \<notin> set ''#?%'' \<and> \<not> (code c < 0x20 \<or> code c = 0x7F)" if "c \<in> set p" for c
    using assms that unfolding list_all_iff by blast
  then show "set p \<inter> set ''#?%'' = {}" "\<not> has_ctl p" by (blast, simp add: has_ctl_def list_ex_iff)
qed

lemma vm_path_plain: "set (vm_path v) \<subseteq> set ''-0123456789abcdefghijklmnopqrstuvwxyz/''"
proof -
  have "set ''/api/v1/pve/vms/'' \<subseteq> set ''-0123456789abcdefghijklmnopqrstuvwxyz/''"
    "set ''-0123456789'' \<subseteq> set ''-0123456789abcdefghijklmnopqrstuvwxyz/''" by code_simp+
  then show ?thesis using FormatInt_chars [of v] unfolding vm_path_def set_append by blast
qed

lemma action_plain:
  assumes "a \<in> {''start'', ''shutdown'', ''stop'', ''reboot''}"
  shows "set (''/'' @ a) \<subseteq> set ''-0123456789abcdefghijklmnopqrstuvwxyz/''"
proof -
  have "list_all (\<lambda>a. set (''/'' @ a) \<subseteq> set ''-0123456789abcdefghijklmnopqrstuvwxyz/'') [''start'', ''shutdown'', ''stop'', ''reboot'']"
    by code_simp
  then show ?thesis using assms unfolding list_all_iff by auto
qed

lemma TrimRight_last: "TrimRight s c = [] \<or> last (TrimRight s c) \<noteq> c"
proof (cases "dropWhile (\<lambda>d. d = c) (rev s)")
  case (Cons d ds)
  then have "d \<noteq> c" using hd_dropWhile [of "\<lambda>d. d = c" "rev s"] by simp
  with Cons show ?thesis by (simp add: TrimRight_def)
qed (simp add: TrimRight_def)

text \<open>The two kinds of requests, once their address parses.\<close>

lemma infra_do_sends:
  assumes "url_Parse (ic_baseURL c @ path) \<noteq> None"
  obtains req out where "snd (infra_do net c rid method path h) = h @ [(req, out)]"
    "req_Method req = method" "req_URL req = ic_baseURL c @ path"
proof -
  obtain r where r: "NewRequest method (ic_baseURL c @ path) '''' = Some r"
    using assms by (simp add: NewRequest_def)
  obtain q where q: "q = header_Set ''X-Request-ID'' rid (header_Set ''Accept'' ''application/json''
      (header_Set ''Authorization'' (''Bearer '' @ ic_token c) r))" by simp
  have "snd (infra_do net c rid method path h) = h @ [(q, net h q)]"
    by (simp add: infra_do_def r Let_def http_Do_def q split: outcome.splits)
  with NewRequest_fields [OF r] show ?thesis by (intro that [of q "net h q"]) (simp_all add: q)
qed

lemma GetVM_history: "snd (GetVM net c rid v h) = snd (infra_do net c rid ''GET'' (vm_path v) h)"
  by (simp add: GetVM_def split: prod.splits sum.splits)

lemma Mutate_history:
  "a \<in> {''start'', ''shutdown'', ''stop'', ''reboot''} \<Longrightarrow>
    snd (Mutate net c rid a v h) = snd (infra_do net c rid ''POST'' (vm_path v @ ''/'' @ a) h)"
  by (auto simp: Mutate_def split: prod.splits sum.splits)

lemma configured_address:
  assumes "Load file env = Inr cfg" "p = CHR ''/'' # q" "set p \<subseteq> set ''-0123456789abcdefghijklmnopqrstuvwxyz/''"
    and "CHR ''#'' \<notin> set (BaseURL (InfraControl cfg))" "CHR ''?'' \<notin> set (BaseURL (InfraControl cfg))"
  obtains origin u where "url_Parse (BaseURL (InfraControl cfg)) = Some origin"
    "url_Parse (BaseURL (InfraControl cfg) @ p) = Some u" "Path u = p" "RawQuery u = ''''" "Host u = Host origin"
proof -
  obtain s where s: "BaseURL (InfraControl cfg) = TrimRight s CHR ''/''" using assms(1) unfolding Load_Inr by blast
  have v: "validOrigin (BaseURL (InfraControl cfg))" using assms(1) unfolding Load_Inr Validate_None by blast
  have o: "BaseURL (InfraControl cfg) = [] \<or> last (BaseURL (InfraControl cfg)) \<noteq> CHR ''/''"
    unfolding s by (rule TrimRight_last)
  from origin_path [OF v assms(4,5) o assms(2) plain_path [OF assms(3)]] that show ?thesis by blast
qed

text \<open>
  C28. With a configuration that was loaded, the address of the infrastructure service having no
  sign that starts a query or a fragment, every query and every change is really sent: its
  address is well formed, on the configured host, and its path is the one of the interface for
  this VM and this action.
\<close>

theorem configured_requests_are_sent:
  assumes "Load file env = Inr cfg"
    and "CHR ''#'' \<notin> set (BaseURL (InfraControl cfg))" "CHR ''?'' \<notin> set (BaseURL (InfraControl cfg))"
    and "a \<in> {''start'', ''shutdown'', ''stop'', ''reboot''}"
  shows "\<exists>origin get get_out post post_out u w.
    url_Parse (BaseURL (InfraControl cfg)) = Some origin \<and>
    snd (GetVM net (sctx_Infra (NewServiceContext cfg m)) rid v h) = h @ [(get, get_out)] \<and>
    req_Method get = ''GET'' \<and> url_Parse (req_URL get) = Some u \<and>
    Host u = Host origin \<and> Path u = ''/api/v1/pve/vms/'' @ FormatInt v \<and> RawQuery u = '''' \<and>
    snd (Mutate net (sctx_Infra (NewServiceContext cfg m)) rid a v h) = h @ [(post, post_out)] \<and>
    req_Method post = ''POST'' \<and> url_Parse (req_URL post) = Some w \<and>
    Host w = Host origin \<and> Path w = ''/api/v1/pve/vms/'' @ FormatInt v @ ''/'' @ a \<and> RawQuery w = ''''"
proof -
  let ?b = "BaseURL (InfraControl cfg)" and ?c = "NewInfraClient (InfraControl cfg)"
  have c: "ic_baseURL ?c = ?b" by (simp add: NewInfraClient_def)
  have p: "vm_path v = CHR ''/'' # ''api/v1/pve/vms/'' @ FormatInt v"
    "vm_path v @ ''/'' @ a = CHR ''/'' # ''api/v1/pve/vms/'' @ FormatInt v @ ''/'' @ a"
    by (simp_all add: vm_path_def)
  have pl: "set (vm_path v @ ''/'' @ a) \<subseteq> set ''-0123456789abcdefghijklmnopqrstuvwxyz/''"
    using vm_path_plain [of v] action_plain [OF assms(4)] unfolding set_append by blast
  obtain x u where u: "url_Parse ?b = Some x" "url_Parse (?b @ vm_path v) = Some u" "Path u = vm_path v"
    "RawQuery u = ''''" "Host u = Host x"
    by (rule configured_address [OF assms(1) p(1) vm_path_plain assms(2,3)])
  obtain y w where w: "url_Parse ?b = Some y" "url_Parse (?b @ vm_path v @ ''/'' @ a) = Some w"
    "Path w = vm_path v @ ''/'' @ a" "RawQuery w = ''''" "Host w = Host y"
    by (rule configured_address [OF assms(1) p(2) pl assms(2,3)])
  obtain get go where g: "snd (infra_do net ?c rid ''GET'' (vm_path v) h) = h @ [(get, go)]"
    "req_Method get = ''GET''" "req_URL get = ?b @ vm_path v"
    using infra_do_sends [of ?c "vm_path v" net rid "''GET''" h] u(2) unfolding c by blast
  obtain post po where q: "snd (infra_do net ?c rid ''POST'' (vm_path v @ ''/'' @ a) h) = h @ [(post, po)]"
    "req_Method post = ''POST''" "req_URL post = ?b @ vm_path v @ ''/'' @ a"
    using infra_do_sends [of ?c "vm_path v @ ''/'' @ a" net rid "''POST''" h] w(2) unfolding c by blast
  have "y = x" using u(1) w(1) by simp
  then have f: "Path u = ''/api/v1/pve/vms/'' @ FormatInt v" "Path w = ''/api/v1/pve/vms/'' @ FormatInt v @ ''/'' @ a"
    "Host w = Host x" using u(3) w(3,5) by (simp_all add: vm_path_def)
  show ?thesis
    unfolding NewServiceContext_simps GetVM_history Mutate_history [OF assms(4)]
    using u(1) g(1,2) u(2) [folded g(3)] u(5) f u(4) q(1,2) w(2) [folded q(3)] w(4) by blast
qed

text \<open>A change through the wired clients is never taken for a request to the model.\<close>

lemma change_is_not_model:
  assumes "a \<in> {''start'', ''shutdown'', ''stop'', ''reboot''}"
  shows "base @ vm_path v @ ''/'' @ a \<noteq> gc_endpoint (sctx_Model (NewServiceContext cfg m))"
proof -
  have "last (base @ vm_path v @ ''/'' @ a) = last a" using assms by auto
  moreover have "last (gc_endpoint (sctx_Model (NewServiceContext cfg m))) = CHR ''s''" by (simp add: model_endpoint)
  moreover have "last a \<noteq> CHR ''s''" using assms by auto
  ultimately show ?thesis by metis
qed

text \<open>
  C26. Until a probe of the local model has succeeded, a request to the service is answered that
  the model is not ready; nothing is sent and nothing is remembered.
\<close>

theorem nothing_before_the_first_probe:
  assumes "NewManager pcfg random = Some m" "reached m w" "\<not> probed w"
  shows "\<exists>e. context_Complete net ctx (mgr w) env rid request st h = (Completed (Inl e), st, h) \<and>
    Code e = ''model_not_ready'' \<and> HTTPStatus e = 503"
proof -
  have "\<not> Manager_Ready (mgr w)" using ready_after_probe_aux [OF assms(1,2)] assms(3) by blast
  then show ?thesis
    by (simp add: context_Complete_def Service_Ready_def Complete_def prepare_def OpenAI_def OpenAIKind_def Let_def)
qed

section \<open>The concrete configuration, wired\<close>

definition loaded_sample :: Config where
  "loaded_sample = (case Load (Some sample_file) sample_environment of Inr cfg \<Rightarrow> cfg)"

lemma loaded_sample: "Load (Some sample_file) sample_environment = Inr loaded_sample"
  "BaseURL (InfraControl loaded_sample) = ''http://infra:8080''"
  using sample_Load by (auto simp: loaded_sample_def split: sum.splits)

theorem configured_requests_are_sent_witness:
  "\<exists>post out w. snd (Mutate sample_network (sctx_Infra (NewServiceContext loaded_sample sample_manager)) ''id'' ''start'' 3052 []) =
      [(post, out)] \<and> url_Parse (req_URL post) = Some w \<and> Path w = ''/api/v1/pve/vms/'' @ FormatInt 3052 @ ''/start''"
  using configured_requests_are_sent [OF loaded_sample(1), of "''start''" sample_network sample_manager "''id''" 3052 "[]"]
  by (auto simp: loaded_sample(2))

theorem nothing_before_the_first_probe_witness:
  "\<exists>w e. at_rest [CallStart, Launch None] w \<and>
    context_Complete sample_world (NewServiceContext loaded_sample sample_manager) (mgr w) (sample_env 0) ''id'' sample_request
      (NewService sample_cfg) [] = (Completed (Inl e), NewService sample_cfg, []) \<and>
    HTTPStatus e = 503"
proof -
  have "map_option probed (acts [CallStart, Launch None] (new_world sample_manager False 0)) = Some False" by code_simp
  then obtain w where w: "at_rest [CallStart, Launch None] w" "\<not> probed w" by (auto simp: at_rest_def)
  from nothing_before_the_first_probe [OF sample_NewManager at_rest_reached [OF w(1)] w(2)] w(1) show ?thesis by blast
qed

end
