(* ===== verification/Program.thy ===== *)
theory Program
  imports Svc
begin

text \<open>
  \<open>cmd/granite-controller/main.go\<close>: the program. It loads the configuration, makes the manager
  and the server, starts the manager in a goroutine that also supervises it, serves, and stops
  the manager when serving ends. The supervision and the main goroutine run beside those of the
  manager; an exit ends all of them. The server is the framework's: that it returns is the first
  step of \<open>Stop\<close>.
\<close>

section \<open>The probe, the health check and the start\<close>

text \<open>The probe of the local model: an exchange that was answered with the status 200.\<close>

definition probe :: "network \<Rightarrow> string \<Rightarrow> history \<Rightarrow> bool \<times> history" where
  "probe net key h =
    (case NewRequest ''GET'' ''http://127.0.0.1:18080/health'' '''' of
       None \<Rightarrow> (False, h)
     | Some req \<Rightarrow>
         let req = header_Set ''Authorization'' (''Bearer '' @ key) req
         in case http_Do net req h of
           (Failure timeout dns, h) \<Rightarrow> (False, h)
         | (Answer resp, h) \<Rightarrow> (StatusCode resp = 200, h))"

definition checkHealth :: "network \<Rightarrow> string \<Rightarrow> history \<Rightarrow> goerror option \<times> history" where
  "checkHealth net url h =
    (case NewRequest ''GET'' url '''' of
       None \<Rightarrow> (Some (ErrorText ''health request failed''), h)
     | Some req \<Rightarrow>
         (case http_Do net req h of
            (Failure timeout dns, h) \<Rightarrow> (Some (ErrorText ''health request failed''), h)
          | (Answer resp, h) \<Rightarrow>
              (if StatusCode resp \<noteq> 200
               then (Some (ErrorText (''health returned status '' @ FormatInt (StatusCode resp))), h)
               else (None, h))))"

text \<open>The exit code of the program when it is called with \<open>healthcheck\<close>.\<close>

definition healthcheck_exit :: "network \<Rightarrow> history \<Rightarrow> int" where
  "healthcheck_exit net h = (if fst (checkHealth net ''http://127.0.0.1:8080/healthz'' h) = None then 0 else 1)"

definition process_config :: "Config \<Rightarrow> ProcessConfig" where
  "process_config cfg =
    \<lparr>pc_Binary = ''/opt/granite/llama-server'', pc_Model = ''/opt/granite/granite-4.0-350m-Q4_K_M.gguf'',
     pc_Threads = Threads (Granite cfg), pc_ContextSize = ContextSize (Granite cfg),
     pc_StartupTimeout = StartupTimeout (Granite cfg)\<rparr>"

text \<open>
  \<open>exit_code\<close> is that of the whole program, and \<open>supervising\<close> whether the goroutine of the
  supervision has not returned.
\<close>

record program =
  prog_Context :: ServiceContext
  wd :: world
  supervising :: bool
  exit_code :: "int option"

text \<open>
  \<open>run\<close>, up to serving: the exit code 1 for an error of the configuration, 2 for the panic of
  the manager, or the program. \<open>Start\<close> gets the background context, which cannot end.
\<close>

definition run :: "fileConfig option \<Rightarrow> environment \<Rightarrow> string option \<Rightarrow> int \<Rightarrow> int + program" where
  "run file env random now =
    (case Load file env of
       Inl err \<Rightarrow> Inl 1
     | Inr cfg \<Rightarrow>
         (case NewManager (process_config cfg) random of
            None \<Rightarrow> Inl 2
          | Some manager \<Rightarrow>
              Inr \<lparr>prog_Context = NewServiceContext cfg manager, wd = new_world manager False now,
                   supervising = True, exit_code = None\<rparr>))"

section \<open>Supervision\<close>

definition exitOnGraniteFailure :: "program \<Rightarrow> program" where
  "exitOnGraniteFailure p = p\<lparr>exit_code := Some 1\<rparr>"

text \<open>The goroutine of the supervision, once \<open>Start\<close> has returned.\<close>

definition supervise :: "program \<Rightarrow> program option" where
  "supervise p =
    (case starter (wd p) of
       StartReturned (Some err) \<Rightarrow> Some (exitOnGraniteFailure p\<lparr>supervising := False\<rparr>)
     | StartReturned None \<Rightarrow>
         if \<not> Wait_done (mgr (wd p)) then None
         else if Manager_Stopping (mgr (wd p)) then Some (p\<lparr>supervising := False\<rparr>)
         else Some (exitOnGraniteFailure p\<lparr>supervising := False\<rparr>)
     | _ \<Rightarrow> None)"

text \<open>The main goroutine returns after \<open>Stop\<close>, which never gives an error.\<close>

definition main_return :: "program \<Rightarrow> program option" where
  "main_return p = (if stopper (wd p) = Stopped then Some (p\<lparr>exit_code := Some 0\<rparr>) else None)"

datatype event = Act action | Supervise | MainReturns

fun happen :: "event \<Rightarrow> program \<Rightarrow> program option" where
  "happen (Act a) p =
    (if exit_code p = None then map_option (\<lambda>w. p\<lparr>wd := w\<rparr>) (act a (wd p)) else None)"
| "happen Supervise p = (if exit_code p = None \<and> supervising p then supervise p else None)"
| "happen MainReturns p = (if exit_code p = None then main_return p else None)"

abbreviation happens :: "event list \<Rightarrow> program \<Rightarrow> program option" where
  "happens \<equiv> runs happen"

inductive running :: "Manager \<Rightarrow> program \<Rightarrow> bool" for m where
  started: "running m \<lparr>prog_Context = c, wd = new_world m False t, supervising = True, exit_code = None\<rparr>"
| continued: "running m p \<Longrightarrow> happen e p = Some q \<Longrightarrow> running m q"

lemma happen_cases:
  assumes "happen e p = Some q"
  obtains (act) a w where "e = Act a" "exit_code p = None" "act a (wd p) = Some w" "q = p\<lparr>wd := w\<rparr>"
  | (failed) err where "exit_code p = None" "supervising p" "starter (wd p) = StartReturned (Some err)"
      "q = p\<lparr>supervising := False, exit_code := Some 1\<rparr>"
  | (ended) "exit_code p = None" "supervising p" "starter (wd p) = StartReturned None" "m_exited (mgr (wd p))"
      "m_stopping (mgr (wd p))" "q = p\<lparr>supervising := False\<rparr>"
  | (crashed) "exit_code p = None" "supervising p" "starter (wd p) = StartReturned None" "m_exited (mgr (wd p))"
      "\<not> m_stopping (mgr (wd p))" "q = p\<lparr>supervising := False, exit_code := Some 1\<rparr>"
  | (returned) "exit_code p = None" "stopper (wd p) = Stopped" "q = p\<lparr>exit_code := Some 0\<rparr>"
proof (cases e)
  case (Act a)
  then show ?thesis using assms act by (auto split: if_splits)
next
  case Supervise
  then show ?thesis
    using assms failed ended crashed
    by (auto simp: supervise_def exitOnGraniteFailure_def Wait_done_def Manager_Stopping_def
        split: if_splits starter.splits option.splits)
next
  case MainReturns
  then show ?thesis using assms returned by (auto simp: main_return_def split: if_splits)
qed

section \<open>The invariant of the program\<close>

text \<open>\<open>Stop\<close> returns after the exit of the process, or because it has found nothing to cancel.\<close>

definition taken_inv :: "world \<Rightarrow> bool" where
  "taken_inv w \<longleftrightarrow>
    (stopper w = Stopped \<and> \<not> m_exited (mgr w) \<or> stopper w = StopTaken False \<longrightarrow>
       starter w = NotCalled \<or> m_cancel (mgr w)) \<and>
    (starter w = NotCalled \<longrightarrow> \<not> m_cancel (mgr w)) \<and>
    (stopper w = Serving \<or> stopper w = StopFlagged \<or> stopper w = StopNotReady \<longrightarrow>
       starter w = NotCalled \<or> m_cancel (mgr w))"

lemma taken_inv_act: "act a w = Some w' \<Longrightarrow> taken_inv w \<Longrightarrow> taken_inv w'"
  by (erule act_cases) (auto simp: taken_inv_def operations)

definition program_inv :: "program \<Rightarrow> bool" where
  "program_inv p \<longleftrightarrow> coherent (wd p) \<and> taken_inv (wd p) \<and>
    (\<not> supervising p \<and> exit_code p = None \<longrightarrow> m_exited (mgr (wd p)) \<and> starter (wd p) = StartReturned None) \<and>
    (exit_code p = Some 0 \<longrightarrow> stopper (wd p) = Stopped) \<and>
    (exit_code p = Some 1 \<longrightarrow> (\<exists>err. starter (wd p) = StartReturned (Some err)) \<or>
       starter (wd p) = StartReturned None \<and> m_exited (mgr (wd p)) \<and> \<not> m_stopping (mgr (wd p))) \<and>
    (\<forall>n. exit_code p = Some n \<longrightarrow> n = 0 \<or> n = 1)"

lemma exited_act: "act a w = Some w' \<Longrightarrow> m_exited (mgr w) \<and> starter w = StartReturned r \<Longrightarrow> m_exited (mgr w') \<and> starter w' = StartReturned r"
  by (erule act_cases) (simp_all add: operations)

lemma program_inv_happen: "happen e p = Some q \<Longrightarrow> program_inv p \<Longrightarrow> program_inv q"
proof (erule happen_cases)
  fix a w
  assume a: "act a (wd p) = Some w" "q = p\<lparr>wd := w\<rparr>" "exit_code p = None" and i: "program_inv p"
  then show ?thesis
    using coherent_act [OF _ a(1)] taken_inv_act [OF a(1)] exited_act [OF a(1), of None]
    by (auto simp: program_inv_def)
qed (auto simp: program_inv_def)

lemma running_inv:
  assumes "NewManager cfg random = Some m" "running m p"
  shows "program_inv p"
  using assms(2)
proof induction
  case (started c t)
  show ?case using coherent_new [OF assms(1), of False t] assms(1)
    by (auto simp: program_inv_def taken_inv_def new_world_def NewManager_def split: option.splits)
qed (rule program_inv_happen)

interpretation happening: machine happen "\<lambda>e. True" "running m" for m
  by unfold_locales (blast intro: running.continued)

lemma happens_running: "happens es p = Some q \<Longrightarrow> running m p \<Longrightarrow> running m q"
  by (erule happening.state_runs) (simp_all add: list_all_iff)

section \<open>How the program ends\<close>

lemma act_keeps:
  "act a w = Some w' \<Longrightarrow> m_stopping (mgr w) \<Longrightarrow> m_stopping (mgr w')"
  "act a w = Some w' \<Longrightarrow> starter w = StartReturned r \<Longrightarrow> starter w' = StartReturned r"
  by (erule act_cases; simp add: operations)+

definition stopping_well :: "program \<Rightarrow> bool" where
  "stopping_well p \<longleftrightarrow> (starter (wd p) = Readied \<or> starter (wd p) = StartReturned None) \<and>
    m_stopping (mgr (wd p)) \<and> exit_code p \<noteq> Some 1"

lemma stopping_well_step:
  assumes "happen e p = Some q" "stopping_well p"
  shows "stopping_well q"
  using assms(1)
proof (cases rule: happen_cases)
  case (act a w)
  then show ?thesis
    using assms(2) announced_acts [of "[a]" "wd p" w] act_keeps(1) [OF act(3)] by (simp add: stopping_well_def)
qed (use assms(2) in \<open>simp_all add: stopping_well_def\<close>)

lemma stopping_well_steps: "happens es p = Some q \<Longrightarrow> stopping_well p \<Longrightarrow> stopping_well q"
  by (erule runs_keep) (auto intro: stopping_well_step)


lemma running_exit_codes:
  assumes "NewManager cfg random = Some m" "running m p" "exit_code p = Some n"
  shows "n = 0 \<and> Manager_Stopping (mgr (wd p)) \<and> (child (wd p) = Alive \<longrightarrow> m_cancel (mgr (wd p))) \<or>
    n = 1 \<and> ((\<exists>err. starter (wd p) = StartReturned (Some err)) \<and> process_done (wd p) \<or>
      starter (wd p) = StartReturned None \<and> \<not> Manager_Stopping (mgr (wd p)) \<and> (\<exists>err. child (wd p) = Died err))"
proof -
  note i = running_inv [OF assms(1,2)]
  have c: "coherent (wd p)" "taken_inv (wd p)" "n = 0 \<or> n = 1" using i assms(3) by (auto simp: program_inv_def)
  from c(3) show ?thesis
  proof
    assume n: "n = 0"
    then have s: "stopper (wd p) = Stopped" using i assms(3) by (simp add: program_inv_def)
    then have "m_stopping (mgr (wd p))" using c(1) by (simp add: coherent_def stop_inv_def)
    moreover have "m_cancel (mgr (wd p))" if "child (wd p) = Alive"
      using c(1,2) s that by (auto simp: coherent_def start_inv_def reap_inv_def taken_inv_def)
    ultimately show ?thesis using n by (simp add: Manager_Stopping_def)
  next
    assume n: "n = 1"
    then consider err where "starter (wd p) = StartReturned (Some err)"
      | "starter (wd p) = StartReturned None" "m_exited (mgr (wd p))" "\<not> m_stopping (mgr (wd p))"
      using i assms(3) by (auto simp: program_inv_def)
    then show ?thesis
    proof cases
      case 1
      then show ?thesis using n c(1) by (simp add: coherent_def failure_inv_def)
    next
      case 2
      then show ?thesis using n c(1) by (simp add: coherent_def reap_inv_def Manager_Stopping_def)
    qed
  qed
qed

lemma run_running:
  assumes "run file env random now = Inr p0"
  obtains m where "NewManager (process_config (sctx_Config (prog_Context p0))) random = Some m" "running m p0"
    "exit_code p0 = None"
proof -
  obtain cfg m where "NewManager (process_config cfg) random = Some m"
    and p0: "p0 = \<lparr>prog_Context = NewServiceContext cfg m, wd = new_world m False now, supervising = True, exit_code = None\<rparr>"
    using assms by (auto simp: run_def split: sum.splits option.splits)
  moreover have "sctx_Config (prog_Context p0) = cfg" by (simp add: p0 NewServiceContext_def Let_def)
  moreover have "running m p0" unfolding p0 by (rule running.started)
  ultimately show ?thesis by (auto intro: that)
qed


lemma happens_acts:
  "acts as (wd p) = Some w \<Longrightarrow> exit_code p = None \<Longrightarrow> happens (map Act as) p = Some (p\<lparr>wd := w\<rparr>)"
  by (rule runs_embed [where R = "\<lambda>w p. wd p = w \<and> exit_code p = None" and f = act]) auto

lemma stop_steps:
  assumes "stopper w \<noteq> Serving"
  obtains as w' where "acts as w = Some w'" "length as \<le> 3" "stopper w' = StopWaiting \<or> stopper w' = Stopped"
proof (cases "stopper w")
  case StopFlagged
  then show ?thesis
    by - (rule that [of "[StopStep, StopStep, StopStep]"], simp add: operations, simp, simp)
next
  case StopNotReady
  then show ?thesis
    by - (rule that [of "[StopStep, StopStep]"], simp add: operations, simp, simp)
next
  case (StopTaken b)
  then show ?thesis
    by - (rule that [of "[StopStep]"], simp add: operations, simp, simp)
qed (use assms in \<open>auto intro: that [of "[]"]\<close>)

lemma main_returns:
  "stopper (wd p) = Stopped \<Longrightarrow> exit_code p = None \<Longrightarrow> happens [MainReturns] p = Some (p\<lparr>exit_code := Some 0\<rparr>)"
  by (simp add: main_return_def)

lemma launched_stop_ends:
  assumes "program_inv p" "exit_code p = None" "stopper (wd p) = StopWaiting" "child (wd p) \<noteq> NotStarted"
  shows "\<exists>es q. happens es p = Some q \<and> length es \<le> 5 \<and> exit_code q \<noteq> None"
proof -
  have "coherent (wd p)" using assms(1) by (simp add: program_inv_def)
  then obtain bs v where v: "acts bs (wd p) = Some v" "stopper v = Stopped" "length bs \<le> 4"
    using stop_finishes assms(3,4) by blast
  have "happens (map Act bs @ [MainReturns]) p = Some (p\<lparr>wd := v, exit_code := Some 0\<rparr>)"
    using happens_acts [OF v(1) assms(2)] main_returns [of "p\<lparr>wd := v\<rparr>"] v(2) assms(2)
    by (simp add: runs_append del: runs.simps)
  with v(3) show ?thesis by (intro exI conjI) auto
qed

lemma unlaunched_stop_ends:
  assumes "program_inv p" "exit_code p = None" "stopper (wd p) = StopWaiting" "child (wd p) = NotStarted"
  shows "\<exists>es q. happens es p = Some q \<and> length es \<le> 5 \<and> exit_code q \<noteq> None"
proof -
  have su: "supervising p" using assms by (auto simp: program_inv_def coherent_def start_inv_def reap_inv_def)
  have c: "coherent (wd p)" using assms(1) by (simp add: program_inv_def)
  then have pd: "process_done (wd p)" "starter (wd p) \<noteq> NotCalled" using assms(3) by (simp_all add: coherent_def stop_inv_def)
  moreover have "starter (wd p) \<noteq> Selecting" "starter (wd p) \<noteq> Probing" "starter (wd p) \<noteq> Readied"
    "starter (wd p) \<noteq> StartReturned None"
    using c assms(4) by (auto simp: coherent_def start_inv_def reap_inv_def)
  ultimately consider "starter (wd p) = Created" | err where "starter (wd p) = StartReturned (Some err)"
    by (cases "starter (wd p)") auto
  then show ?thesis
  proof cases
    case 1
    then show ?thesis
      using pd(1) su assms(2) by (intro exI [of _ "[Act (Launch None), Supervise]"])
        (simp add: operations supervise_def exitOnGraniteFailure_def)
  next
    case 2
    then show ?thesis
      using su assms(2) by (intro exI [of _ "[Supervise]"]) (simp add: supervise_def exitOnGraniteFailure_def)
  qed
qed

text \<open>
  C22. A program that is told to stop can always end: from every state after the first step of
  the stop, ten more events are enough for an exit. Where \<open>Stop\<close> itself waits for ever, the
  supervision ends the program.
\<close>

theorem stop_ends_the_program:
  assumes "NewManager cfg random = Some m" "running m p" "stopper (wd p) \<noteq> Serving" "exit_code p = None"
  shows "\<exists>es q. happens es p = Some q \<and> length es \<le> 10 \<and> exit_code q \<noteq> None"
proof -
  obtain as w where w: "acts as (wd p) = Some w" "length as \<le> 3" "stopper w = StopWaiting \<or> stopper w = Stopped"
    by (rule stop_steps [OF assms(3)])
  let ?p = "p\<lparr>wd := w\<rparr>"
  have h: "happens (map Act as) p = Some ?p" by (rule happens_acts [OF w(1) assms(4)])
  have i: "program_inv ?p" using running_inv [OF assms(1) happens_running [OF h assms(2)]] .
  have n: "exit_code ?p = None" using assms(4) by simp
  have "\<exists>es q. happens es ?p = Some q \<and> length es \<le> 5 \<and> exit_code q \<noteq> None"
  proof (cases "stopper w = Stopped")
    case True
    with main_returns [of ?p] n show ?thesis by (intro exI [of _ "[MainReturns]"]) simp
  next
    case False
    then have "stopper (wd ?p) = StopWaiting" using w(3) by simp
    with launched_stop_ends [OF i n] unlaunched_stop_ends [OF i n] show ?thesis by blast
  qed
  then obtain fs q where "happens fs ?p = Some q" "length fs \<le> 5" "exit_code q \<noteq> None" by blast
  then show ?thesis
    using h w(2) by (intro exI [of _ "map Act as @ fs"] exI [of _ q]) (simp add: runs_append)
qed

section \<open>The command and the key\<close>

lemma act_command:
  "act a w = Some w' \<Longrightarrow> m_cmd (mgr w) = None \<or> m_cmd (mgr w) = Some (pc_Binary (m_cfg (mgr w)), start_args (mgr w)) \<Longrightarrow>
    m_cmd (mgr w') = None \<or> m_cmd (mgr w') = Some (pc_Binary (m_cfg (mgr w')), start_args (mgr w'))"
  by (erule act_cases) (simp_all add: operations start_args_def)

lemma happen_command:
  assumes "happens es p = Some q" "m_cfg (mgr (wd p)) = c" "m_key (mgr (wd p)) = k"
    and "m_cmd (mgr (wd p)) = None \<or> m_cmd (mgr (wd p)) = Some (pc_Binary c, start_args (mgr (wd p)))"
  shows "m_cfg (mgr (wd q)) = c \<and> m_key (mgr (wd q)) = k \<and> prog_Context q = prog_Context p \<and>
    (m_cmd (mgr (wd q)) = None \<or> m_cmd (mgr (wd q)) = Some (pc_Binary c, start_args (mgr (wd q))))"
  using assms(1)
proof (rule runs_keep)
  fix e r s
  assume r: "happen e r = Some s" "m_cfg (mgr (wd r)) = c \<and> m_key (mgr (wd r)) = k \<and> prog_Context r = prog_Context p \<and>
    (m_cmd (mgr (wd r)) = None \<or> m_cmd (mgr (wd r)) = Some (pc_Binary c, start_args (mgr (wd r))))"
  from r(1) show "m_cfg (mgr (wd s)) = c \<and> m_key (mgr (wd s)) = k \<and> prog_Context s = prog_Context p \<and>
    (m_cmd (mgr (wd s)) = None \<or> m_cmd (mgr (wd s)) = Some (pc_Binary c, start_args (mgr (wd s))))"
  proof (cases rule: happen_cases)
    case (act a w)
    with r(2) act_constant [OF act(3)] act_command [OF act(3)] show ?thesis by simp
  qed (use r(2) in simp_all)
qed (use assms in simp)

text \<open>
  C27. The program runs the model with the threads and the context of the validated configuration,
  and with a key of 64 characters, that very key that the client of the model presents.
\<close>

theorem launched_command:
  assumes "run file env random now = Inr p0" "happens es p0 = Some p" "m_cmd (mgr (wd p)) = Some (binary, args)"
    and "\<And>bytes. random = Some bytes \<Longrightarrow> length bytes = 32"
  shows "\<exists>cfg key. Load file env = Inr cfg \<and> sctx_Config (prog_Context p) = cfg \<and>
    binary = ''/opt/granite/llama-server'' \<and>
    args = [''--model'', ''/opt/granite/granite-4.0-350m-Q4_K_M.gguf'', ''--host'', ''127.0.0.1'', ''--port'', ''18080'',
      ''--ctx-size'', FormatInt (ContextSize (Granite cfg)), ''--parallel'', ''1'',
      ''--threads'', FormatInt (Threads (Granite cfg)), ''--jinja'', ''--api-key'', key] \<and>
    Threads (Granite cfg) \<in> {1..16} \<and> ContextSize (Granite cfg) \<in> {1024..8192} \<and>
    length key = 64 \<and> key = gc_key (sctx_Model (prog_Context p))"
proof -
  obtain cfg m where c: "Load file env = Inr cfg" "NewManager (process_config cfg) random = Some m"
    and p0: "p0 = \<lparr>prog_Context = NewServiceContext cfg m, wd = new_world m False now, supervising = True, exit_code = None\<rparr>"
    using assms(1) by (auto simp: run_def split: sum.splits option.splits)
  obtain bytes where b: "random = Some bytes" "m_key m = EncodeToString bytes" "m_cfg m = process_config cfg" "m_cmd m = None"
    using c(2) by (auto simp: NewManager_def split: option.splits)
  have "in_bounds cfg" using c(1) by (auto simp: Load_Inr Validate_None)
  then have bounds: "Threads (Granite cfg) \<in> {1..16}" "ContextSize (Granite cfg) \<in> {1024..8192}"
    by (simp_all add: in_bounds_def)
  have "mgr (wd p0) = m" by (simp add: p0 new_world_def)
  with happen_command [OF assms(2), of "process_config cfg" "m_key m"] b
  have q: "m_cfg (mgr (wd p)) = process_config cfg" "m_key (mgr (wd p)) = m_key m"
    "prog_Context p = NewServiceContext cfg m" "(binary, args) = (pc_Binary (process_config cfg), start_args (mgr (wd p)))"
    using assms(3) by (simp_all add: p0)
  have "gc_key (sctx_Model (prog_Context p)) = m_key m"
    by (simp add: q(3) NewServiceContext_def NewGraniteClient_def Manager_APIKey_def Let_def)
  moreover have "length (m_key m) = 64" using assms(4) [OF b(1)] b(2) by (simp add: length_EncodeToString)
  ultimately show ?thesis
    using c(1) bounds q by (intro exI [of _ cfg] exI [of _ "m_key m"]) (simp add: start_args_def process_config_def)
qed

section \<open>Concrete programs\<close>

definition sample_key :: string where "sample_key = ''0123456789abcdef0123456789abcdef''"

definition sample_program :: program where
  "sample_program = \<lparr>prog_Context = NewServiceContext loaded_sample sample_manager,
     wd = new_world sample_manager False 0, supervising = True, exit_code = None\<rparr>"

lemma sample_running: "happens es sample_program = Some p \<Longrightarrow> running sample_manager p"
  unfolding sample_program_def by (rule happens_running [OF _ running.started])

lemma sample_run: "run (Some sample_file) sample_environment (Some sample_key) 0 = Inr sample_program"
proof -
  have "process_config loaded_sample = sample_process"
    by code_simp
  then show ?thesis
    by (simp add: run_def loaded_sample(1) sample_program_def sample_key_def sample_NewManager)
qed

text \<open>The states of a program as far as the runs below are concerned.\<close>

definition outcome_of :: "event list \<Rightarrow> (int option \<times> starter \<times> stopper \<times> child \<times> bool) option" where
  "outcome_of es = map_option (\<lambda>p. (exit_code p, starter (wd p), stopper (wd p), child (wd p), m_stopping (mgr (wd p))))
     (happens es sample_program)"

lemma outcome_ofD:
  assumes "outcome_of es = Some (x, st, sp, ch, b)"
  obtains p where "happens es sample_program = Some p" "exit_code p = x" "starter (wd p) = st"
    "stopper (wd p) = sp" "child (wd p) = ch" "m_stopping (mgr (wd p)) = b"
  using assms by (auto simp: outcome_of_def)

definition started_well :: "event list" where "started_well = map Act good_start"
definition stop_begun :: "event list" where "stop_begun = map Act begin_stop"
definition model_dies :: "event list" where "model_dies = map Act [ChildDies (Some (ErrorText ''killed'')), ReapStore, ReapClose]"

lemma sample_outcomes:
  "outcome_of (started_well @ stop_begun) = Some (None, StartReturned None, StopWaiting, Alive, True)"
  "outcome_of (started_well @ stop_begun @ model_dies @ [Supervise, Act StopStep, MainReturns]) =
    Some (Some 0, StartReturned None, Stopped, Died (Some (ErrorText ''killed'')), True)"
  by code_simp+

text \<open>A stop while the model is still being started ends in the exit code of a failure.\<close>

lemma stop_during_start:
  "outcome_of (map Act [CallStart, Launch None] @ stop_begun @ model_dies @ [Act SelectExited, Supervise]) =
    Some (Some 1, StartReturned (Some (ExitedEarly (Some (ErrorText ''killed'')))), StopWaiting,
      Died (Some (ErrorText ''killed'')), True)"
  by code_simp

text \<open>A start that is only called after the stop leaves the process behind.\<close>

lemma orphan_after_stop:
  "outcome_of (stop_begun @ map Act [CallStart, Launch None] @ [MainReturns]) =
    Some (Some 0, Selecting, Stopped, Alive, True)"
  by code_simp



theorem stop_ends_the_program_witness:
  "\<exists>p es q. happens (started_well @ stop_begun) sample_program = Some p \<and> happens es p = Some q \<and> exit_code q \<noteq> None"
proof -
  obtain p where p: "happens (started_well @ stop_begun) sample_program = Some p" "exit_code p = None"
    "stopper (wd p) = StopWaiting" by (rule outcome_ofD [OF sample_outcomes(1)])
  then have "stopper (wd p) \<noteq> Serving" by simp
  from stop_ends_the_program [OF sample_NewManager sample_running [OF p(1)] this p(2)] p(1) show ?thesis by blast
qed

theorem launched_command_witness:
  "\<exists>p0 p binary args. run (Some sample_file) sample_environment (Some sample_key) 0 = Inr p0 \<and>
    happens [Act CallStart] p0 = Some p \<and> m_cmd (mgr (wd p)) = Some (binary, args) \<and> length args = 15"
proof -
  obtain m where m: "NewManager (process_config loaded_sample) (Some sample_key) = Some m" by (simp add: NewManager_def)
  then obtain p0 where p0: "run (Some sample_file) sample_environment (Some sample_key) 0 = Inr p0"
    "starter (wd p0) = NotCalled" "exit_code p0 = None"
    by (auto simp: run_def loaded_sample(1) new_world_def)
  obtain p where p: "happens [Act CallStart] p0 = Some p" "m_cmd (mgr (wd p)) \<noteq> None"
    using p0 by (simp add: operations)
  then obtain binary args where c: "m_cmd (mgr (wd p)) = Some (binary, args)" by auto
  have "length sample_key = 32" by (simp add: sample_key_def)
  then have "\<And>bytes. Some sample_key = Some bytes \<Longrightarrow> length bytes = 32" by simp
  from launched_command [OF p0(1) p(1) c this] p0 p c show ?thesis by auto
qed

end
