(* ===== verification/WireJson.thy ===== *)
theory WireJson
  imports Handler
begin

text \<open>
  What the clients read: every body that the server writes is parsed again. The texts of the
  encoder (\<open>Encode\<close>, \<open>Response\<close>, \<open>Handler\<close>) are read by the parser of the theory Json.
\<close>

section \<open>Strings of any bytes\<close>

text \<open>What a Go string becomes on the wire: an invalid byte is replaced by U+FFFD.\<close>

definition as_utf8 :: "string \<Rightarrow> string" where
  "as_utf8 s = utf8 (runes s)"

lemma decode_rune_high:
  assumes "0x80 \<le> code c"
  shows "valid_rune (fst (decode_rune (c # s))) \<and> 0x80 \<le> fst (decode_rune (c # s))"
  using assms code_bounds [of c]
  by (auto simp: decode_rune.simps(2) Let_def valid_rune_def second_ok_def cont_def split: list.split if_splits)

lemma runes_Cons: "runes (c # s) = fst (decode_rune (c # s)) # runes (snd (decode_rune (c # s)))"
  by (simp add: runes_step)

text \<open>One rune of an encoded string: its text is scanned as it is, and read as the rune.\<close>

definition esc_piece :: "string \<Rightarrow> rune \<Rightarrow> bool" where
  "esc_piece p r \<longleftrightarrow>
    (\<forall>s. scan_str (p @ s) = map_option (\<lambda>(b, t). (p @ b, t)) (scan_str s)) \<and>
    (\<forall>s. unquote (p @ s) = enc_rune r @ unquote s)"

lemma esc_piece_ascii:
  assumes "code c < 0x80"
  shows "esc_piece (esc_ascii c) (code c)"
proof -
  have "enc_rune (code c) = [c]"
    using assms code_bounds [of c] by (simp add: enc_rune_def valid_rune_def enc_valid_def)
  then show ?thesis
    using scan_str_esc_ascii [OF assms] unquote_esc_ascii [OF assms] by (simp add: esc_piece_def)
qed

lemma esc_piece_invalid: "esc_piece (backslash # ''ufffd'') 0xFFFD"
proof -
  have h: "hex_val CHR ''f'' = Some 15" "hex_val CHR ''d'' = Some 13" "is_hex CHR ''f''" "is_hex CHR ''d''"
    "simple_escape CHR ''u'' = None" by code_simp+
  have g: "getu4 (backslash # CHR ''u'' # CHR ''f'' # CHR ''f'' # CHR ''f'' # CHR ''d'' # s) = Some 0xFFFD" for s
    by (simp add: getu4_def backslash_def h)
  have "scan_str ((backslash # ''ufffd'') @ s) = map_option (\<lambda>(b, t). ((backslash # ''ufffd'') @ b, t)) (scan_str s)" for s
    using h by (cases "scan_str s") (auto simp: backslash_def)
  moreover have "unquote ((backslash # ''ufffd'') @ s) = enc_rune 0xFFFD @ unquote s" for s
    using g [of s] by (simp add: unquote.simps(2) Let_def backslash_def)
  ultimately show ?thesis unfolding esc_piece_def by blast
qed

lemma esc_piece_rune:
  assumes "valid_rune r"
  shows "esc_piece (esc_rune r) r"
  using scan_str_esc_rune [OF assms] unquote_esc_rune [OF assms] assms by (simp add: esc_piece_def enc_rune_def)

lemma escape_Cons:
  obtains p where "escape (c # s) = p @ escape (snd (decode_rune (c # s)))" "esc_piece p (fst (decode_rune (c # s)))"
proof (cases "code c < 0x80")
  case True
  then have "decode_rune (c # s) = (code c, s)" by (simp add: decode_rune.simps(2))
  with True show ?thesis
    using that [of "esc_ascii c"] esc_piece_ascii [OF True] by (simp add: escape.simps(2))
next
  case False
  obtain r t where d: "decode_rune (c # s) = (r, t)" by (cases "decode_rune (c # s)")
  with False have r: "valid_rune r" "0x80 \<le> r" using decode_rune_high [of c s] by simp_all
  then have e: "enc_rune r = enc_valid r" by (simp add: enc_rune_def)
  show ?thesis
  proof (cases "r = 0xFFFD \<and> \<not> HasPrefix (c # s) (enc_rune 0xFFFD)")
    case True
    with False d show ?thesis
      using that [of "backslash # ''ufffd''"] esc_piece_invalid by (simp add: escape.simps(2))
  next
    case ok: False
    with False d r e show ?thesis
      using that [of "esc_rune r"] esc_piece_rune [OF r(1)] by (auto simp: escape.simps(2) esc_rune_def)
  qed
qed

lemma scan_escape_any: "scan_str (escape s @ quote # rest) = Some (escape s, rest)"
proof (induction s rule: runes.induct)
  case (1 s)
  show ?case
  proof (cases s)
    case (Cons c t)
    obtain p where p: "escape s = p @ escape (snd (decode_rune s))" "esc_piece p (fst (decode_rune s))"
      using escape_Cons [of c t] Cons by metis
    then show ?thesis using 1 Cons by (simp add: esc_piece_def)
  qed (simp add: quote_def)
qed

lemma unquote_escape_any: "unquote (escape s) = as_utf8 s"
proof (induction s rule: runes.induct)
  case (1 s)
  show ?case
  proof (cases s)
    case (Cons c t)
    obtain p where p: "escape s = p @ escape (snd (decode_rune s))" "esc_piece p (fst (decode_rune s))"
      using escape_Cons [of c t] Cons by metis
    then show ?thesis using 1 Cons by (simp add: esc_piece_def as_utf8_def runes_Cons utf8_Cons)
  qed (simp add: as_utf8_def)
qed

lemma as_utf8_ascii:
  assumes "list_all (\<lambda>c. code c < 0x80) s"
  shows "as_utf8 s = s"
  using assms
proof (induction s)
  case (Cons c s)
  then show ?case
    using code_bounds [of c]
    by (simp add: as_utf8_def runes_Cons decode_rune.simps(2) utf8_Cons enc_rune_def valid_rune_def enc_valid_def)
qed (simp add: as_utf8_def)

lemma as_utf8_valid: "list_all valid_rune rs \<Longrightarrow> as_utf8 (utf8 rs) = utf8 rs"
  by (simp add: as_utf8_def runes_utf8)

section \<open>Texts that spell a value\<close>

text \<open>What may stand behind a value: the end, or a character that no value goes on with.\<close>

definition closes :: "string \<Rightarrow> bool" where
  "closes rest \<longleftrightarrow> rest = [] \<or> hd rest \<in> {CHR '','', CHR '']'', CHR ''}'', CHR 0x0A}"

text \<open>
  A text spells a value when the parser reads just that value from it, whatever stands behind,
  with room for \<open>k\<close> more levels of objects and arrays.
\<close>

definition spells :: "int \<Rightarrow> string \<Rightarrow> json \<Rightarrow> bool" where
  "spells k t v \<longleftrightarrow> t \<noteq> [] \<and> \<not> is_ws (hd t) \<and> hd t \<noteq> CHR '']'' \<and>
    (\<forall>d rest. d + k \<le> max_depth \<longrightarrow> closes rest \<longrightarrow> (\<exists>n. parse_value n d (t @ rest) = Some (v, rest)))"

lemma spellsI:
  assumes "t \<noteq> []" "\<not> is_ws (hd t)" "hd t \<noteq> CHR '']''"
    and "\<And>d rest. d + k \<le> max_depth \<Longrightarrow> closes rest \<Longrightarrow> \<exists>n. parse_value n d (t @ rest) = Some (v, rest)"
  shows "spells k t v"
  using assms unfolding spells_def by blast

lemma spells_nonempty:
  assumes "spells k t v"
  obtains c s where "t = c # s" "\<not> is_ws c" "c \<noteq> CHR '']''"
  using assms by (cases t) (auto simp: spells_def)

lemma spells_mono: "spells k t v \<Longrightarrow> k \<le> l \<Longrightarrow> spells l t v"
  by (auto simp: spells_def)

text \<open>Any fuel from some amount on reads the value.\<close>

lemma spells_fuel:
  assumes "spells k t v" "d + k \<le> max_depth" "closes rest"
  obtains n where "\<And>m. n \<le> m \<Longrightarrow> parse_value m d (t @ rest) = Some (v, rest)"
proof -
  obtain n where "parse_value n d (t @ rest) = Some (v, rest)" using assms unfolding spells_def by blast
  from parse_fuel_aux(1) [OF this] show ?thesis using that by blast
qed

lemma spells_skip: "spells k t v \<Longrightarrow> skip_ws (t @ rest) = t @ rest"
  by (cases t) (auto simp: spells_def skip_ws_def)

lemma spells_parse:
  assumes "spells k t v" "k \<le> max_depth" "closes rest"
  shows "parse (t @ rest) = Some (v, rest)"
proof -
  have "0 + k \<le> max_depth" using assms(2) by simp
  then obtain n where "parse_value n 0 (t @ rest) = Some (v, rest)" using assms(1,3) unfolding spells_def by blast
  then show ?thesis using parse_value_fuel [of n "t @ rest"] spells_skip [OF assms(1)] by simp
qed

lemma spells_whole: "spells k t v \<Longrightarrow> k \<le> max_depth \<Longrightarrow> list_all is_ws rest \<Longrightarrow> closes rest \<Longrightarrow> whole_json (t @ rest) = Some v"
  using spells_parse [of k t v rest] by (simp add: whole_json_def skip_ws_def list_all_iff dropWhile_eq_Nil_conv)

subsection \<open>Simple values\<close>

lemma spells_string: "spells 0 (enc_string s) (JStr (as_utf8 s))"
proof -
  have "parse_value (Suc 0) d (enc_string s @ rest) = Some (JStr (as_utf8 s), rest)" for d rest
    using scan_escape_any [of s rest] unquote_escape_any [of s] by (simp add: enc_string_def quote_def)
  then show ?thesis by (intro spellsI exI) (auto simp: enc_string_def quote_def is_ws_def simp del: parse_value.simps)
qed

lemma spells_bool: "spells 0 (enc_bool b) (JBool b)"
proof -
  have "parse_value (Suc 0) d (enc_bool b @ rest) = Some (JBool b, rest)" for d rest
    by (cases b) (simp_all add: enc_bool_def HasPrefix_def)
  moreover have "enc_bool b \<noteq> []" "\<not> is_ws (hd (enc_bool b))" "hd (enc_bool b) \<noteq> CHR '']''" by (cases b) (simp_all add: enc_bool_def is_ws_def)
  ultimately show ?thesis by (intro spellsI exI) blast+
qed

lemma spells_null: "spells 0 ''null'' JNull"
proof -
  have "parse_value (Suc 0) d (''null'' @ rest) = Some (JNull, rest)" for d rest
    by (simp add: HasPrefix_def)
  then show ?thesis by (intro spellsI exI) (auto simp: is_ws_def simp del: parse_value.simps)
qed

subsection \<open>Integers\<close>

lemma itoa_pos_head:
  "0 \<le> n \<Longrightarrow> \<exists>c s. itoa_pos n = c # s \<and> is_digit c \<and> (c = CHR ''0'' \<longrightarrow> n = 0 \<and> s = [])"
proof (induction n rule: itoa_pos.induct)
  case (1 n)
  show ?case
  proof (cases "n < 10")
    case True
    have "n \<noteq> 0 \<longrightarrow> byte (48 + n) \<noteq> CHR ''0''"
    proof
      assume "n \<noteq> 0"
      then have "code (byte (48 + n)) \<noteq> 48" using True 1(2) by (simp add: code_byte_small del: code_byte)
      then show "byte (48 + n) \<noteq> CHR ''0''" by (auto simp: code_def)
    qed
    moreover have "is_digit (byte (48 + n))" using itoa_pos_digits [OF 1(2)] True by (simp add: itoa_pos.simps [of n])
    ultimately show ?thesis using True by (auto simp: itoa_pos.simps [of n])
  next
    case False
    obtain c s where "itoa_pos (n div 10) = c # s" "is_digit c" "c = CHR ''0'' \<longrightarrow> n div 10 = 0 \<and> s = []"
      using 1(1) [OF False] 1(2) pos_imp_zdiv_nonneg_iff [of 10 n] by (metis zero_less_numeral)
    moreover have "n div 10 \<noteq> 0" using False by linarith
    ultimately show ?thesis using False by (simp add: itoa_pos.simps [of n])
  qed
qed

lemma scan_int_itoa:
  assumes "0 \<le> n" "closes rest"
  shows "scan_int (itoa_pos n @ rest) = Some (itoa_pos n, rest)"
proof -
  obtain c s where h: "itoa_pos n = c # s" "is_digit c" "c = CHR ''0'' \<longrightarrow> s = []" using itoa_pos_head [OF assms(1)] by blast
  have nd: "\<not> is_digit CHR '',''" "\<not> is_digit CHR '']''" "\<not> is_digit CHR ''}''" "\<not> is_digit CHR 0x0A" by code_simp+
  have r: "rest = [] \<or> \<not> is_digit (hd rest)" using assms(2) nd by (auto simp: closes_def)
  then have "takeWhile is_digit (itoa_pos n @ rest) = itoa_pos n" "dropWhile is_digit (itoa_pos n @ rest) = rest"
    using itoa_pos_digits [OF assms(1)]
    by (cases rest; simp add: takeWhile_append list_all_iff dropWhile_append)+
  then show ?thesis using h by (auto simp: scan_int_def scan_digits_def)
qed

lemma closes_num:
  assumes "closes rest"
  shows "scan_frac rest = Some ([], rest)" "scan_exp rest = Some ([], rest)"
  using assms by (cases rest; auto simp: closes_def scan_frac_def scan_exp_def)+

lemma scan_num_closed:
  assumes "closes rest"
  shows "scan_num (FormatInt n @ rest) = Some (FormatInt n, rest)"
proof (cases "n < 0")
  case True
  then have "0 \<le> - n" by simp
  from scan_int_itoa [OF this assms] show ?thesis
    using True closes_num [OF assms] by (simp add: scan_num_def FormatInt_def)
next
  case False
  then have n: "0 \<le> n" by simp
  obtain c s where h: "itoa_pos n = c # s" "is_digit c" using itoa_pos_head [OF n] by blast
  have "\<not> is_digit CHR ''-''" by code_simp
  with h have "c \<noteq> CHR ''-''" by auto
  with h(1) scan_int_itoa [OF n assms] show ?thesis
    using False closes_num [OF assms] by (simp add: scan_num_def FormatInt_def)
qed

lemma FormatInt_head:
  obtains c s where "FormatInt n = c # s" "c = CHR ''-'' \<or> is_digit c"
proof (cases "n < 0")
  case False
  then show ?thesis using itoa_pos_head [of n] that by (auto simp: FormatInt_def)
qed (use that in \<open>auto simp: FormatInt_def\<close>)

lemma spells_int: "spells 0 (enc_int n) (JNum (FormatInt n))"
proof -
  obtain c s where h: "FormatInt n = c # s" "c = CHR ''-'' \<or> is_digit c" by (rule FormatInt_head)
  have nd: "\<not> is_digit CHR ''{''" "\<not> is_digit CHR ''[''" "\<not> is_digit CHR 0x22" "\<not> is_digit CHR ''n''"
    "\<not> is_digit CHR ''t''" "\<not> is_digit CHR ''f''" "\<not> is_digit CHR '']''"
    "\<not> is_digit CHR 0x20" "\<not> is_digit CHR 0x09" "\<not> is_digit CHR 0x0D" "\<not> is_digit CHR 0x0A"
    by code_simp+
  have "c \<noteq> CHR ''{''" "c \<noteq> CHR ''[''" "c \<noteq> CHR 0x22" "c \<noteq> CHR ''n''" "c \<noteq> CHR ''t''" "c \<noteq> CHR ''f''" "\<not> is_ws c"
    using h(2) nd by (auto simp: is_ws_def)
  then have v: "parse_value (Suc 0) d (FormatInt n @ rest) = Some (JNum (FormatInt n), rest)" if "closes rest" for d rest
    using scan_num_closed [OF that, of n] h(1) by (simp add: HasPrefix_def)
  show ?thesis
  proof (rule spellsI)
    show "enc_int n \<noteq> []" "\<not> is_ws (hd (enc_int n))" "hd (enc_int n) \<noteq> CHR '']''"
      using h nd \<open>\<not> is_ws c\<close> by (auto simp: enc_int_def)
    show "\<exists>m. parse_value m d (enc_int n @ rest) = Some (JNum (FormatInt n), rest)" if "closes rest" for d rest
      using v [OF that] by (auto simp: enc_int_def simp del: parse_value.simps)
  qed
qed

subsection \<open>Arrays\<close>

lemma read_from_append [simp]: "read_from (t @ r) r = t"
  by (simp add: read_from_def)

lemma closes_Cons [simp]: "closes (CHR '','' # s)" "closes (CHR '']'' # s)" "closes (CHR ''}'' # s)" "closes []" "closes (CHR 0x0A # s)"
  by (simp_all add: closes_def)

lemma skip_ws_closer [simp]:
  "skip_ws (CHR '','' # s) = CHR '','' # s" "skip_ws (CHR '']'' # s) = CHR '']'' # s" "skip_ws (CHR ''}'' # s) = CHR ''}'' # s"
  "skip_ws (CHR '':'' # s) = CHR '':'' # s" "skip_ws (CHR 0x22 # s) = CHR 0x22 # s"
  by (simp_all add: skip_ws_def is_ws_def)

lemma Join_Cons: "Join (x # xs) sep = x @ (if xs = [] then [] else sep @ Join xs sep)"
  by (cases xs) simp_all

lemma parse_elems_Join:
  assumes "list_all2 (spells k) ts vs" "ts \<noteq> []" "d + k \<le> max_depth"
  shows "\<exists>n. \<forall>m \<ge> n. parse_elems m d (Join ts '','' @ CHR '']'' # rest) = Some (zip ts vs, rest)"
  using assms(1,2)
proof (induction rule: list_all2_induct)
  case (Cons t ts v vs)
  let ?tail = "(if ts = [] then [] else '','' @ Join ts '','') @ CHR '']'' # rest"
  have c: "closes ?tail" by auto
  obtain n where n: "\<And>m. n \<le> m \<Longrightarrow> parse_value m d (t @ ?tail) = Some (v, ?tail)"
    by (rule spells_fuel [OF Cons(1) assms(3) c]) (rule that)
  show ?case
  proof (cases "ts = []")
    case True
    then have "vs = []" using Cons(2) by simp
    have "parse_elems m d (Join (t # ts) '','' @ CHR '']'' # rest) = Some (zip (t # ts) (v # vs), rest)" if "Suc n \<le> m" for m
    proof -
      obtain m' where m: "m = Suc m'" "n \<le> m'" using \<open>Suc n \<le> m\<close> by (cases m) auto
      show ?thesis using n [OF m(2)] m(1) True \<open>vs = []\<close> by simp
    qed
    then show ?thesis by blast
  next
    case False
    then obtain n2 where n2: "\<And>m. n2 \<le> m \<Longrightarrow> parse_elems m d (Join ts '','' @ CHR '']'' # rest) = Some (zip ts vs, rest)"
      using Cons(3) by blast
    obtain t2 ts2 where ts: "ts = t2 # ts2" using False by (cases ts) auto
    then obtain v2 where "spells k t2 v2" using Cons(2) by (auto simp: list_all2_Cons1)
    then have sk: "skip_ws (Join ts '','' @ CHR '']'' # rest) = Join ts '','' @ CHR '']'' # rest"
      using spells_skip by (simp add: ts Join_Cons)
    have "parse_elems m d (Join (t # ts) '','' @ CHR '']'' # rest) = Some (zip (t # ts) (v # vs), rest)" if "Suc (n + n2) \<le> m" for m
    proof -
      obtain m' where m: "m = Suc m'" "n \<le> m'" "n2 \<le> m'" using \<open>Suc (n + n2) \<le> m\<close> by (cases m) auto
      show ?thesis using n [OF m(2)] n2 [OF m(3)] m(1) False sk by (simp add: Join_Cons)
    qed
    then show ?thesis by blast
  qed
qed simp

lemma spells_array:
  assumes "list_all2 (spells k) ts vs" "0 \<le> k"
  shows "spells (k + 1) (enc_array ts) (JArr (zip ts vs))"
proof (rule spellsI)
  show "enc_array ts \<noteq> []" "\<not> is_ws (hd (enc_array ts))" "hd (enc_array ts) \<noteq> CHR '']''" by (simp_all add: enc_array_def is_ws_def)
  fix d rest
  assume d: "d + (k + 1) \<le> max_depth"
  show "\<exists>n. parse_value n d (enc_array ts @ rest) = Some (JArr (zip ts vs), rest)"
  proof (cases "ts = []")
    case True
    have "parse_value (Suc 0) d (enc_array ts @ rest) = Some (JArr (zip ts vs), rest)"
      using True d assms(2) by (simp add: enc_array_def HasPrefix_def)
    then show ?thesis ..
  next
    case False
    have "d + 1 + k \<le> max_depth" using d by simp
    then obtain n where "\<forall>m \<ge> n. parse_elems m (d + 1) (Join ts '','' @ CHR '']'' # rest) = Some (zip ts vs, rest)"
      using parse_elems_Join [OF assms(1) False] by blast
    then have n: "parse_elems n (d + 1) (Join ts '','' @ CHR '']'' # rest) = Some (zip ts vs, rest)" by blast
    obtain t2 ts2 where ts: "ts = t2 # ts2" using False by (cases ts) auto
    then obtain v2 where s: "spells k t2 v2" using assms(1) by (auto simp: list_all2_Cons1)
    then have sk: "skip_ws (Join ts '','' @ CHR '']'' # rest) = Join ts '','' @ CHR '']'' # rest"
      using spells_skip by (simp add: ts Join_Cons)
    obtain c u where t2: "t2 = c # u" "\<not> is_ws c" "c \<noteq> CHR '']''" using s by (rule spells_nonempty)
    have "parse_value (Suc n) d (enc_array ts @ rest) = Some (JArr (zip ts vs), rest)"
      using n sk d assms(2) t2 by (simp add: enc_array_def HasPrefix_def ts Join_Cons)
    then show ?thesis ..
  qed
qed

subsection \<open>Objects\<close>

definition member_text :: "string \<times> string \<Rightarrow> string" where
  "member_text m = enc_string (fst m) @ '':'' @ snd m"

lemma enc_object_text: "enc_object ms = CHR ''{'' # Join (map member_text ms) '','' @ ''}''"
proof -
  have "(\<lambda>(k, v). enc_string k @ '':'' @ v) = member_text" by (auto simp: member_text_def)
  then show ?thesis by (simp add: enc_object_def)
qed

definition member_of :: "string \<times> string \<Rightarrow> json \<Rightarrow> string \<times> string \<times> json" where
  "member_of m v = (as_utf8 (fst m), snd m, v)"

definition spells_member :: "int \<Rightarrow> string \<times> string \<Rightarrow> json \<Rightarrow> bool" where
  "spells_member k m v \<longleftrightarrow> spells k (snd m) v"

lemma member_text_append: "member_text m @ s = CHR 0x22 # escape (fst m) @ quote # CHR '':'' # snd m @ s"
  by (simp add: member_text_def enc_string_def quote_def)

lemma parse_members_Join:
  assumes "list_all2 (spells_member k) ms vs" "ms \<noteq> []" "d + k \<le> max_depth"
  shows "\<exists>n. \<forall>m \<ge> n. parse_members m d (Join (map member_text ms) '','' @ CHR ''}'' # rest) = Some (map2 member_of ms vs, rest)"
  using assms(1,2)
proof (induction rule: list_all2_induct)
  case (Cons x xs v vs)
  let ?tail = "(if xs = [] then [] else '','' @ Join (map member_text xs) '','') @ CHR ''}'' # rest"
  have s: "spells k (snd x) v" using Cons(1) by (simp add: spells_member_def)
  have c: "closes ?tail" by auto
  obtain n where n: "\<And>m. n \<le> m \<Longrightarrow> parse_value m d (snd x @ ?tail) = Some (v, ?tail)"
    by (rule spells_fuel [OF s assms(3) c]) (rule that)
  have sx: "skip_ws (snd x @ r) = snd x @ r" for r using s by (rule spells_skip)
  have tx: "Join (map member_text (x # xs)) '','' @ CHR ''}'' # rest =
      CHR 0x22 # escape (fst x) @ quote # CHR '':'' # snd x @ ?tail"
    by (simp add: Join_Cons member_text_append)
  show ?case
  proof (cases "xs = []")
    case True
    then have "vs = []" using Cons(2) by simp
    have "parse_members m d (Join (map member_text (x # xs)) '','' @ CHR ''}'' # rest) = Some (map2 member_of (x # xs) (v # vs), rest)"
      if "Suc n \<le> m" for m
    proof -
      obtain m' where m: "m = Suc m'" "n \<le> m'" using \<open>Suc n \<le> m\<close> by (cases m) auto
      show ?thesis
        unfolding tx using n [OF m(2)] m(1) True \<open>vs = []\<close> sx
        by (simp add: scan_escape_any unquote_escape_any member_of_def)
    qed
    then show ?thesis by blast
  next
    case False
    then obtain n2 where n2: "\<And>m. n2 \<le> m \<Longrightarrow>
        parse_members m d (Join (map member_text xs) '','' @ CHR ''}'' # rest) = Some (map2 member_of xs vs, rest)"
      using Cons(3) by blast
    obtain x2 xs2 where xs: "xs = x2 # xs2" using False by (cases xs) auto
    have sk: "skip_ws (Join (map member_text xs) '','' @ CHR ''}'' # rest) = Join (map member_text xs) '','' @ CHR ''}'' # rest"
      by (simp add: xs Join_Cons member_text_append)
    have "parse_members m d (Join (map member_text (x # xs)) '','' @ CHR ''}'' # rest) = Some (map2 member_of (x # xs) (v # vs), rest)"
      if "Suc (n + n2) \<le> m" for m
    proof -
      obtain m' where m: "m = Suc m'" "n \<le> m'" "n2 \<le> m'" using \<open>Suc (n + n2) \<le> m\<close> by (cases m) auto
      show ?thesis
        unfolding tx using n [OF m(2)] n2 [OF m(3)] m(1) False sk sx
        by (simp add: scan_escape_any unquote_escape_any member_of_def)
    qed
    then show ?thesis by blast
  qed
qed simp

lemma spells_object:
  assumes "list_all2 (spells_member k) ms vs" "0 \<le> k"
  shows "spells (k + 1) (enc_object ms) (JObj (map2 member_of ms vs))"
proof (rule spellsI)
  show "enc_object ms \<noteq> []" "\<not> is_ws (hd (enc_object ms))" "hd (enc_object ms) \<noteq> CHR '']''"
    by (simp_all add: enc_object_def is_ws_def)
  fix d rest
  assume d: "d + (k + 1) \<le> max_depth"
  show "\<exists>n. parse_value n d (enc_object ms @ rest) = Some (JObj (map2 member_of ms vs), rest)"
  proof (cases "ms = []")
    case True
    have "parse_value (Suc 0) d (enc_object ms @ rest) = Some (JObj (map2 member_of ms vs), rest)"
      using True d assms(2) by (simp add: enc_object_def HasPrefix_def)
    then show ?thesis ..
  next
    case False
    have "d + 1 + k \<le> max_depth" using d by simp
    then obtain n where "\<forall>m \<ge> n. parse_members m (d + 1) (Join (map member_text ms) '','' @ CHR ''}'' # rest) = Some (map2 member_of ms vs, rest)"
      using parse_members_Join [OF assms(1) False] by blast
    then have n: "parse_members n (d + 1) (Join (map member_text ms) '','' @ CHR ''}'' # rest) = Some (map2 member_of ms vs, rest)"
      by blast
    obtain x xs where ms: "ms = x # xs" using False by (cases ms) auto
    have "parse_value (Suc n) d (enc_object ms @ rest) = Some (JObj (map2 member_of ms vs), rest)"
      using n d assms(2) by (simp add: enc_object_text HasPrefix_def ms Join_Cons member_text_append)
    then show ?thesis ..
  qed
qed

lemmas spells_nested = spells_object [THEN spells_mono] spells_array [THEN spells_mono]

subsection \<open>One line\<close>

text \<open>No control character, so no end of a line: nothing in a text can end an event of a stream.\<close>

definition one_line :: "string \<Rightarrow> bool" where
  "one_line t \<longleftrightarrow> list_all (\<lambda>c. 0x20 \<le> code c) t"

lemma one_line_append [simp]: "one_line (s @ t) \<longleftrightarrow> one_line s \<and> one_line t"
  by (simp add: one_line_def)

lemma one_line_Nil [simp]: "one_line []"
  by (simp add: one_line_def)

lemma one_line_Cons [simp]: "one_line (c # s) \<longleftrightarrow> 0x20 \<le> code c \<and> one_line s"
  by (simp add: one_line_def)

lemma hex_printable: "is_hex c \<Longrightarrow> 0x20 \<le> code c"
  by (auto simp: is_hex_def hex_val_def Let_def split: if_splits)

lemma escape_printable: "simple_escape c \<noteq> None \<Longrightarrow> 0x20 \<le> code c"
  by (auto simp: simple_escape_def code_def split: if_splits)

lemma scan_str_printable: "scan_str s = Some (b, r) \<Longrightarrow> one_line b"
proof (induction s arbitrary: b r rule: scan_str.induct)
  case (2 c s)
  consider (quote) "c = CHR 0x22"
    | (escape) e t where "c = CHR 0x5C" "s = e # t" "simple_escape e \<noteq> None"
    | (unicode) e h1 h2 h3 h4 u where "c = CHR 0x5C" "s = e # h1 # h2 # h3 # h4 # u"
        "simple_escape e = None" "e = CHR ''u''" "is_hex h1 \<and> is_hex h2 \<and> is_hex h3 \<and> is_hex h4"
    | (plain) "c \<noteq> CHR 0x22" "c \<noteq> CHR 0x5C" "\<not> code c < 0x20"
    using "2.prems" by (auto split: list.splits if_splits)
  then show ?case
  proof cases
    case quote
    then show ?thesis using "2.prems" by simp
  next
    case escape
    then obtain b' where b: "scan_str t = Some (b', r)" "b = c # e # b'" using "2.prems" by auto
    have "one_line b'" by (rule "2.IH"(1) [OF _ escape(1,2,3) b(1)]) (simp add: escape)
    then show ?thesis using b(2) escape escape_printable [of e] by (simp add: code_def)
  next
    case unicode
    then obtain b' where b: "scan_str u = Some (b', r)" "b = c # e # h1 # h2 # h3 # h4 # b'" using "2.prems" by auto
    have "one_line b'"
      by (rule "2.IH"(2) [OF _ unicode(1,2) _ unicode(4) refl refl refl refl unicode(5) b(1)])
        (use unicode(1) in simp, use unicode(3) in simp)
    then show ?thesis using b(2) unicode hex_printable by (simp add: code_def)
  next
    case plain
    then obtain b' where b: "scan_str s = Some (b', r)" "b = c # b'" using "2.prems" by auto
    have "one_line b'" by (rule "2.IH"(3) [OF plain b(1)])
    then show ?thesis using b(2) plain by (simp add: one_line_def)
  qed
qed simp

lemma one_line_string: "one_line (enc_string s)"
proof -
  have "one_line [quote]" by code_simp
  then show ?thesis using scan_str_printable [OF scan_escape_any [of s "[]"]] by (simp add: enc_string_def one_line_def)
qed

lemma one_line_int: "one_line (enc_int n)"
proof -
  have "list_all is_digit (itoa_pos k)" if "0 \<le> k" for k using itoa_pos_digits [OF that] .
  then have "one_line (itoa_pos k)" if "0 \<le> k" for k
    using that unfolding one_line_def list_all_iff is_digit_def by fastforce
  moreover have "one_line ''-''" by code_simp
  ultimately show ?thesis by (auto simp: enc_int_def FormatInt_def)
qed

lemma one_line_bool: "one_line (enc_bool b)"
proof -
  have "one_line ''true''" "one_line ''false''" by code_simp+
  then show ?thesis by (simp add: enc_bool_def)
qed

lemma one_line_Join: "one_line sep \<Longrightarrow> list_all one_line xs \<Longrightarrow> one_line (Join xs sep)"
  by (induction xs sep rule: Join.induct) auto

lemma one_line_array: "list_all one_line xs \<Longrightarrow> one_line (enc_array xs)"
proof -
  have "one_line '',''" "one_line ''[''" "one_line '']''" by code_simp+
  then show "list_all one_line xs \<Longrightarrow> one_line (enc_array xs)" by (simp add: enc_array_def one_line_Join)
qed

lemma one_line_object: "list_all (\<lambda>m. one_line (snd m)) ms \<Longrightarrow> one_line (enc_object ms)"
proof -
  assume a: "list_all (\<lambda>m. one_line (snd m)) ms"
  have c: "one_line '',''" "one_line ''{''" "one_line ''}''" "one_line '':''" by code_simp+
  have "list_all one_line (map member_text ms)"
    using a c(4) one_line_string by (auto simp: list_all_iff member_text_def)
  then have "one_line (Join (map member_text ms) '','')" by (rule one_line_Join [OF c(1)])
  then show ?thesis unfolding enc_object_text using c by simp
qed

lemmas one_line_parts = one_line_string one_line_int one_line_bool one_line_array one_line_object

section \<open>The documents of the program\<close>

lemma wire_keys [simp]:
  "as_utf8 ''vmid'' = ''vmid''" "as_utf8 ''name'' = ''name''" "as_utf8 ''status'' = ''status''"
  "as_utf8 ''uptime'' = ''uptime''" "as_utf8 ''tool'' = ''tool''" "as_utf8 ''arguments'' = ''arguments''"
  "as_utf8 ''executed'' = ''executed''" "as_utf8 ''deduplicated'' = ''deduplicated''"
  "as_utf8 ''upstream_status'' = ''upstream_status''" "as_utf8 ''result'' = ''result''"
  "as_utf8 ''warnings'' = ''warnings''" "as_utf8 ''prompt_tokens'' = ''prompt_tokens''"
  "as_utf8 ''completion_tokens'' = ''completion_tokens''" "as_utf8 ''total_tokens'' = ''total_tokens''"
  "as_utf8 ''estimated'' = ''estimated''" "as_utf8 ''index'' = ''index''" "as_utf8 ''message'' = ''message''"
  "as_utf8 ''role'' = ''role''" "as_utf8 ''content'' = ''content''" "as_utf8 ''finish_reason'' = ''finish_reason''"
  "as_utf8 ''id'' = ''id''" "as_utf8 ''object'' = ''object''" "as_utf8 ''created'' = ''created''"
  "as_utf8 ''model'' = ''model''" "as_utf8 ''choices'' = ''choices''" "as_utf8 ''usage'' = ''usage''"
  "as_utf8 ''x_granite'' = ''x_granite''" "as_utf8 ''delta'' = ''delta''" "as_utf8 ''error'' = ''error''"
  "as_utf8 ''type'' = ''type''" "as_utf8 ''param'' = ''param''" "as_utf8 ''code'' = ''code''"
  "as_utf8 ''data'' = ''data''" "as_utf8 ''owned_by'' = ''owned_by''" "as_utf8 ''assistant'' = ''assistant''"
  "as_utf8 ''stop'' = ''stop''"
  by (rule as_utf8_ascii, code_simp)+

text \<open>What the parser makes of each of them.\<close>

definition json_VM :: "VM \<Rightarrow> json" where
  "json_VM vm = JObj (map2 member_of
    [(''vmid'', enc_int (VMID vm)), (''name'', enc_string (Name vm)), (''status'', enc_string (Status vm)),
     (''uptime'', enc_int (vm_Uptime vm))]
    [JNum (FormatInt (VMID vm)), JStr (as_utf8 (Name vm)), JStr (as_utf8 (Status vm)), JNum (FormatInt (vm_Uptime vm))])"

definition json_arguments :: "int \<Rightarrow> json" where
  "json_arguments v = JObj (map2 member_of [(''vmid'', enc_int v)] [JNum (FormatInt v)])"

definition json_strings :: "string list \<Rightarrow> json" where
  "json_strings ws = JArr (zip (map enc_string ws) (map (JStr \<circ> as_utf8) ws))"

definition json_metadata :: "GraniteMetadata \<Rightarrow> json" where
  "json_metadata m = JObj (map2 member_of
    ([(''tool'', enc_string (gm_Tool m)), (''arguments'', enc_object [(''vmid'', enc_int (gm_VMID m))]),
      (''executed'', enc_bool (gm_Executed m)), (''deduplicated'', enc_bool (gm_Deduplicated m))] @
     (if gm_UpstreamStatus m = 0 then [] else [(''upstream_status'', enc_int (gm_UpstreamStatus m))]) @
     (case gm_Result m of None \<Rightarrow> [] | Some vm \<Rightarrow> [(''result'', enc_VM vm)]) @
     [(''warnings'', enc_array (map enc_string (gm_Warnings m)))])
    ([JStr (as_utf8 (gm_Tool m)), json_arguments (gm_VMID m), JBool (gm_Executed m), JBool (gm_Deduplicated m)] @
     (if gm_UpstreamStatus m = 0 then [] else [JNum (FormatInt (gm_UpstreamStatus m))]) @
     (case gm_Result m of None \<Rightarrow> [] | Some vm \<Rightarrow> [json_VM vm]) @
     [json_strings (gm_Warnings m)]))"

definition json_usage :: "Usage \<Rightarrow> json" where
  "json_usage u = JObj (map2 member_of
    [(''prompt_tokens'', enc_int (PromptTokens u)), (''completion_tokens'', enc_int (CompletionTokens u)),
     (''total_tokens'', enc_int (TotalTokens u)), (''estimated'', enc_bool (Estimated u))]
    [JNum (FormatInt (PromptTokens u)), JNum (FormatInt (CompletionTokens u)), JNum (FormatInt (TotalTokens u)),
     JBool (Estimated u)])"

definition json_optional :: "string option \<Rightarrow> json" where
  "json_optional x = (case x of None \<Rightarrow> JNull | Some t \<Rightarrow> JStr (as_utf8 t))"

definition json_choice :: "Choice \<Rightarrow> json" where
  "json_choice c = JObj (map2 member_of
    [(''index'', enc_int (Index c)),
     (''message'', enc_object
        [(''role'', enc_string (am_Role (choice_Message c))),
         (''content'', case am_Content (choice_Message c) of None \<Rightarrow> ''null'' | Some t \<Rightarrow> enc_string t)]),
     (''finish_reason'', enc_string (FinishReason c))]
    [JNum (FormatInt (Index c)),
     JObj (map2 member_of
       [(''role'', enc_string (am_Role (choice_Message c))),
        (''content'', case am_Content (choice_Message c) of None \<Rightarrow> ''null'' | Some t \<Rightarrow> enc_string t)]
       [JStr (as_utf8 (am_Role (choice_Message c))), json_optional (am_Content (choice_Message c))]),
     JStr (as_utf8 (FinishReason c))])"

definition json_response :: "ResponseBody \<Rightarrow> json" where
  "json_response r = JObj (map2 member_of
    [(''id'', enc_string (rb_ID r)), (''object'', enc_string (rb_Object r)),
     (''created'', enc_int (rb_Created r)), (''model'', enc_string (rb_Model r)),
     (''choices'', enc_array (map enc_choice (rb_Choices r))), (''usage'', enc_usage (rb_Usage r)),
     (''x_granite'', enc_metadata (rb_XGranite r))]
    [JStr (as_utf8 (rb_ID r)), JStr (as_utf8 (rb_Object r)), JNum (FormatInt (rb_Created r)),
     JStr (as_utf8 (rb_Model r)), JArr (zip (map enc_choice (rb_Choices r)) (map json_choice (rb_Choices r))),
     json_usage (rb_Usage r), json_metadata (rb_XGranite r)])"

lemma spells_raise:
  "0 \<le> k \<Longrightarrow> spells k (enc_string s) (JStr (as_utf8 s))" "0 \<le> k \<Longrightarrow> spells k (enc_int n) (JNum (FormatInt n))"
  "0 \<le> k \<Longrightarrow> spells k (enc_bool b) (JBool b)" "0 \<le> k \<Longrightarrow> spells k ''null'' JNull"
  using spells_mono spells_string spells_int spells_bool spells_null by blast+

lemmas flat_members = spells_member_def spells_string spells_int spells_bool spells_null

lemma spells_VM: "spells 1 (enc_VM vm) (json_VM vm)"
  unfolding enc_VM_def json_VM_def by (rule spells_nested(1) [of 0]) (simp_all add: flat_members)

lemma spells_arguments: "spells 1 (enc_object [(''vmid'', enc_int v)]) (json_arguments v)"
  unfolding json_arguments_def by (rule spells_nested(1) [of 0]) (simp_all add: flat_members)

lemma spells_strings: "spells 1 (enc_array (map enc_string ws)) (json_strings ws)"
  unfolding json_strings_def by (rule spells_nested(2) [of 0]) (simp_all add: list_all2_conv_all_nth spells_string)

lemma spells_metadata: "spells 2 (enc_metadata m) (json_metadata m)"
  unfolding enc_metadata_def json_metadata_def
  by (rule spells_nested(1) [of 1], intro list_all2_appendI)
    (auto simp: flat_members spells_raise spells_arguments spells_strings spells_VM split: option.split)

lemma spells_usage: "spells 1 (enc_usage u) (json_usage u)"
  unfolding enc_usage_def json_usage_def by (rule spells_nested(1) [of 0]) (simp_all add: flat_members)

lemma spells_optional: "spells 0 (case x of None \<Rightarrow> ''null'' | Some t \<Rightarrow> enc_string t) (json_optional x)"
  by (cases x) (simp_all add: json_optional_def spells_null spells_string)

lemma spells_message:
  "spells 1 (enc_object [(''role'', enc_string a), (''content'', case x of None \<Rightarrow> ''null'' | Some t \<Rightarrow> enc_string t)])
    (JObj (map2 member_of [(''role'', enc_string a), (''content'', case x of None \<Rightarrow> ''null'' | Some t \<Rightarrow> enc_string t)]
       [JStr (as_utf8 a), json_optional x]))"
  by (rule spells_nested(1) [of 0]) (simp_all add: flat_members spells_optional)

lemma spells_choice: "spells 2 (enc_choice c) (json_choice c)"
  unfolding enc_choice_def json_choice_def
  by (rule spells_nested(1) [of 1]) (simp_all add: flat_members spells_raise spells_message [simplified])

lemma spells_response: "spells 4 (enc_response r) (json_response r)"
proof -
  have "spells 3 (enc_array (map enc_choice (rb_Choices r))) (JArr (zip (map enc_choice (rb_Choices r)) (map json_choice (rb_Choices r))))"
    by (rule spells_nested(2) [of 2]) (simp_all add: list_all2_conv_all_nth spells_choice)
  then show ?thesis
    unfolding enc_response_def json_response_def
    by (intro spells_nested(1) [of 3])
      (simp_all add: flat_members spells_raise spells_mono [OF spells_usage, of 3] spells_mono [OF spells_metadata, of 3])
qed

section \<open>What a client finds\<close>

datatype path_step = Key string | Nth nat

fun at_path :: "path_step list \<Rightarrow> json \<Rightarrow> json option" where
  "at_path [] j = Some j"
| "at_path (Key k # ps) (JObj ms) = (case map_of (map (\<lambda>(k, t, v). (k, v)) ms) k of None \<Rightarrow> None | Some v \<Rightarrow> at_path ps v)"
| "at_path (Nth i # ps) (JArr es) = (if i < length es then at_path ps (snd (es ! i)) else None)"
| "at_path _ _ = None"

lemma at_member [simp]:
  "at_path (Key k # ps) (JObj (member_of m v # ms)) =
    (if as_utf8 (fst m) = k then at_path ps v else at_path (Key k # ps) (JObj ms))"
  "at_path (Key k # ps) (JObj []) = None"
  by (simp_all add: member_of_def)

lemma at_element [simp]:
  "at_path (Nth 0 # ps) (JArr ((t, v) # es)) = at_path ps v"
  by simp

lemma at_metadata:
  "at_path [Key ''tool''] (json_metadata m) = Some (JStr (as_utf8 (gm_Tool m)))"
  "at_path [Key ''arguments'', Key ''vmid''] (json_metadata m) = Some (JNum (FormatInt (gm_VMID m)))"
  "at_path [Key ''executed''] (json_metadata m) = Some (JBool (gm_Executed m))"
  "at_path [Key ''deduplicated''] (json_metadata m) = Some (JBool (gm_Deduplicated m))"
  "at_path [Key ''upstream_status''] (json_metadata m) =
    (if gm_UpstreamStatus m = 0 then None else Some (JNum (FormatInt (gm_UpstreamStatus m))))"
  "at_path [Key ''result''] (json_metadata m) = map_option json_VM (gm_Result m)"
  "at_path [Key ''warnings''] (json_metadata m) = Some (json_strings (gm_Warnings m))"
  by (simp_all add: json_metadata_def json_arguments_def del: at_path.simps(2,4) split: option.split)

lemma at_warning:
  assumes "at_path [k] j = Some (json_strings ws)"
  shows "at_path [k, Nth i] j = (if i < length ws then Some (JStr (as_utf8 (ws ! i))) else None)"
proof -
  have "at_path [Nth i] (json_strings ws) = (if i < length ws then Some (JStr (as_utf8 (ws ! i))) else None)"
    by (simp add: json_strings_def)
  then show ?thesis
    using assms by (cases k; cases j) (auto split: option.splits if_splits)
qed

lemma FormatInt_0: "FormatInt 0 = ''0''"
  by code_simp

text \<open>
  C33. A client that parses the body of an answer finds in it exactly what the service has put
  there: the identifier, the time, the model, one choice with the text of the assistant and the
  reason stop but no call of a tool, and the metadata with the tool, the VM, what was done, the
  status of the infrastructure service, every warning, and the queried VM if there is one; no
  tokens are counted. A text arrives as it was, but for bytes that are not UTF-8.
\<close>

theorem response_reads_back:
  "\<exists>j. whole_json (enc_response (NewResponse random now model call content result warnings) @ newline) = Some j \<and>
    at_path [Key ''id''] j = Some (JStr (as_utf8 (newID random))) \<and>
    at_path [Key ''created''] j = Some (JNum (FormatInt now)) \<and>
    at_path [Key ''model''] j = Some (JStr (as_utf8 model)) \<and>
    at_path [Key ''choices'', Nth 0, Key ''message'', Key ''role''] j = Some (JStr ''assistant'') \<and>
    at_path [Key ''choices'', Nth 0, Key ''message'', Key ''content''] j = Some (JStr (as_utf8 content)) \<and>
    at_path [Key ''choices'', Nth 0, Key ''message'', Key ''tool_calls''] j = None \<and>
    at_path [Key ''choices'', Nth 0, Key ''finish_reason''] j = Some (JStr ''stop'') \<and>
    at_path [Key ''choices'', Nth 1] j = None \<and>
    at_path [Key ''x_granite'', Key ''tool''] j = Some (JStr (as_utf8 (ToolName (fst (Metadata (ac_Action call)))))) \<and>
    at_path [Key ''x_granite'', Key ''arguments'', Key ''vmid''] j = Some (JNum (FormatInt (ac_VMID call))) \<and>
    at_path [Key ''x_granite'', Key ''executed''] j = Some (JBool (mr_Executed result)) \<and>
    at_path [Key ''x_granite'', Key ''deduplicated''] j = Some (JBool (mr_Deduplicated result)) \<and>
    at_path [Key ''x_granite'', Key ''result''] j = map_option json_VM (mr_Result result) \<and>
    at_path [Key ''x_granite'', Key ''upstream_status''] j =
      (if mr_UpstreamStatus result = 0 then None else Some (JNum (FormatInt (mr_UpstreamStatus result)))) \<and>
    at_path [Key ''x_granite'', Key ''warnings'', Nth i] j =
      (if i < length warnings then Some (JStr (as_utf8 (warnings ! i))) else None) \<and>
    at_path [Key ''usage'', Key ''total_tokens''] j = Some (JNum ''0'')"
proof -
  let ?R = "NewResponse random now model call content result warnings"
  let ?j = "json_response ?R"
  have w: "whole_json (enc_response ?R @ newline) = Some ?j"
    by (rule spells_whole [OF spells_response]) (simp_all add: max_depth_def newline_def is_ws_def)
  have x: "at_path (Key ''x_granite'' # ps) ?j = at_path ps (json_metadata (rb_XGranite ?R))" for ps
    by (simp add: json_response_def del: at_path.simps(2,4))
  have c: "at_path (Key ''choices'' # ps) ?j = at_path ps (JArr (zip (map enc_choice (rb_Choices ?R)) (map json_choice (rb_Choices ?R))))" for ps
    by (simp add: json_response_def del: at_path.simps(2,4))
  have p: "at_path [Key ''id''] ?j = Some (JStr (as_utf8 (newID random)))"
    "at_path [Key ''created''] ?j = Some (JNum (FormatInt now))"
    "at_path [Key ''model''] ?j = Some (JStr (as_utf8 model))"
    by (simp_all add: json_response_def NewResponse_def Let_def del: at_path.simps(2,4))
  have n: "at_path [Key ''warnings'', Nth i] (json_metadata m) =
      (if i < length (gm_Warnings m) then Some (JStr (as_utf8 (gm_Warnings m ! i))) else None)" for m
    using at_metadata(7) [of m] by (rule at_warning)
  have u: "at_path [Key ''usage'', Key ''total_tokens''] ?j = Some (JNum ''0'')"
    by (simp add: json_response_def json_usage_def NewResponse_def FormatInt_0 Let_def del: at_path.simps(2,4))
  show ?thesis
    by (intro exI [of _ ?j] conjI w p u)
      (simp_all add: x c n at_metadata json_choice_def json_optional_def del: at_path.simps(2,4))
qed

section \<open>The events of a stream\<close>

text \<open>An event whose data is one JSON document on one line.\<close>

definition document :: "string \<Rightarrow> bool" where
  "document t \<longleftrightarrow> one_line t \<and> (\<exists>j. spells 5 t j)"

lemma document_whole:
  assumes "document t"
  shows "whole_json t \<noteq> None" "whole_json (t @ newline) \<noteq> None" "CHR 0x0A \<notin> set t"
proof -
  obtain j where j: "spells 5 t j" and o: "one_line t" using assms unfolding document_def by blast
  show "whole_json t \<noteq> None" using spells_whole [OF j, of "[]"] by (simp add: max_depth_def)
  show "whole_json (t @ newline) \<noteq> None"
    using spells_whole [OF j, of newline] by (simp add: max_depth_def newline_def is_ws_def)
  have "\<not> 0x20 \<le> code CHR 0x0A" by code_simp
  then show "CHR 0x0A \<notin> set t" using o unfolding one_line_def list_all_iff by blast
qed

lemma null_printable [simp]: "0x20 \<le> code CHR ''n''" "0x20 \<le> code CHR ''u''" "0x20 \<le> code CHR ''l''"
  by code_simp+

lemma one_line_null: "one_line ''null''"
  by simp

lemma one_line_metadata: "one_line (enc_metadata m)"
  by (auto simp: enc_metadata_def enc_VM_def list_all_iff intro!: one_line_object one_line_parts split: option.splits)

lemma one_line_usage: "one_line (enc_usage u)"
  by (auto simp: enc_usage_def list_all_iff intro!: one_line_object one_line_parts)

lemma one_line_response: "one_line (enc_response r)"
  by (auto simp: enc_response_def enc_choice_def list_all_iff one_line_null one_line_usage one_line_metadata
      intro!: one_line_object one_line_array one_line_string one_line_int split: option.splits)

definition json_delta :: "string \<Rightarrow> json \<Rightarrow> string \<Rightarrow> json \<Rightarrow> json" where
  "json_delta delta dj fin fj = JArr (zip [enc_object [(''delta'', delta), (''finish_reason'', fin)]]
    [JObj (map2 member_of [(''delta'', delta), (''finish_reason'', fin)] [dj, fj])])"

lemma spells_delta:
  assumes "spells 1 delta dj" "spells 1 fin fj" "list_all2 (spells_member 3) extra vs"
  shows "spells 4 (delta_event delta fin extra)
    (JObj (map2 member_of ([(''choices'', enc_array [enc_object [(''delta'', delta), (''finish_reason'', fin)]])] @ extra)
      ([json_delta delta dj fin fj] @ vs)))"
proof -
  have "spells 2 (enc_object [(''delta'', delta), (''finish_reason'', fin)])
     (JObj (map2 member_of [(''delta'', delta), (''finish_reason'', fin)] [dj, fj]))"
    by (rule spells_nested(1) [of 1]) (simp_all add: spells_member_def assms(1,2))
  then have "spells 3 (enc_array [enc_object [(''delta'', delta), (''finish_reason'', fin)]]) (json_delta delta dj fin fj)"
    unfolding json_delta_def by (intro spells_nested(2) [of 2]) simp_all
  then show ?thesis
    unfolding delta_event_def by (intro spells_nested(1) [of 3] list_all2_appendI assms(3)) (simp_all add: spells_member_def)
qed

lemma one_line_delta: "one_line delta \<Longrightarrow> one_line fin \<Longrightarrow> list_all (\<lambda>m. one_line (snd m)) extra \<Longrightarrow>
    one_line (delta_event delta fin extra)"
  unfolding delta_event_def by (rule one_line_object) (auto intro!: one_line_object one_line_array simp: list_all_iff)

text \<open>The event parsed, with the document that it was parsed to.\<close>

definition reads :: "string \<Rightarrow> json \<Rightarrow> bool" where
  "reads t j \<longleftrightarrow> CHR 0x0A \<notin> set t \<and> whole_json t = Some j"

lemma reads_spells:
  assumes "one_line t" "spells 4 t j"
  shows "reads t j"
proof -
  have "document t" unfolding document_def using assms spells_mono [OF assms(2), of 5] by auto
  then show ?thesis using document_whole(3) spells_whole [OF assms(2), of "[]"] by (simp add: reads_def max_depth_def)
qed

lemma first_event:
  "\<exists>j. reads (delta_event (enc_object [(''role'', enc_string ''assistant'')]) ''null'' []) j \<and>
    at_path [Key ''choices'', Nth 0, Key ''delta'', Key ''role''] j = Some (JStr ''assistant'')"
proof -
  let ?d = "enc_object [(''role'', enc_string ''assistant'')]"
  let ?dj = "JObj (map2 member_of [(''role'', enc_string ''assistant'')] [JStr (as_utf8 ''assistant'')])"
  have d: "spells 1 ?d ?dj" by (rule spells_nested(1) [of 0]) (simp_all add: flat_members del: wire_keys)
  have n: "spells 1 ''null'' JNull" by (rule spells_raise) simp
  have "one_line (delta_event ?d ''null'' [])"
    by (rule one_line_delta) (auto simp: one_line_null intro!: one_line_object one_line_string)
  from reads_spells [OF this spells_delta [OF d n list.rel_intros(1)]] show ?thesis
    by (intro exI conjI, assumption) (simp add: json_delta_def del: at_path.simps(2,4))
qed

lemma content_event:
  "\<exists>j. reads (delta_event (enc_object [(''content'', enc_string content)]) ''null'' []) j \<and>
    at_path [Key ''choices'', Nth 0, Key ''delta'', Key ''content''] j = Some (JStr (as_utf8 content))"
proof -
  let ?d = "enc_object [(''content'', enc_string content)]"
  let ?dj = "JObj (map2 member_of [(''content'', enc_string content)] [JStr (as_utf8 content)])"
  have d: "spells 1 ?d ?dj" by (rule spells_nested(1) [of 0]) (simp_all add: flat_members)
  have n: "spells 1 ''null'' JNull" by (rule spells_raise) simp
  have "one_line (delta_event ?d ''null'' [])"
    by (rule one_line_delta) (auto simp: one_line_null intro!: one_line_object one_line_string)
  from reads_spells [OF this spells_delta [OF d n list.rel_intros(1)]] show ?thesis
    by (intro exI conjI, assumption) (simp add: json_delta_def del: at_path.simps(2,4))
qed

lemma last_event:
  "\<exists>j. reads (delta_event (enc_object []) (enc_string ''stop'') [(''x_granite'', enc_metadata m)]) j \<and>
    at_path [Key ''choices'', Nth 0, Key ''finish_reason''] j = Some (JStr ''stop'') \<and>
    at_path [Key ''x_granite''] j = Some (json_metadata m)"
proof -
  have d: "spells 1 (enc_object []) (JObj (map2 member_of [] []))" by (rule spells_nested(1) [of 0]) simp_all
  have n: "spells 1 (enc_string ''stop'') (JStr (as_utf8 ''stop''))" by (rule spells_raise) simp
  have x: "list_all2 (spells_member 3) [(''x_granite'', enc_metadata m)] [json_metadata m]"
    by (simp add: spells_member_def spells_mono [OF spells_metadata, of 3])
  have "one_line (delta_event (enc_object []) (enc_string ''stop'') [(''x_granite'', enc_metadata m)])"
    by (rule one_line_delta) (auto simp: one_line_metadata intro!: one_line_object one_line_string)
  from reads_spells [OF this spells_delta [OF d n x]] show ?thesis
    by (intro exI conjI, assumption) (simp_all add: json_delta_def del: at_path.simps(2,4))
qed

lemma usage_event:
  "\<exists>j. reads (enc_object [(''choices'', enc_array []), (''usage'', enc_usage u)]) j \<and> at_path [Key ''usage''] j = Some (json_usage u)"
proof -
  have e: "spells 1 (enc_array []) (JArr (zip [] []))" by (rule spells_nested(2) [of 0]) simp_all
  have "spells 4 (enc_object [(''choices'', enc_array []), (''usage'', enc_usage u)])
      (JObj (map2 member_of [(''choices'', enc_array []), (''usage'', enc_usage u)] [JArr (zip [] []), json_usage u]))"
    by (rule spells_nested(1) [of 1]) (use e in \<open>simp_all add: spells_member_def spells_usage\<close>)
  moreover have "one_line (enc_object [(''choices'', enc_array []), (''usage'', enc_usage u)])"
    by (auto simp: one_line_usage intro!: one_line_object one_line_array)
  ultimately show ?thesis
    using reads_spells by (intro exI conjI, blast) (simp del: at_path.simps(2,4))
qed

text \<open>
  C34. A streamed answer has the events that are promised, in their order: the role, the whole
  text, the reason stop with the same metadata as the plain answer, the usage when it was asked
  for, and the end mark. The data of each but the end mark is one JSON document without a line
  feed, so that no text of a user, a model or a VM can start or end an event.
\<close>

theorem stream_reads_back:
  "\<exists>e1 e2 e3 extra j1 j2 j3. StreamEvents (NewResponse random now model call content result warnings) includeUsage =
      Some ([e1, e2, e3] @ extra @ [''[DONE]'']) \<and>
    reads e1 j1 \<and> at_path [Key ''choices'', Nth 0, Key ''delta'', Key ''role''] j1 = Some (JStr ''assistant'') \<and>
    reads e2 j2 \<and> at_path [Key ''choices'', Nth 0, Key ''delta'', Key ''content''] j2 = Some (JStr (as_utf8 content)) \<and>
    reads e3 j3 \<and> at_path [Key ''choices'', Nth 0, Key ''finish_reason''] j3 = Some (JStr ''stop'') \<and>
    at_path [Key ''x_granite''] j3 =
      at_path [Key ''x_granite''] (json_response (NewResponse random now model call content result warnings)) \<and>
    (if includeUsage then \<exists>e j. extra = [e] \<and> reads e j \<and> at_path [Key ''usage'', Key ''total_tokens''] j = Some (JNum ''0'')
     else extra = [])"
proof -
  let ?R = "NewResponse random now model call content result warnings"
  let ?e = "enc_object [(''choices'', enc_array []), (''usage'', enc_usage (rb_Usage ?R))]"
  obtain j1 j2 j3 j4 where
    j1: "reads (delta_event (enc_object [(''role'', enc_string ''assistant'')]) ''null'' []) j1"
      "at_path [Key ''choices'', Nth 0, Key ''delta'', Key ''role''] j1 = Some (JStr ''assistant'')" and
    j2: "reads (delta_event (enc_object [(''content'', enc_string content)]) ''null'' []) j2"
      "at_path [Key ''choices'', Nth 0, Key ''delta'', Key ''content''] j2 = Some (JStr (as_utf8 content))" and
    j3: "reads (delta_event (enc_object []) (enc_string ''stop'') [(''x_granite'', enc_metadata (rb_XGranite ?R))]) j3"
      "at_path [Key ''choices'', Nth 0, Key ''finish_reason''] j3 = Some (JStr ''stop'')"
      "at_path [Key ''x_granite''] j3 = Some (json_metadata (rb_XGranite ?R))" and
    j4: "reads ?e j4" "at_path [Key ''usage''] j4 = Some (json_usage (rb_Usage ?R))"
    using first_event content_event [of content] last_event [of "rb_XGranite ?R"] usage_event [of "rb_Usage ?R"] by blast
  have x: "at_path [Key ''x_granite''] (json_response ?R) = Some (json_metadata (rb_XGranite ?R))"
    by (simp add: json_response_def del: at_path.simps(2,4) NewResponse_select)
  have u: "at_path [Key ''usage'', Key ''total_tokens''] j4 = Some (JNum ''0'')"
  proof -
    have z: "FormatInt 0 = ''0''" by code_simp
    have "rb_Usage ?R = \<lparr>PromptTokens = 0, CompletionTokens = 0, TotalTokens = 0, Estimated = True\<rparr>"
      by (simp add: NewResponse_def Let_def)
    then have "at_path [Key ''total_tokens''] (json_usage (rb_Usage ?R)) = Some (JNum ''0'')"
      using z by (simp add: json_usage_def del: at_path.simps(2,4))
    moreover have "at_path [Key ''usage'', Key ''total_tokens''] j4 = at_path [Key ''total_tokens''] (json_usage (rb_Usage ?R))"
      using j4(2) by (cases j4) (auto split: option.splits)
    ultimately show ?thesis by simp
  qed
  have s: "StreamEvents ?R includeUsage = Some ([delta_event (enc_object [(''role'', enc_string ''assistant'')]) ''null'' [],
      delta_event (enc_object [(''content'', enc_string content)]) ''null'' [],
      delta_event (enc_object []) (enc_string ''stop'') [(''x_granite'', enc_metadata (rb_XGranite ?R))]] @
      (if includeUsage then [?e] else []) @ [''[DONE]''])"
    by (simp add: StreamEvents_def del: NewResponse_select(4))
  show ?thesis
    by (intro exI conjI, rule s) (use j1 j2 j3 j4(1) u x in \<open>auto\<close>)
qed

section \<open>Every body\<close>

lemma document_response: "document (enc_response r)"
  unfolding document_def using one_line_response spells_mono [OF spells_response, of 5] by auto

lemma spells_error: "\<exists>j. spells 2 (enc_error r) j"
proof -
  let ?b = "[(''message'', enc_string (body_Message (response_Error r))), (''type'', enc_string (body_Type (response_Error r))),
      (''param'', enc_optional (body_Param (response_Error r))), (''code'', enc_string (body_Code (response_Error r)))]"
  have "spells 1 (enc_object ?b) (JObj (map2 member_of ?b [JStr (as_utf8 (body_Message (response_Error r))),
      JStr (as_utf8 (body_Type (response_Error r))), json_optional (body_Param (response_Error r)),
      JStr (as_utf8 (body_Code (response_Error r)))]))"
    by (rule spells_nested(1) [of 0]) (simp_all add: flat_members enc_optional_def spells_optional)
  then have "list_all2 (spells_member 1) [(''error'', enc_object ?b)] [JObj (map2 member_of ?b [JStr (as_utf8 (body_Message (response_Error r))),
      JStr (as_utf8 (body_Type (response_Error r))), json_optional (body_Param (response_Error r)),
      JStr (as_utf8 (body_Code (response_Error r)))])]"
    by (simp add: spells_member_def)
  from spells_nested(1) [OF this, of 2] show ?thesis unfolding enc_error_def by auto
qed

lemma document_error: "document (enc_error r)"
proof -
  have "one_line (enc_error r)"
    by (auto simp: enc_error_def enc_optional_def one_line_null list_all_iff
        intro!: one_line_object one_line_string split: option.splits)
  then show ?thesis unfolding document_def using spells_error spells_mono [of 2 "enc_error r" _ 5] by fastforce
qed

lemma document_flat:
  assumes "\<And>m. m \<in> set ms \<Longrightarrow> \<exists>s. snd m = enc_string s"
  shows "document (enc_object ms)"
proof -
  have "\<forall>m. \<exists>j. m \<in> set ms \<longrightarrow> spells 0 (snd m) j" using assms spells_string by metis
  then obtain f where "\<And>m. m \<in> set ms \<Longrightarrow> spells 0 (snd m) (f m)" by metis
  then have "spells 5 (enc_object ms) (JObj (map2 member_of ms (map f ms)))"
    by (intro spells_nested(1) [of 0]) (simp_all add: list_all2_conv_all_nth spells_member_def)
  moreover have "one_line (enc_object ms)"
    by (rule one_line_object) (use assms one_line_string in \<open>auto simp: list_all_iff\<close>, metis snd_conv)
  ultimately show ?thesis unfolding document_def by blast
qed

lemma document_models: "document (enc_ModelList l)"
proof -
  let ?m = "\<lambda>m. [(''id'', enc_string (model_ID m)), (''object'', enc_string (model_Object m)),
         (''created'', enc_int (model_Created m)), (''owned_by'', enc_string (model_OwnedBy m))]"
  let ?j = "\<lambda>m. JObj (map2 member_of (?m m) [JStr (as_utf8 (model_ID m)), JStr (as_utf8 (model_Object m)),
         JNum (FormatInt (model_Created m)), JStr (as_utf8 (model_OwnedBy m))])"
  have e: "spells 1 (enc_object (?m m)) (?j m)" for m
    by (rule spells_nested(1) [of 0]) (simp_all add: flat_members)
  have "list_all2 (spells 1) (map (\<lambda>m. enc_object (?m m)) xs) (map ?j xs)" for xs
  proof (induction xs)
    case (Cons m xs)
    then show ?case using e [of m] by simp
  qed simp
  then have a: "spells 2 (enc_array (map (\<lambda>m. enc_object (?m m)) (ml_Data l)))
      (JArr (zip (map (\<lambda>m. enc_object (?m m)) (ml_Data l)) (map ?j (ml_Data l))))"
    by (rule spells_nested(2)) simp_all
  have "spells 5 (enc_ModelList l) (JObj (map2 member_of
      [(''object'', enc_string (ml_Object l)), (''data'', enc_array (map (\<lambda>m. enc_object (?m m)) (ml_Data l)))]
      [JStr (as_utf8 (ml_Object l)), JArr (zip (map (\<lambda>m. enc_object (?m m)) (ml_Data l)) (map ?j (ml_Data l)))]))"
    unfolding enc_ModelList_def by (rule spells_nested(1) [of 2]) (use a in \<open>simp_all add: spells_member_def spells_raise\<close>)
  moreover have "one_line (enc_ModelList l)"
    by (auto simp: enc_ModelList_def list_all_iff intro!: one_line_object one_line_array one_line_string one_line_int)
  ultimately show ?thesis unfolding document_def by blast
qed

text \<open>A body is one document with a line feed, or a sequence of events that ends in the end mark.\<close>

definition good_body :: "string \<Rightarrow> bool" where
  "good_body b \<longleftrightarrow> whole_json b \<noteq> None \<or>
    (\<exists>events. b = concat (map event_text (events @ [''[DONE]''])) \<and>
       (\<forall>e \<in> set events. CHR 0x0A \<notin> set e \<and> whole_json e \<noteq> None))"

lemma good_WriteJSON: "document t \<Longrightarrow> good_body (wr_Body (WriteJSON status requestID t))"
  using document_whole(2) by (simp add: good_body_def WriteJSON_def)

lemma good_WriteError: "good_body (wr_Body (WriteError requestID err))"
  unfolding WriteError_def by (rule good_WriteJSON [OF document_error])

lemma good_stream:
  assumes "StreamEvents r u = Some es"
  shows "good_body (wr_Body (stream_response requestID es))"
proof -
  obtain content where es: "es = [delta_event (enc_object [(''role'', enc_string ''assistant'')]) ''null'' [],
      delta_event (enc_object [(''content'', enc_string content)]) ''null'' [],
      delta_event (enc_object []) (enc_string ''stop'') [(''x_granite'', enc_metadata (rb_XGranite r))]] @
      (if u then [enc_object [(''choices'', enc_array []), (''usage'', enc_usage (rb_Usage r))]] else []) @ [''[DONE]'']"
    using assms by (auto simp: StreamEvents_def Let_def split: list.splits option.splits)
  have "CHR 0x0A \<notin> set e \<and> whole_json e \<noteq> None" if "e \<in> set (butlast es)" for e
    using that first_event content_event [of content] last_event [of "rb_XGranite r"] usage_event [of "rb_Usage r"]
    unfolding reads_def es by (auto simp: butlast_append split: if_splits)
  moreover have "es = butlast es @ [''[DONE]'']" unfolding es by (simp add: butlast_append)
  ultimately show ?thesis
    unfolding good_body_def by (intro disjI2 exI [of _ "butlast es"]) (simp add: stream_response_def)
qed

lemma good_serve:
  assumes "serve sha256 token cfg rdy complete random r s = Some (Written resp, s')"
  shows "good_body (wr_Body resp)"
proof -
  have h: "good_body (wr_Body (Health random r))"
    unfolding Health_def by (intro good_WriteJSON document_flat) auto
  have d: "good_body (wr_Body (Ready rdy random r))"
    by (cases rdy) (auto simp: Ready_def Let_def intro!: good_WriteJSON document_flat)
  have m: "good_body (wr_Body (Models cfg random r))"
    unfolding Models_def Let_def by (intro good_WriteJSON document_models)
  have c: "good_body (wr_Body resp')" if "ChatCompletions complete random r s = (Written resp', s2)" for resp' s2
    using that good_WriteError good_WriteJSON [OF document_response] good_stream
    by (auto simp: ChatCompletions_def Let_def split: sum.splits prod.splits completion.splits if_splits option.splits)
  have b: "good_body (wr_Body resp')" if "BearerAuth sha256 token random r = Some resp'" for resp'
    using that good_WriteError by (auto simp: BearerAuth_def Let_def split: if_splits)
  show ?thesis
    using assms h d m b c by (auto simp: serve_def split: option.splits prod.splits if_splits endpoint.splits)
qed

end
