(* ===== verification/Compaction.thy ===== *)
theory Compaction
  imports WireJson
begin

text \<open>
  \<open>StreamEvents\<close> of \<open>internal/managed/response.go\<close>: the metadata of a stream goes through
  the encoder twice, its text being a raw message of the second time. Compaction leaves every
  text of the encoder as it is, so that the events can be written with the text itself.
\<close>

definition compacts :: "bool \<Rightarrow> string \<Rightarrow> bool" where
  "compacts b t \<longleftrightarrow> (\<forall>s. compact b (t @ s) = t @ compact b s)"

lemma compacts_append: "compacts b s \<Longrightarrow> compacts b t \<Longrightarrow> compacts b (s @ t)"
  by (simp add: compacts_def)

lemma compacts_Nil: "compacts b []"
  by (simp add: compacts_def)

definition tame :: "char \<Rightarrow> bool" where
  "tame c \<longleftrightarrow> code c \<noteq> 0xE2 \<and> c \<notin> {CHR ''<'', CHR ''>'', CHR 0x26, quote, backslash} \<and> \<not> is_ws c"

lemma compacts_tame: "list_all tame t \<Longrightarrow> compacts b t"
  by (induction t) (auto simp: compacts_def tame_def)

text \<open>Pieces of a string: an ASCII character, an escape, a rune of several bytes.\<close>

lemma compacts_esc_ascii:
  assumes "code c < 0x80"
  shows "compacts True (esc_ascii c)"
  using assms
proof (cases rule: esc_ascii_cases)
  case plain
  have "esc_ascii CHR ''<'' \<noteq> [CHR ''<'']" "esc_ascii CHR ''>'' \<noteq> [CHR ''>'']" "esc_ascii CHR 0x26 \<noteq> [CHR 0x26]" by code_simp+
  with plain(1) have "c \<notin> {CHR ''<'', CHR ''>'', CHR 0x26}" by auto
  then show ?thesis using plain assms by (simp add: compacts_def)
next
  case (short e)
  moreover have "code backslash \<noteq> 0xE2" by code_simp
  ultimately show ?thesis by (simp add: compacts_def backslash_def)
next
  case (unicode h1 h2)
  have h: "tame h" if "hex_val h = Some n" for h n
  proof -
    have "48 \<le> code h \<and> code h \<le> 57 \<or> 97 \<le> code h \<and> code h \<le> 102 \<or> 65 \<le> code h \<and> code h \<le> 70"
      using that by (auto simp: hex_val_def Let_def split: if_splits)
    moreover have "code CHR ''<'' = 60" "code CHR ''>'' = 62" "code CHR 0x26 = 38" "code quote = 34" "code backslash = 92"
      "code CHR 0x20 = 32" "code CHR 0x09 = 9" "code CHR 0x0D = 13" "code CHR 0x0A = 10" by code_simp+
    ultimately show ?thesis by (auto simp: tame_def is_ws_def)
  qed
  have "list_all tame [CHR ''0'', CHR ''0'', h1, h2]"
  proof -
    have "tame CHR ''0''" by code_simp
    then show ?thesis using h unicode by simp
  qed
  from compacts_tame [OF this, of True]
  have "compact True (backslash # CHR ''u'' # [CHR ''0'', CHR ''0'', h1, h2] @ s) =
      backslash # CHR ''u'' # [CHR ''0'', CHR ''0'', h1, h2] @ compact True s" for s
  proof -
    have "code backslash \<noteq> 0xE2" by code_simp
    then show ?thesis using \<open>compacts True [CHR ''0'', CHR ''0'', h1, h2]\<close> by (simp add: compacts_def backslash_def)
  qed
  then show ?thesis using unicode by (simp add: compacts_def)
qed

lemma high_not_special: "0x80 \<le> code c \<Longrightarrow> c \<notin> {CHR ''<'', CHR ''>'', CHR 0x26, quote, backslash}"
  by (auto simp: code_def quote_def backslash_def)

lemma compact_high:
  assumes "0x80 \<le> code c" "code c \<noteq> 0xE2"
  shows "compact True (c # s) = c # compact True s"
  using assms high_not_special [OF assms(1)] by (simp add: quote_def)

lemma compacts_enc_valid:
  assumes "valid_rune r" "0x80 \<le> r" "r \<noteq> 0x2028" "r \<noteq> 0x2029"
  shows "compacts True (enc_valid r)"
proof -
  have b: "0 \<le> r" "r \<le> 0x10FFFF" using assms by (simp_all add: valid_rune_def)
  have cont: "0x80 \<le> code (byte (0x80 + x mod 64)) \<and> code (byte (0x80 + x mod 64)) \<noteq> 0xE2" for x :: int
    using pos_mod_bound [of 64 x] pos_mod_sign [of 64 x] by (simp add: code_byte_small del: code_byte)
  consider "r < 0x800" | "0x800 \<le> r" "r < 0x10000" | "0x10000 \<le> r" by linarith
  then show ?thesis
  proof cases
    case 1
    define x where "x = r div 64"
    have x: "2 \<le> x" "x \<le> 31" unfolding x_def using 1 assms(2) by linarith+
    then have "0x80 \<le> code (byte (0xC0 + x)) \<and> code (byte (0xC0 + x)) \<noteq> 0xE2" by (simp add: code_byte_small del: code_byte)
    then have "compacts True [byte (0xC0 + x), byte (0x80 + r mod 64)]"
      using cont [of r] by (simp add: compacts_def compact_high del: compact.simps)
    then show ?thesis using 1 assms(2) by (simp add: enc_valid_def x_def)
  next
    case 2
    define x y z where "x = r div 4096" and "y = r div 64 mod 64" and "z = r mod 64"
    have x: "0 \<le> x" "x \<le> 15" unfolding x_def using 2 by linarith+
    have yz: "0 \<le> y" "y < 64" "0 \<le> z" "z < 64" unfolding y_def z_def by simp_all
    have e: "enc_valid r = [byte (0xE0 + x), byte (0x80 + y), byte (0x80 + z)]"
      using 2 by (simp add: enc_valid_def x_def y_def z_def)
    have "r div 64 div 64 = r div 4096" by (simp add: zdiv_zmult2_eq [symmetric])
    then have r: "r = x * 4096 + y * 64 + z"
      unfolding x_def y_def z_def using div_mult_mod_eq [of r 64] div_mult_mod_eq [of "r div 64" 64] by linarith
    have c: "code (byte (0xE0 + x)) = 0xE0 + x" "code (byte (0x80 + y)) = 0x80 + y" "code (byte (0x80 + z)) = 0x80 + z"
      using x yz by (simp_all add: code_byte_small del: code_byte)
    have tail: "compact True (byte (0x80 + y) # byte (0x80 + z) # s) = byte (0x80 + y) # byte (0x80 + z) # compact True s" for s
      using c yz by (simp add: compact_high del: compact.simps)
    have "compact True (byte (0xE0 + x) # byte (0x80 + y) # byte (0x80 + z) # s) =
        byte (0xE0 + x) # byte (0x80 + y) # byte (0x80 + z) # compact True s" for s
    proof (cases "x = 2")
      case True
      have "\<not> (y = 0 \<and> (z = 40 \<or> z = 41))" using assms(3,4) r True by auto
      moreover have "0x80 \<le> code (byte (0xE0 + x))" using c x by simp
      ultimately show ?thesis
        using c tail [of s] True high_not_special [of "byte (0xE0 + x)"] by (auto simp del: code_byte)
    next
      case False
      then show ?thesis using c x tail [of s] by (simp add: compact_high del: compact.simps)
    qed
    then show ?thesis unfolding e compacts_def by simp
  next
    case 3
    define x where "x = r div 262144"
    have x: "0 \<le> x" "x \<le> 4" unfolding x_def using 3 b by linarith+
    then have "0x80 \<le> code (byte (0xF0 + x)) \<and> code (byte (0xF0 + x)) \<noteq> 0xE2" by (simp add: code_byte_small del: code_byte)
    then have "compacts True [byte (0xF0 + x), byte (0x80 + r div 4096 mod 64), byte (0x80 + r div 64 mod 64), byte (0x80 + r mod 64)]"
      using cont by (simp add: compacts_def compact_high del: compact.simps)
    then show ?thesis using 3 by (simp add: enc_valid_def x_def)
  qed
qed

lemma compacts_escape_Cons:
  obtains p where "escape (c # s) = p @ escape (snd (decode_rune (c # s)))" "compacts True p"
proof (cases "code c < 0x80")
  case True
  then have "decode_rune (c # s) = (code c, s)" by (simp add: decode_rune.simps(2))
  with True show ?thesis
    using that [of "esc_ascii c"] compacts_esc_ascii [OF True] by (simp add: escape.simps(2))
next
  case False
  obtain r t where d: "decode_rune (c # s) = (r, t)" by (cases "decode_rune (c # s)")
  with False have r: "valid_rune r" "0x80 \<le> r" using decode_rune_high [of c s] by simp_all
  then have e: "enc_rune r = enc_valid r" by (simp add: enc_rune_def)
  have bs: "compacts True (backslash # CHR ''u'' # h)" if "compacts True h" for h
  proof -
    have "code backslash \<noteq> 0xE2" by code_simp
    then show ?thesis using that by (simp add: compacts_def backslash_def)
  qed
  show ?thesis
  proof (cases "r = 0xFFFD \<and> \<not> HasPrefix (c # s) (enc_rune 0xFFFD)")
    case True
    have "list_all tame ''fffd''" by code_simp
    with False d True show ?thesis
      using that [of "backslash # ''ufffd''"] bs [OF compacts_tame] by (simp add: escape.simps(2))
  next
    case ok: False
    show ?thesis
    proof (cases "r = 0x2028 \<or> r = 0x2029")
      case True
      have "list_all tame (''202'' @ [hex_digit (0x2028 mod 16)])" "list_all tame (''202'' @ [hex_digit (0x2029 mod 16)])" by code_simp+
      then have "compacts True (backslash # CHR ''u'' # ''202'' @ [hex_digit (r mod 16)])" using True bs compacts_tame by metis
      with False d ok True show ?thesis
        using that [of "backslash # ''u202'' @ [hex_digit (r mod 16)]"] by (auto simp: escape.simps(2))
    next
      case plain: False
      with False d r e ok show ?thesis
        using that [of "enc_valid r"] compacts_enc_valid [OF r] by (auto simp: escape.simps(2))
    qed
  qed
qed

lemma compacts_escape: "compacts True (escape s)"
proof (induction s rule: runes.induct)
  case (1 s)
  show ?case
  proof (cases s)
    case (Cons c t)
    obtain p where "escape s = p @ escape (snd (decode_rune s))" "compacts True p"
      using compacts_escape_Cons [of c t] Cons by metis
    then show ?thesis using 1 Cons compacts_append by simp
  qed (simp add: compacts_Nil)
qed

lemma compacts_string: "compacts False (enc_string s)"
proof -
  have q: "compact b (quote # t) = quote # compact (\<not> b) t" for b t
  proof -
    have "code quote \<noteq> 0xE2" "\<not> is_ws quote" by code_simp+
    then show ?thesis by (simp add: quote_def backslash_def)
  qed
  show ?thesis using compacts_escape [of s] by (simp add: compacts_def enc_string_def q del: compact.simps)
qed

lemma compacts_int: "compacts False (enc_int n)"
proof -
  have "list_all tame (itoa_pos k)" if "0 \<le> k" for k
  proof -
    have "code CHR ''<'' = 60" "code CHR ''>'' = 62" "code CHR 0x26 = 38" "code quote = 34" "code backslash = 92"
      "code CHR 0x20 = 32" "code CHR 0x09 = 9" "code CHR 0x0D = 13" "code CHR 0x0A = 10" by code_simp+
    then show ?thesis
      using itoa_pos_digits [OF that] unfolding list_all_iff tame_def is_ws_def is_digit_def by fastforce
  qed
  moreover have "tame CHR ''-''" by code_simp
  ultimately show ?thesis by (intro compacts_tame) (simp add: enc_int_def FormatInt_def)
qed

lemma compacts_bool: "compacts False (enc_bool b)"
proof -
  have "list_all tame ''true''" "list_all tame ''false''" by code_simp+
  then show ?thesis by (intro compacts_tame) (simp add: enc_bool_def)
qed

lemma compacts_Join: "compacts b sep \<Longrightarrow> list_all (compacts b) xs \<Longrightarrow> compacts b (Join xs sep)"
  by (induction xs sep rule: Join.induct) (auto intro: compacts_append compacts_Nil)

lemma compacts_array:
  assumes "list_all (compacts False) xs"
  shows "compacts False (enc_array xs)"
proof -
  have "list_all tame '',''" "list_all tame ''[''" "list_all tame '']''" by code_simp+
  then show ?thesis unfolding enc_array_def by (intro compacts_append compacts_Join assms compacts_tame)
qed

lemma compacts_object:
  assumes "list_all (\<lambda>m. compacts False (snd m)) ms"
  shows "compacts False (enc_object ms)"
proof -
  have c: "list_all tame '',''" "list_all tame ''{''" "list_all tame ''}''" "list_all tame '':''" by code_simp+
  have "compacts False (member_text m)" if "m \<in> set ms" for m
  proof -
    have "compacts False (snd m)" using assms that by (simp add: list_all_iff)
    then show ?thesis
      unfolding member_text_def by (rule compacts_append [OF compacts_string compacts_append [OF compacts_tame [OF c(4)]]])
  qed
  then have "list_all (compacts False) (map member_text ms)" by (simp add: list_all_iff)
  from compacts_append [OF compacts_tame [OF c(2)] compacts_append [OF compacts_Join [OF compacts_tame [OF c(1)] this] compacts_tame [OF c(3)]]]
  show ?thesis unfolding enc_object_text by simp
qed

lemma enc_raw_metadata: "enc_raw (enc_metadata m) = Some (enc_metadata m)"
proof -
  have "compacts False (enc_metadata m)"
    by (auto simp: enc_metadata_def enc_VM_def list_all_iff
        intro!: compacts_object compacts_array compacts_string compacts_int compacts_bool split: option.splits)
  then have "compact False (enc_metadata m) = enc_metadata m" unfolding compacts_def by (metis append_Nil2 compact.simps(1))
  moreover have "whole_json (enc_metadata m) \<noteq> None" "enc_metadata m \<noteq> []"
    using spells_whole [OF spells_metadata, of "[]" m] spells_metadata [of m] by (auto simp: max_depth_def spells_def)
  ultimately show ?thesis by (auto simp: enc_raw_def)
qed

end
