(* ===== verification/Server.thy ===== *)
theory Server
  imports Handler Svc WireJson
begin

text \<open>
  The whole server on one request: the routes and the middleware in front, the handlers, the
  wired service behind. Its state is the store of the deduplication and the history of the
  exchanges with the network.
\<close>

type_synonym server_state = "service_store \<times> history"

record server_env =
  se_net :: network
  se_manager :: Manager
  se_call :: call_env
  se_random :: "string option"

text \<open>The service, as a step on the state of the server.\<close>

abbreviation chat_service ::
  "ServiceContext \<Rightarrow> server_env \<Rightarrow> string \<Rightarrow> ChatCompletionRequest \<Rightarrow> server_state \<Rightarrow> completion \<times> server_state"
where
  "chat_service ctx env \<equiv> \<lambda>requestID input (st, h).
     case context_Complete (se_net env) ctx (se_manager env) (se_call env) requestID input st h of
       (c, st, h) \<Rightarrow> (c, (st, h))"

definition handle ::
  "(string \<Rightarrow> 'd) \<Rightarrow> ServiceContext \<Rightarrow> server_env \<Rightarrow> ServerRequest \<Rightarrow> server_state \<Rightarrow> (written \<times> server_state) option"
where
  "handle sha256 ctx env r s =
    serve sha256 (APIKey (sctx_Config ctx)) (sctx_Service ctx)
      (Service_Ready (Some (Manager_Ready (se_manager env))))
      (chat_service ctx env)
      (se_random env) r s"

section \<open>What a request can do\<close>

lemma route_chat:
  "route_of m p = Some (protected, e) \<Longrightarrow>
    (e = ChatEndpoint \<longleftrightarrow> m = ''POST'' \<and> p = ''/v1/chat/completions'') \<and> (protected \<longleftrightarrow> e = ModelsEndpoint \<or> e = ChatEndpoint)"
  by (auto simp: route_of_def routes_def split: if_splits)

lemma route_ready: "route_of m p = Some (b, ReadyEndpoint) \<Longrightarrow> p = ''/readyz''"
  by (auto simp: route_of_def routes_def split: if_splits)

text \<open>A request that did something, or whose handler got as far as the service.\<close>

lemma handle_chat:
  assumes "handle sha256 ctx env r s = Some (w, s')" "s' \<noteq> s \<or> w = HandlerPanic"
  obtains input c where "sr_Method r = ''POST''" "sr_Path r = ''/v1/chat/completions''"
    "BearerAuth sha256 (APIKey (sctx_Config ctx)) (se_random env) r = None"
    "DecodeJSON dec_ChatCompletionRequest zero_request r maxChatRequestBytes = Inr input"
    "context_Complete (se_net env) ctx (se_manager env) (se_call env) (FromRequest (se_random env) r) input (fst s) (snd s)
      = (c, fst s', snd s')"
    "w = HandlerPanic \<Longrightarrow> c = Panic \<or> (\<exists>resp u. c = Completed (Inr resp) \<and> StreamEvents resp u = None)"
proof -
  obtain protected e where ro: "route_of (sr_Method r) (sr_Path r) = Some (protected, e)"
    using assms(1) by (auto simp: handle_def serve_def split: option.splits)
  note rc = route_chat [OF ro]
  have e: "e = ChatEndpoint" "BearerAuth sha256 (APIKey (sctx_Config ctx)) (se_random env) r = None"
    using assms ro rc by (auto simp: handle_def serve_def split: option.splits if_splits endpoint.splits)
  let ?C = "chat_service ctx env"
  have cc: "ChatCompletions ?C (se_random env) r s = (w, s')"
    using assms(1) ro e rc by (auto simp: handle_def serve_def split: if_splits)
  then obtain input where i: "DecodeJSON dec_ChatCompletionRequest zero_request r maxChatRequestBytes = Inr input"
    using assms(2) by (auto simp: ChatCompletions_def Let_def split: sum.splits)
  obtain c st' h' where c: "context_Complete (se_net env) ctx (se_manager env) (se_call env) (FromRequest (se_random env) r)
      input (fst s) (snd s) = (c, st', h')" by (metis prod_cases3)
  then have "?C (FromRequest (se_random env) r) input s = (c, (st', h'))" by (cases s) simp
  then have "s' = (st', h') \<and> (w = HandlerPanic \<longrightarrow> c = Panic \<or> (\<exists>resp u. c = Completed (Inr resp) \<and> StreamEvents resp u = None))"
    using cc i by (auto simp: ChatCompletions_def Let_def split: completion.splits sum.splits if_splits option.splits)
  then show ?thesis using that [of input c] rc e i c by simp
qed

lemma context_Complete_idle:
  assumes "context_Complete net ctx m env rid input st h = (c, st', h')" "(st', h') \<noteq> (st, h)"
  shows "Manager_Ready m \<and> req_Model input = sc_ModelID (sctx_Service ctx)"
proof -
  have "\<exists>i. prepare (sctx_Service ctx) (env\<lparr>ce_ready := Service_Ready (Some (Manager_Ready m))\<rparr>) input = Inr i"
    using assms by (auto simp: context_Complete_def Complete_def split: sum.splits)
  then show ?thesis using prepare_Inr(1,2) by (fastforce simp: Service_Ready_def)
qed

text \<open>
  C8. A request that makes the server do anything at all, send a message to the model or to the
  infrastructure service or remember something, is a POST to the chat endpoint that came with
  the configured token, while the model was ready, and whose body within the limit is one
  document that asks for the configured model.
\<close>

theorem only_authorized_requests_act:
  assumes "handle sha256 ctx env r s = Some (w, s')" "s' \<noteq> s"
  shows "sr_Method r = ''POST'' \<and> sr_Path r = ''/v1/chat/completions'' \<and> Manager_Ready (se_manager env) \<and>
    (\<exists>p. header_Values ''Authorization'' (sr_Header r) = [''Bearer '' @ p] \<and> p \<noteq> [] \<and>
       sha256 p = sha256 (APIKey (sctx_Config ctx))) \<and>
    int (length (sr_Body r)) \<le> 8388608 \<and> \<not> sr_BodyError r \<and>
    (\<exists>input rest. decode_next dec_ChatCompletionRequest zero_request (sr_Body r) = Decoded input rest \<and>
       list_all is_ws rest \<and> req_Model input = sc_ModelID (sctx_Service ctx))"
proof -
  obtain input c where a: "sr_Method r = ''POST''" "sr_Path r = ''/v1/chat/completions''"
    "BearerAuth sha256 (APIKey (sctx_Config ctx)) (se_random env) r = None"
    "DecodeJSON dec_ChatCompletionRequest zero_request r maxChatRequestBytes = Inr input"
    and c: "context_Complete (se_net env) ctx (se_manager env) (se_call env) (FromRequest (se_random env) r) input (fst s) (snd s)
      = (c, fst s', snd s')"
    using handle_chat [OF assms(1)] assms(2) by metis
  have "(fst s', snd s') \<noteq> (fst s, snd s)" using assms(2) by (cases s; cases s') auto
  note m = context_Complete_idle [OF c this]
  obtain rest where d: "decode_next dec_ChatCompletionRequest zero_request (sr_Body r) = Decoded input rest"
    "list_all is_ws rest" "int (length (sr_Body r)) \<le> 8388608" "\<not> sr_BodyError r"
    using a(4) unfolding DecodeJSON_Inr by (auto simp: maxChatRequestBytes_def)
  obtain p where p: "header_Values ''Authorization'' (sr_Header r) = [''Bearer '' @ p]" "p \<noteq> []"
    "sha256 p = sha256 (APIKey (sctx_Config ctx))"
    using a(3) unfolding BearerAuth_None by blast
  show ?thesis using a(1,2) m d p by blast
qed

text \<open>
  C1. Every change that the server sends was asked for by a request with the configured token,
  and the text of its last message, a user's, allows it: it names the VM and the action and
  nothing else, and the VM was just found in the state that the action requires.
\<close>

theorem changes_are_authorized_and_safe:
  assumes "handle sha256 ctx env r (st, h) = Some (w, st', h')" "wf_store st"
    and "set (ce_order1 (se_call env)) = set actions" "set (ce_order2 (se_call env)) = set actions"
    and "x \<in> set (changes (gc_endpoint (sctx_Model ctx)) (drop (length h) h'))"
  shows "\<exists>p input rest.
    header_Values ''Authorization'' (sr_Header r) = [''Bearer '' @ p] \<and> sha256 p = sha256 (APIKey (sctx_Config ctx)) \<and>
    decode_next dec_ChatCompletionRequest zero_request (sr_Body r) = Decoded input rest \<and>
    safe_change input (sc_AllowForceStop (sctx_Service ctx)) (ic_baseURL (sctx_Infra ctx)) (drop (length h) h') x"
proof -
  have "(st', h') \<noteq> (st, h)" using assms(5) by auto
  then obtain input c where a: "BearerAuth sha256 (APIKey (sctx_Config ctx)) (se_random env) r = None"
    "DecodeJSON dec_ChatCompletionRequest zero_request r maxChatRequestBytes = Inr input"
    and c: "context_Complete (se_net env) ctx (se_manager env) (se_call env) (FromRequest (se_random env) r) input st h
      = (c, st', h')"
    using handle_chat [OF assms(1)] by (metis fst_conv snd_conv)
  have "safe_change input (sc_AllowForceStop (sctx_Service ctx)) (ic_baseURL (sctx_Infra ctx)) (drop (length h) h') x"
    by (rule change_is_safe [OF assms(2) _ _ c [unfolded context_Complete_def] assms(5)]) (simp_all add: assms(3,4))
  then show ?thesis using a unfolding DecodeJSON_Inr BearerAuth_None by blast
qed

section \<open>Runs of the server\<close>

lemma answered_by_NewResponse:
  assumes "Complete select get mutate cfg env rid request st h = (Completed (Inr resp), st', h')"
  shows "\<exists>c s x w. resp = NewResponse (ce_random env) (ce_unix env) (sc_ModelID cfg) c s x w"
proof -
  obtain call ws h1 where "perform get mutate cfg env rid call ws st h1 = (Completed (Inr resp), st', h')"
    using assms by (auto simp: Complete_def split: sum.splits prod.splits)
  then show ?thesis
    by (auto simp: perform_def answer_def split: if_splits sum.splits prod.splits option.splits any_error.splits any_value.splits)
qed


text \<open>The requests of a run one after the other, with what is written for each.\<close>

fun handle_all ::
  "(string \<Rightarrow> 'd) \<Rightarrow> ServiceContext \<Rightarrow> (server_env \<times> ServerRequest) list \<Rightarrow> server_state \<Rightarrow> written option list"
where
  "handle_all sha256 ctx [] s = []"
| "handle_all sha256 ctx ((env, r) # rs) s =
    (case handle sha256 ctx env r s of
       None \<Rightarrow> None # handle_all sha256 ctx rs s
     | Some (w, s') \<Rightarrow> Some w # handle_all sha256 ctx rs s')"

lemma handle_ok:
  assumes "handle sha256 ctx env r s = Some (w, s')" "service_ok (fst s)"
  shows "service_ok (fst s') \<and> w \<noteq> HandlerPanic"
proof (cases "s' \<noteq> s \<or> w = HandlerPanic")
  case True
  from handle_chat [OF assms(1) True] obtain input c where
    c: "context_Complete (se_net env) ctx (se_manager env) (se_call env) (FromRequest (se_random env) r) input (fst s) (snd s)
      = (c, fst s', snd s')"
    and w: "w = HandlerPanic \<Longrightarrow> c = Panic \<or> (\<exists>resp u. c = Completed (Inr resp) \<and> StreamEvents resp u = None)" by metis
  note k = Complete_ok [OF assms(2) c [unfolded context_Complete_def]]
  have "StreamEvents resp u \<noteq> None" if "c = Completed (Inr resp)" for resp u
    using answered_by_NewResponse [OF c [unfolded context_Complete_def that]] StreamEvents_NewResponse by metis
  with k w show ?thesis by blast
qed (use assms in auto)


text \<open>
  C10. No request of any run panics, from whatever the server was started with: every request of
  a route gets an answer.
\<close>

theorem the_server_never_panics:
  "Some HandlerPanic \<notin> set (handle_all sha256 ctx rs (NewService (sctx_Service ctx), h))"
proof -
  have "service_ok (fst s) \<Longrightarrow> Some HandlerPanic \<notin> set (handle_all sha256 ctx rs s)" for s
  proof (induction sha256 ctx rs s rule: handle_all.induct)
    case (2 sha256 ctx env r rs s)
    then show ?case using handle_ok [of sha256 ctx env r s] by (auto split: option.splits)
  qed simp
  moreover have "service_ok (NewService (sctx_Service ctx))" by (rule service_ok_new)
  ultimately show ?thesis by simp
qed

section \<open>Status codes\<close>

lemma status_OpenAI [simp]: "HTTPStatus (OpenAI c m p n e) = n"
  by (simp add: OpenAI_def OpenAIKind_def Let_def)

lemma status_ExtractInput: "ExtractInput req n = Inl e \<Longrightarrow> HTTPStatus e = 400"
  by (auto simp: ExtractInput_def userMessageError_def Let_def split: if_splits option.splits)

lemma status_collect_ids: "collect_ids ms ids = Inl e \<Longrightarrow> HTTPStatus e = 422"
  by (induction ms ids rule: collect_ids.induct) (auto simp: safetyError_def Let_def split: if_splits option.splits)

lemma status_AnalyzeInput: "AnalyzeInput text = Inl e \<Longrightarrow> HTTPStatus e = 422"
  by (auto simp: AnalyzeInput_def Let_def andThen_Inl_iff safetyError_def complex_command_def
      dest: status_collect_ids split: if_splits sum.splits)

lemma status_prepare: "prepare cfg env request = Inl e \<Longrightarrow> HTTPStatus e \<in> {400, 404, 422, 503}"
  by (auto simp: prepare_def Let_def andThen_Inl_iff dest: status_ExtractInput status_AnalyzeInput split: if_splits)

lemma status_Select: "Select net c message tools h = (Inl e, h') \<Longrightarrow> HTTPStatus e \<in> {422, 502}"
  by (auto simp: Select_def read_answer_def one_call_def upstream_def Let_def
      split: option.splits prod.splits outcome.splits if_splits)

lemma status_ValidateToolCall: "ValidateToolCall o1 o2 input call allow = Inl e \<Longrightarrow> HTTPStatus e \<in> {403, 422}"
  by (auto simp: ValidateToolCall_def invalidCall_def Let_def split: if_splits option.splits)

lemma status_perform:
  "perform get mutate cfg env rid call ws st h = (Completed (Inl e), st', h') \<Longrightarrow> HTTPStatus e \<in> {502, 504}"
  by (auto simp: perform_def answer_def toAPIError_def Let_def split: if_splits sum.splits prod.splits option.splits
      any_error.splits any_value.splits)

lemma status_Complete:
  assumes "Complete (Select net gc) get mutate cfg env rid request st h = (Completed (Inl e), st', h')"
  shows "HTTPStatus e \<in> {400, 403, 404, 422, 502, 503, 504}"
proof (cases "prepare cfg env request")
  case (Inl f)
  then show ?thesis using assms status_prepare [OF Inl] by (auto simp: Complete_def)
next
  case (Inr input)
  note i = this
  obtain s h1 where s: "Select net gc (in_Original input) (GraniteTools (sc_AllowForceStop cfg)) h = (s, h1)"
    by (cases "Select net gc (in_Original input) (GraniteTools (sc_AllowForceStop cfg)) h")
  show ?thesis
  proof (cases s)
    case (Inl f)
    then show ?thesis using assms i s status_Select [of net gc] by (force simp: Complete_def)
  next
    case (Inr call)
    show ?thesis
    proof (cases "ValidateToolCall (ce_order1 env) (ce_order2 env) input call (sc_AllowForceStop cfg)")
      case (Inl f)
      then show ?thesis using assms i s Inr status_ValidateToolCall [OF Inl] by (auto simp: Complete_def)
    next
      case (Inr ac)
      then have "perform get mutate cfg env rid ac (in_Warnings input) st h1 = (Completed (Inl e), st', h')"
        using assms i s \<open>s = Inr call\<close> by (simp add: Complete_def)
      then show ?thesis using status_perform by fast
    qed
  qed
qed

lemma status_DecodeJSON: "DecodeJSON dec zero r n = Inl e \<Longrightarrow> HTTPStatus e = 400"
  by (auto simp: DecodeJSON_def InvalidRequest_def split: prod.splits decoded.splits next_value.splits if_splits)

lemma written_header:
  "(''X-Request-ID'', requestID) \<in> set (wr_Header (WriteJSON n requestID b))"
  "(''X-Request-ID'', requestID) \<in> set (wr_Header (WriteError requestID e))"
  "(''X-Request-ID'', requestID) \<in> set (wr_Header (stream_response requestID events))"
  "wr_Status (WriteJSON n requestID b) = n" "wr_Status (WriteError requestID e) = HTTPStatus e"
  "wr_Status (stream_response requestID events) = 200"
  by (simp_all add: WriteError_def WriteJSON_def stream_response_def)

lemma chat_written:
  assumes "ChatCompletions complete random r s = (Written resp, s')"
    and "\<And>rid input e u. complete rid input s = (Completed (Inl e), u) \<Longrightarrow> HTTPStatus e \<in> {400, 403, 404, 422, 502, 503, 504}"
  shows "(''X-Request-ID'', FromRequest random r) \<in> set (wr_Header resp) \<and>
    wr_Status resp \<in> {200, 400, 403, 404, 422, 502, 503, 504} \<and>
    (wr_Status resp = 200 \<or> (\<exists>e. resp = WriteError (FromRequest random r) e))"
proof (cases "DecodeJSON dec_ChatCompletionRequest zero_request r maxChatRequestBytes")
  case (Inl e)
  then show ?thesis using assms(1) status_DecodeJSON [OF Inl] by (auto simp: ChatCompletions_def Let_def written_header)
next
  case (Inr input)
  obtain c u where c: "complete (FromRequest random r) input s = (c, u)" by (cases "complete (FromRequest random r) input s")
  show ?thesis
    using assms(1) Inr c assms(2) [of "FromRequest random r" input]
    by (auto simp: ChatCompletions_def Let_def written_header split: completion.splits sum.splits if_splits option.splits)
qed

lemma status_chat_service:
  assumes "chat_service ctx env rid input s = (Completed (Inl e), u)"
  shows "HTTPStatus e \<in> {400, 403, 404, 422, 502, 503, 504}"
proof -
  obtain st h where "context_Complete (se_net env) ctx (se_manager env) (se_call env) rid input (fst s) (snd s) =
      (Completed (Inl e), st, h)"
    using assms by (cases s; cases u) (auto split: prod.splits)
  then show ?thesis unfolding context_Complete_def by (rule status_Complete)
qed

lemma rejected_response:
  "BearerAuth sha256 key random r = Some resp \<Longrightarrow> resp = WriteError (FromRequest random r) unauthorized"
  by (auto simp: BearerAuth_def Let_def split: if_splits)

lemma handled_cases:
  assumes "handle sha256 ctx env r s = Some (Written resp, s')"
  obtains (rejected) "resp = WriteError (FromRequest (se_random env) r) unauthorized"
    | (chat) "ChatCompletions (chat_service ctx env) (se_random env) r s = (Written resp, s')"
    | (health) "resp = Health (se_random env) r"
    | (models) "resp = Models (sctx_Service ctx) (se_random env) r"
    | (ready) "resp = Ready (Service_Ready (Some (Manager_Ready (se_manager env)))) (se_random env) r" "sr_Path r = ''/readyz''"
proof -
  obtain protected e where ro: "route_of (sr_Method r) (sr_Path r) = Some (protected, e)"
    using assms by (auto simp: handle_def serve_def split: option.splits)
  show ?thesis
  proof (cases "if protected then BearerAuth sha256 (APIKey (sctx_Config ctx)) (se_random env) r else None")
    case (Some x)
    then have "resp = x" "BearerAuth sha256 (APIKey (sctx_Config ctx)) (se_random env) r = Some x"
      using assms ro by (auto simp: handle_def serve_def split: if_splits)
    then show ?thesis using rejected_response rejected by blast
  next
    case None
    then show ?thesis
      using assms ro route_ready chat health models ready by (cases e) (auto simp: handle_def serve_def)
  qed
qed

text \<open>
  C36. Every response carries the identifier of its request in a header, which is safe to write
  there; its status is one of nine; and a failure has the body of an error and nothing else,
  except that of the readiness check, a 503 with a body of its own.
\<close>

theorem responses_are_well_formed:
  assumes "handle sha256 ctx env r s = Some (Written resp, s')"
    and "\<And>buf. se_random env = Some buf \<Longrightarrow> length buf = 16"
  shows "(''X-Request-ID'', FromRequest (se_random env) r) \<in> set (wr_Header resp) \<and>
    Valid (FromRequest (se_random env) r) \<and>
    wr_Status resp \<in> {200, 400, 401, 403, 404, 422, 502, 503, 504} \<and>
    (wr_Status resp = 200 \<or> sr_Path r = ''/readyz'' \<and> wr_Status resp = 503 \<or>
      (\<exists>e. resp = WriteError (FromRequest (se_random env) r) e))"
proof -
  have v: "Valid (FromRequest (se_random env) r)" using FromRequest_safe [OF assms(2), where r = r] by simp
  show ?thesis
    using assms(1)
  proof (cases rule: handled_cases)
    case rejected
    moreover have "HTTPStatus unauthorized = 401" by (simp add: unauthorized_def OpenAIKind_def)
    ultimately show ?thesis using v by (auto simp: written_header)
  next
    case chat
    have "(''X-Request-ID'', FromRequest (se_random env) r) \<in> set (wr_Header resp) \<and>
      wr_Status resp \<in> {200, 400, 403, 404, 422, 502, 503, 504} \<and>
      (wr_Status resp = 200 \<or> (\<exists>e. resp = WriteError (FromRequest (se_random env) r) e))"
      by (rule chat_written [OF chat]) (rule status_chat_service)
    with v show ?thesis by auto
  next
    case health
    then show ?thesis using v by (simp add: Health_def written_header)
  next
    case models
    then show ?thesis using v by (simp add: Models_def Let_def written_header)
  next
    case ready
    then show ?thesis using v by (simp add: Ready_def Let_def written_header)
  qed
qed

section \<open>A concrete request\<close>

text \<open>The concrete service of the theory ServiceRun, asked over HTTP.\<close>

definition sample_context :: ServiceContext where
  "sample_context = \<lparr>sctx_Config = loaded_sample, sctx_Model = sample_client, sctx_Infra = sample_infra,
     sctx_Service = sample_cfg, sctx_Store = NewService sample_cfg\<rparr>"

definition sample_server_env :: server_env where
  "sample_server_env = \<lparr>se_net = sample_world, se_manager = sample_manager\<lparr>m_ready := True\<rparr>,
     se_call = sample_env 0, se_random = Some ''abcdefghijklmnop''\<rparr>"

definition chat_body :: string where
  "chat_body = enc_object [(''model'', enc_string ''granite-4.0-350m''), (''messages'', enc_array [enc_object
     [(''role'', enc_string ''user''), (''content'', enc_string (utf8 [0x542F, 0x52A8] @ '' VM 3052''))]])]"

definition chat_request :: ServerRequest where
  "chat_request = \<lparr>sr_Method = ''POST'', sr_Path = ''/v1/chat/completions'',
     sr_Header = [(''Authorization'', ''Bearer key''), (''X-Request-ID'', ''id'')], sr_Body = chat_body,
     sr_BodyError = False, sr_ContentLength = int (length chat_body)\<rparr>"

lemma chat_body_decoded:
  "DecodeJSON dec_ChatCompletionRequest zero_request chat_request maxChatRequestBytes = Inr sample_request"
  by code_simp

lemma sample_key_loaded: "APIKey loaded_sample = ''key''"
proof -
  have "APIKey loaded_sample = Getenv sample_environment ''GRANITE_API_KEY''"
    using loaded_sample(1) unfolding Load_Inr by (elim exE conjE)
  then show ?thesis by (simp add: Getenv_def sample_environment_def)
qed

lemma chat_handled:
  assumes "sample_Complete (sample_env 0) st h = (c, st', h')"
  shows "\<exists>w. handle (\<lambda>t. t) sample_context sample_server_env chat_request (st, h) = Some (w, st', h') \<and>
    (\<forall>resp. c = Completed (Inr resp) \<longrightarrow> w = Written (WriteJSON 200 ''id'' (enc_response resp)))"
proof -
  have i: "FromRequest (Some ''abcdefghijklmnop'') chat_request = ''id''" by code_simp
  have au: "BearerAuth (\<lambda>t. t) ''key'' (Some ''abcdefghijklmnop'') chat_request = None" by code_simp
  have "(sample_env 0)\<lparr>ce_ready := True\<rparr> = sample_env 0" by (simp add: sample_env_def)
  then have c: "context_Complete sample_world sample_context (sample_manager\<lparr>m_ready := True\<rparr>) (sample_env 0) ''id'' sample_request st h =
      (c, st', h')"
    using assms by (simp add: context_Complete_def sample_context_def sample_Complete_def Service_Ready_def Manager_Ready_def)
  have "route_of (sr_Method chat_request) (sr_Path chat_request) = Some (True, ChatEndpoint)"
    by (simp add: chat_request_def route_of_def routes_def)
  then have "handle (\<lambda>t. t) sample_context sample_server_env chat_request (st, h) =
    Some (ChatCompletions (\<lambda>requestID input (st, h).
         case context_Complete sample_world sample_context (sample_manager\<lparr>m_ready := True\<rparr>) (sample_env 0) requestID input st h of
           (c, st, h) \<Rightarrow> (c, (st, h))) (Some ''abcdefghijklmnop'') chat_request (st, h))"
    using au by (simp add: handle_def serve_def sample_server_env_def sample_context_def sample_key_loaded)
  moreover have "\<not> req_Stream sample_request" by (simp add: sample_request_def zero_request_def)
  ultimately show ?thesis
    using c chat_body_decoded by (auto simp: ChatCompletions_def Let_def i split: completion.splits sum.splits option.splits)
qed

lemma sample_request_handled:
  obtains w st' h' x resp where "handle (\<lambda>t. t) sample_context sample_server_env chat_request (NewService sample_cfg, []) =
      Some (w, st', h')" "x \<in> set (changes (gc_endpoint sample_client) h')" "h' \<noteq> []"
    "w = Written (WriteJSON 200 ''id'' (enc_response resp))"
proof -
  obtain c st' h' where s: "sample_Complete (sample_env 0) (NewService sample_cfg) [] = (c, st', h')"
    by (cases "sample_Complete (sample_env 0) (NewService sample_cfg) []")
  obtain new0 c0 new1 c1 new2 c2 x y where
    r: "sample_run = [(sample_env 0, new0, c0), (sample_env 10000000000, new1, c1), (sample_env 40000000000, new2, c2)]"
    and x: "changes (gc_endpoint sample_client) new0 = [x]" and f: "executed_flags c0 = Some (True, False)"
    by (rule sample_run_nth)
  have "(sample_env 0, new0, c0) = (sample_env 0, h', c)"
    using sample_run_first [OF s] unfolding r list.sel .
  then have e: "new0 = h'" "executed_flags c = Some (True, False)" using f by simp_all
  then obtain resp where "c = Completed (Inr resp)"
    by (auto simp: executed_flags_def split: completion.splits sum.splits)
  moreover have "x \<in> set (changes (gc_endpoint sample_client) h')" "h' \<noteq> []" using x e by auto
  ultimately show ?thesis using chat_handled [OF s] that by blast
qed

theorem only_authorized_requests_act_witness:
  "\<exists>w s'. handle (\<lambda>t. t) sample_context sample_server_env chat_request (NewService sample_cfg, []) = Some (w, s') \<and>
    s' \<noteq> (NewService sample_cfg, []) \<and> Manager_Ready (se_manager sample_server_env)"
proof -
  obtain w st' h' where w: "handle (\<lambda>t. t) sample_context sample_server_env chat_request (NewService sample_cfg, []) =
      Some (w, st', h')" "h' \<noteq> []" by (rule sample_request_handled)
  then have "(st', h') \<noteq> (NewService sample_cfg, [])" by simp
  from only_authorized_requests_act [OF w(1) this] w(1) this show ?thesis by blast
qed

theorem changes_are_authorized_and_safe_witness:
  "\<exists>w st' h' x p. handle (\<lambda>t. t) sample_context sample_server_env chat_request (NewService sample_cfg, []) = Some (w, st', h') \<and>
    x \<in> set (changes (gc_endpoint sample_client) h') \<and>
    header_Values ''Authorization'' (sr_Header chat_request) = [''Bearer '' @ p]"
proof -
  obtain w st' h' x where w: "handle (\<lambda>t. t) sample_context sample_server_env chat_request (NewService sample_cfg, []) =
      Some (w, st', h')" "x \<in> set (changes (gc_endpoint sample_client) h')" by (rule sample_request_handled)
  have o: "set (ce_order1 (se_call sample_server_env)) = set actions" "set (ce_order2 (se_call sample_server_env)) = set actions"
    by (simp_all add: sample_server_env_def sample_orders)
  have "x \<in> set (changes (gc_endpoint (sctx_Model sample_context)) (drop (length []) h'))"
    using w(2) by (simp add: sample_context_def)
  from changes_are_authorized_and_safe [OF w(1) sample_wf o this] w show ?thesis by blast
qed

theorem responses_are_well_formed_witness:
  "\<exists>resp s'. handle (\<lambda>t. t) sample_context sample_server_env chat_request (NewService sample_cfg, []) = Some (Written resp, s') \<and>
    (''X-Request-ID'', FromRequest (se_random sample_server_env) chat_request) \<in> set (wr_Header resp)"
proof -
  obtain w st' h' resp where w: "handle (\<lambda>t. t) sample_context sample_server_env chat_request (NewService sample_cfg, []) =
      Some (w, st', h')" "w = Written (WriteJSON 200 ''id'' (enc_response resp))" by (rule sample_request_handled)
  have "\<And>buf. se_random sample_server_env = Some buf \<Longrightarrow> length buf = 16" by (auto simp: sample_server_env_def)
  from responses_are_well_formed [OF w(1) [unfolded w(2)] this] w show ?thesis by blast
qed

section \<open>What the clients read\<close>

text \<open>
  C35. Every body that the server writes is one JSON document, or a sequence of events of which
  each is one JSON document on a line of its own, with the end mark as the last; whatever texts
  the user, the model, the infrastructure service or the configuration bring in.
\<close>

theorem every_body_is_json:
  assumes "handle sha256 ctx env r s = Some (Written resp, s')"
  shows "whole_json (wr_Body resp) \<noteq> None \<or>
    (\<exists>events. wr_Body resp = concat (map event_text (events @ [''[DONE]''])) \<and>
       (\<forall>e \<in> set events. CHR 0x0A \<notin> set e \<and> whole_json e \<noteq> None))"
  using good_serve [OF assms [unfolded handle_def]] unfolding good_body_def .

theorem every_body_is_json_witness:
  "\<exists>resp s'. handle (\<lambda>t. t) sample_context sample_server_env chat_request (NewService sample_cfg, []) = Some (Written resp, s') \<and>
    (whole_json (wr_Body resp) \<noteq> None \<or> (\<exists>events. wr_Body resp = concat (map event_text (events @ [''[DONE]'']))))"
proof -
  obtain w st' h' resp where w: "handle (\<lambda>t. t) sample_context sample_server_env chat_request (NewService sample_cfg, []) =
      Some (w, st', h')" "w = Written (WriteJSON 200 ''id'' (enc_response resp))" by (rule sample_request_handled)
  from every_body_is_json [OF w(1) [unfolded w(2)]] w show ?thesis by blast
qed

end
