(* ===== verification/DedupSpec.thy ===== *)
theory DedupSpec
  imports Dedup
begin

text \<open>
  The store of \<open>internal/dedup/store.go\<close> against an abstract specification without addresses,
  entries and channels: a table of keys, and calls that get the result of a run for their key at
  the moment when it ends. The step relation of the goroutines and that of the specification
  simulate each other.
\<close>

section \<open>The specification\<close>

datatype ('v, 'e) call =
    Outside
  | Performing string
  | Following string "('v option \<times> 'e option) option"
  | Got string "('v, 'e) DoResult"

record ('v, 'e) spec =
  table :: "string \<Rightarrow> ('v, 'e) slot"
  calls :: "nat \<Rightarrow> ('v, 'e) call"
  now :: time

definition outcome_slot :: "'v option \<Rightarrow> CachePolicy \<Rightarrow> 'e option \<Rightarrow> time \<Rightarrow> ('v, 'e) slot" where
  "outcome_slot v p e t = (case p of Cache \<Rightarrow> Held v e t | DoNotCache \<Rightarrow> Free)"

text \<open>The end of a run reaches all calls that follow it at once.\<close>

definition deliver :: "nat \<Rightarrow> string \<Rightarrow> 'v option \<Rightarrow> 'e option \<Rightarrow> (nat \<Rightarrow> ('v, 'e) call) \<Rightarrow> nat \<Rightarrow> ('v, 'e) call" where
  "deliver i k v e cs j =
    (if j = i then Got k (ran v e)
     else if cs j = Following k None then Following k (Some (v, e))
     else cs j)"

inductive spec_step :: "int \<Rightarrow> ('v, 'e) spec \<Rightarrow> ('v, 'e) spec \<Rightarrow> bool" for w where
  pass: "now x \<le> t \<Longrightarrow> spec_step w x (x\<lparr>now := t\<rparr>)"
| join: "calls x i = Outside \<Longrightarrow> table x k = Pending \<Longrightarrow>
    spec_step w x (x\<lparr>calls := (calls x)(i := Following k None)\<rparr>)"
| reuse: "calls x i = Outside \<Longrightarrow> table x k = Held v e t \<Longrightarrow> now x < t \<Longrightarrow>
    spec_step w x (x\<lparr>calls := (calls x)(i := Following k (Some (v, e)))\<rparr>)"
| perform: "calls x i = Outside \<Longrightarrow> \<not> blocks (table x k) (now x) \<Longrightarrow>
    spec_step w x (x\<lparr>table := (table x)(k := Pending), calls := (calls x)(i := Performing k)\<rparr>)"
| conclude: "calls x i = Performing k \<Longrightarrow>
    spec_step w x (x\<lparr>table := (table x)(k := outcome_slot v p e (now x + w)), calls := deliver i k v e (calls x)\<rparr>)"
| collect: "calls x i = Following k (Some (v, e)) \<Longrightarrow>
    spec_step w x (x\<lparr>calls := (calls x)(i := Got k \<lparr>Value = v, Err = e, Deduplicated = True\<rparr>)\<rparr>)"
| leave: "calls x i = Following k r \<Longrightarrow> spec_step w x (x\<lparr>calls := (calls x)(i := Got k (canceled c))\<rparr>)"
| repeat: "calls x i = Got k r \<Longrightarrow> spec_step w x (x\<lparr>calls := (calls x)(i := Outside)\<rparr>)"

section \<open>The abstraction\<close>

definition known_result :: "('v, 'e) entry \<Rightarrow> ('v option \<times> 'e option) option" where
  "known_result en = (if e_done en then Some (e_value en, e_err en) else None)"

definition call_of :: "('v, 'e) Store \<Rightarrow> ('v, 'e) thread \<Rightarrow> ('v, 'e) call" where
  "call_of st th =
    (case th of
       Idle \<Rightarrow> Outside
     | Running k a \<Rightarrow> Performing k
     | Waiting k a \<Rightarrow> Following k (known_result (heap st ! a))
     | Returned k r \<Rightarrow> Got k r)"

lemma call_of_simps [simp]:
  "call_of st Idle = Outside" "call_of st (Running k a) = Performing k"
  "call_of st (Waiting k a) = Following k (known_result (heap st ! a))"
  "call_of st (Returned k r) = Got k r"
  by (simp_all add: call_of_def)

lemma call_of_iff [simp]:
  "call_of st th = Outside \<longleftrightarrow> th = Idle"
  "call_of st th = Performing k \<longleftrightarrow> (\<exists>a. th = Running k a)"
  "call_of st th = Following k r \<longleftrightarrow> (\<exists>a. th = Waiting k a \<and> known_result (heap st ! a) = r)"
  "call_of st th = Got k q \<longleftrightarrow> th = Returned k q"
  by (cases th; auto)+

definition spec_of :: "('v, 'e) system \<Rightarrow> ('v, 'e) spec" where
  "spec_of s = \<lparr>table = slot_of (store s), calls = \<lambda>i. call_of (store s) (threads s i), now = clock s\<rparr>"

lemma spec_of_simps [simp]:
  "table (spec_of s) = slot_of (store s)" "calls (spec_of s) i = call_of (store s) (threads s i)"
  "now (spec_of s) = clock s"
  by (simp_all add: spec_of_def)

lemma spec_of_thread:
  "spec_of (s\<lparr>threads := (threads s)(i := th)\<rparr>) = (spec_of s)\<lparr>calls := (calls (spec_of s))(i := call_of (store s) th)\<rparr>"
  by (simp add: spec_of_def fun_eq_iff)

lemma spec_of_tick: "spec_of (s\<lparr>clock := t\<rparr>) = (spec_of s)\<lparr>now := t\<rparr>"
  by (simp add: spec_of_def)

text \<open>A waiting call is not concerned by a new entry; by the end of a run it is when it follows it.\<close>

lemma spec_of_enter_run:
  assumes "runs_ok s" "threads s i = Idle" "enter k (clock s) (store s) = (Run a, st)"
  shows "spec_of (s\<lparr>store := st, threads := (threads s)(i := Running k a), log := x\<rparr>) =
    (spec_of s)\<lparr>table := (table (spec_of s))(k := Pending), calls := (calls (spec_of s))(i := Performing k)\<rparr>"
proof -
  have "call_of st (threads s j) = call_of (store s) (threads s j)" for j
    using waiting_ok [OF assms(1), of j] enter_run_heap [OF assms(3)]
    by (cases "threads s j") (auto simp: nth_append)
  then show ?thesis
    using enter_slots [OF runs_ok_wf [OF assms(1)] assms(3)] by (simp add: spec_of_def fun_eq_iff)
qed

lemma spec_of_finish:
  assumes ok: "runs_ok s" and run: "threads s i = Running k a"
  shows "spec_of (s\<lparr>store := finish k a v p e (clock s) (store s),
      threads := (threads s)(i := Returned k (ran v e)), log := x\<rparr>) =
    (spec_of s)\<lparr>table := (table (spec_of s))(k := outcome_slot v p e (clock s + window (store s))),
      calls := deliver i k v e (calls (spec_of s))\<rparr>"
proof -
  note ra = running_entry [OF ok run]
  note h = finish_heap [OF ra(4)]
  let ?st = "finish k a v p e (clock s) (store s)"
  have "call_of ?st (threads s j) = deliver i k v e (calls (spec_of s)) j" if j: "j \<noteq> i" for j
  proof (cases "threads s j")
    case (Waiting l b)
    show ?thesis
    proof (cases "b = a")
      case True
      then have "l = k"
        using waiting_ok [OF ok Waiting] ra(3) running_unique [OF ok run] run by fastforce
      then show ?thesis using True Waiting j ra(3) by (simp add: deliver_def known_result_def h)
    next
      case False
      have "e_done (heap (store s) ! b)" if lk: "l = k"
      proof (rule ccontr)
        assume "\<not> e_done (heap (store s) ! b)"
        then obtain j' where "threads s j' = Running k b" using waiting_ok [OF ok Waiting] lk by blast
        then show False using running_key [OF ok run] run False by fastforce
      qed
      then show ?thesis using False Waiting j by (auto simp: deliver_def known_result_def h)
    qed
  qed (use j in \<open>simp_all add: deliver_def\<close>)
  then show ?thesis
    using finish_slots [OF runs_ok_wf [OF ok] ra(1)]
    by (auto simp: spec_of_def fun_eq_iff outcome_slot_def deliver_def)
qed

section \<open>The two simulations\<close>

lemma waits_iff:
  assumes "runs_ok s"
  shows "enter k (clock s) (store s) = (Wait a, st) \<longleftrightarrow>
    st = store s \<and> entries (store s) k = Some a \<and>
    (slot_of (store s) k = Pending \<and> known_result (heap (store s) ! a) = None \<or>
     (\<exists>v e t. slot_of (store s) k = Held v e t \<and> clock s < t \<and> known_result (heap (store s) ! a) = Some (v, e)))"
proof (cases "entries (store s) k")
  case (Some b)
  then show ?thesis using wf_expires [OF runs_ok_wf [OF assms] Some]
    by (auto simp: enter_Wait slot_of_def blocks_def known_result_def split: option.splits)
qed (simp add: enter_Wait)

lemma spec_simulates:
  assumes "step s s'" "runs_ok s"
  shows "spec_step (window (store s)) (spec_of s) (spec_of s')"
  using assms
proof (induction rule: step.induct)
  case (tick s t)
  then show ?case by (simp only: spec_of_tick) (rule spec_step.pass, simp)
next
  case (enter_wait s i k a st)
  have st: "st = store s" using enter_wait by (simp add: enter_Wait)
  have c: "calls (spec_of s) i = Outside" using enter_wait by simp
  from enter_wait(2) consider
      "slot_of (store s) k = Pending" "known_result (heap (store s) ! a) = None"
    | v e t where "slot_of (store s) k = Held v e t" "clock s < t" "known_result (heap (store s) ! a) = Some (v, e)"
    using waits_iff [OF enter_wait(3)] by metis
  then show ?case
  proof cases
    case 1
    then show ?thesis using spec_step.join [OF c, of k "window (store s)"] spec_of_thread [of s i "Waiting k a"]
      by (simp add: st)
  next
    case (2 v e t)
    then show ?thesis using spec_step.reuse [OF c, of k v e t "window (store s)"] spec_of_thread [of s i "Waiting k a"]
      by (simp add: st)
  qed
next
  case (enter_run s i k a st)
  then show ?case
    by (simp only: spec_of_enter_run) (rule spec_step.perform, simp_all add: enter_Run)
next
  case (finish s i k a v p e)
  then show ?case
    using spec_step.conclude [of "spec_of s" i k "window (store s)" v e p] spec_of_finish [OF finish(2,1)] by simp
next
  case (wake s i k a)
  then show ?case
    using spec_step.collect [of "spec_of s" i k "e_value (heap (store s) ! a)" "e_err (heap (store s) ! a)" "window (store s)"]
    by (simp add: spec_of_thread known_result_def waited_def)
next
  case (cancel s i k a c)
  then show ?case
    using spec_step.leave [of "spec_of s" i k "known_result (heap (store s) ! a)" "window (store s)" c] by (simp add: spec_of_thread)
next
  case (again s i k r)
  then show ?case
    using spec_step.repeat [of "spec_of s" i k r "window (store s)"] by (simp add: spec_of_thread)
qed

text \<open>And every step of the specification is one of the goroutines.\<close>

lemma spec_simulated:
  assumes "spec_step (window (store s)) (spec_of s) x" "runs_ok s"
  shows "\<exists>s'. step s s' \<and> spec_of s' = x"
  using assms(1)
proof cases
  case (pass t)
  then show ?thesis using step.tick [of s t] spec_of_tick [of t s] by auto
next
  case (join i k)
  then have p: "slot_of (store s) k = Pending" and i: "threads s i = Idle" by simp_all
  then obtain a where a: "entries (store s) k = Some a" by (auto simp: slot_of_def split: option.splits)
  then have "e_expires (heap (store s) ! a) = None" using p by (auto simp: slot_of_def split: option.splits)
  then have e: "enter k (clock s) (store s) = (Wait a, store s)" "known_result (heap (store s) ! a) = None"
    using a p wf_expires [OF runs_ok_wf [OF assms(2)] a] by (simp_all add: enter_Wait blocks_def known_result_def)
  show ?thesis using step.enter_wait [OF i e(1)] spec_of_thread [of s i "Waiting k a"] e(2) join(1) by auto
next
  case (reuse i k v e t)
  then have p: "slot_of (store s) k = Held v e t" and i: "threads s i = Idle" by simp_all
  then obtain a where a: "entries (store s) k = Some a" by (auto simp: slot_of_def split: option.splits)
  then have x: "e_expires (heap (store s) ! a) = Some t" "e_value (heap (store s) ! a) = v" "e_err (heap (store s) ! a) = e"
    using p by (auto simp: slot_of_def split: option.splits)
  have e: "enter k (clock s) (store s) = (Wait a, store s)" "known_result (heap (store s) ! a) = Some (v, e)"
    using a p x reuse wf_expires [OF runs_ok_wf [OF assms(2)] a] by (simp_all add: enter_Wait blocks_def known_result_def)
  show ?thesis using step.enter_wait [OF i e(1)] spec_of_thread [of s i "Waiting k a"] e(2) reuse(1) by auto
next
  case (perform i k)
  then have i: "threads s i = Idle" and e: "enter k (clock s) (store s) =
      (Run (length (heap (store s))), (store s)\<lparr>heap := heap (store s) @ [new_entry],
        entries := (entries (store s))(k \<mapsto> length (heap (store s)))\<rparr>)"
    by (simp_all add: enter_Run)
  show ?thesis
    using step.enter_run [OF i e] spec_of_enter_run [OF assms(2) i e] perform(1) by blast
next
  case (conclude i k v p e)
  then obtain a where a: "threads s i = Running k a" by auto
  show ?thesis using step.finish [OF a] spec_of_finish [OF assms(2) a] conclude(1) by (metis spec_of_simps(3))
next
  case (collect i k v e)
  then obtain a where a: "threads s i = Waiting k a" "known_result (heap (store s) ! a) = Some (v, e)" by auto
  then have d: "e_done (heap (store s) ! a)" "e_value (heap (store s) ! a) = v" "e_err (heap (store s) ! a) = e"
    by (auto simp: known_result_def split: if_splits)
  show ?thesis using step.wake [OF a(1) d(1)] spec_of_thread [of s i] d collect(1) by (auto simp: waited_def)
next
  case (leave i k r c)
  then obtain a where a: "threads s i = Waiting k a" by auto
  show ?thesis using step.cancel [OF a, of c] spec_of_thread [of s i] leave(1) by auto
next
  case (repeat i k r)
  then have a: "threads s i = Returned k r" by simp
  show ?thesis using step.again [OF a] spec_of_thread [of s i] repeat(1) by auto
qed

section \<open>The store refines its specification\<close>

text \<open>
  C11. The store with its entries, addresses and channels, used by any number of goroutines, does
  exactly what the abstract table promises: each key is free, being run, or holds a result until
  a time, and the end of a run reaches at once all the calls that follow it. Every step of the
  goroutines is one of the specification, and every step of the specification can be taken.
\<close>

theorem store_refines_table:
  assumes "reachable w s"
  shows "(\<forall>s'. step s s' \<longrightarrow> spec_step w (spec_of s) (spec_of s')) \<and>
    (\<forall>x. spec_step w (spec_of s) x \<longrightarrow> (\<exists>s'. step s s' \<and> spec_of s' = x))"
  using reachable_runs_ok [OF assms] spec_simulates spec_simulated by blast

theorem store_refines_table_witness:
  "reachable 30 sharing \<and> calls (spec_of sharing) 1 = Following ''k'' None \<and>
   (\<exists>s'. step sharing s' \<and> calls (spec_of s') 1 = Following ''k'' (Some (Some 7, None)) \<and>
      table (spec_of s') ''k'' = Held (Some 7) None 35)"
proof -
  have c: "calls (spec_of sharing) 0 = Performing ''k''" "calls (spec_of sharing) 1 = Following ''k'' None"
    "now (spec_of sharing) = 5"
    using sharing_threads by (simp_all add: sharing_def initial_def new_store_def enter_def new_entry_def known_result_def)
  show ?thesis
    using conjunct2 [OF store_refines_table [OF sharing_reachable]]
      spec_step.conclude [OF c(1), of 30 "Some 7" None Cache] sharing_reachable c(2,3)
    by (fastforce simp: deliver_def outcome_slot_def)
qed

end
