(* ===== verification/Concurrent.thy ===== *)
theory Concurrent
  imports ServiceRun
begin

text \<open>
  \<open>internal/managed/service.go\<close> with many requests at once: goroutines that have validated a
  change go through \<open>internal/dedup/store.go\<close>, and the function that runs there is cut at its
  exchanges with the infrastructure service, where other goroutines and the clock go on. The
  outcome of every exchange is open: each one has a network of its own.
\<close>

section \<open>The function in pieces\<close>

type_synonym run_result = "any_value option \<times> CachePolicy \<times> any_error option"

text \<open>
  A run is before its query, before its change, waiting for the reply to the change (which is
  fixed when it is sent, but not known before it comes), or before its end.
\<close>

datatype stage = Asking | Deciding | Replying run_result | Leaving run_result

fun after_query :: "ActionCall \<Rightarrow> infra_error + VM \<Rightarrow> stage" where
  "after_query call (Inl up) = Leaving (Some (AnError up), DoNotCache, Some (Upstream up))"
| "after_query call (Inr vm) =
    (let decision = CheckState (ac_Action call) (Status vm) (ac_VMID call) in
     if \<not> Execute decision
     then Leaving (Some (AnExecution \<lparr>ex_Message = decision_Message decision, ex_VM = Some vm,
            ex_Result = zero_Result, ex_Executed = False\<rparr>), Cache, None)
     else Deciding)"

fun after_change :: "ActionCall \<Rightarrow> infra_error + Result \<Rightarrow> run_result" where
  "after_change call (Inl up) = (Some (AnError up), if Unknown up then Cache else DoNotCache, Some (Upstream up))"
| "after_change call (Inr accepted) =
    (Some (AnExecution \<lparr>ex_Message = Submitted (ac_Action call) (ac_VMID call), ex_VM = None,
       ex_Result = accepted, ex_Executed = True\<rparr>), Cache, None)"

text \<open>With nothing in between, the pieces are the function.\<close>

lemma run_action_pieces:
  "run_action get mutate rid call h =
    (case get rid (ac_VMID call) h of
       (r, h) \<Rightarrow>
         (case after_query call r of
            Leaving x \<Rightarrow> (x, h)
          | _ \<Rightarrow> (case mutate rid (ac_Action call) (ac_VMID call) h of (q, h) \<Rightarrow> (after_change call q, h))))"
  by (auto simp: run_action_def Let_def split: prod.splits sum.splits)

section \<open>The crowd\<close>

text \<open>
  The events, the newest first: the query of a run, its change, and the reply to that. The run is
  named by the address of its entry in the store.
\<close>

datatype crowd_event = Asked addr exchange time | Sent addr exchange time | Replied addr time

record job =
  job_rid :: string
  job_call :: ActionCall
  job_stage :: stage

record crowd =
  dd :: "(any_value, any_error) system"
  jobs :: "nat \<Rightarrow> job"
  hist :: history
  seen :: "crowd_event list"

datatype crowd_move =
    Quiet "(any_value, any_error) move"
  | Arrive nat string ActionCall
  | Query nat network
  | Change nat network
  | Reply nat
  | Conclude nat

text \<open>The moves of the store that no run has to do with; a context ends with the context's error.\<close>

fun quiet :: "(any_value, any_error) move \<Rightarrow> bool" where
  "quiet (Tick t) = True"
| "quiet (Wake i) = True"
| "quiet (Again i) = True"
| "quiet (Cancel i c) = (case c of Ended e \<Rightarrow> True | _ \<Rightarrow> False)"
| "quiet _ = False"

definition run_at :: "crowd \<Rightarrow> nat \<Rightarrow> (addr \<times> string \<times> ActionCall \<times> stage) option" where
  "run_at w i =
    (case threads (dd w) i of
       Running k a \<Rightarrow> Some (a, job_rid (jobs w i), job_call (jobs w i), job_stage (jobs w i))
     | _ \<Rightarrow> None)"

definition to_stage :: "nat \<Rightarrow> stage \<Rightarrow> crowd \<Rightarrow> crowd" where
  "to_stage i g w = w\<lparr>jobs := (jobs w)(i := (jobs w i)\<lparr>job_stage := g\<rparr>)\<rparr>"

fun advance :: "InfraClient \<Rightarrow> crowd_move \<Rightarrow> crowd \<Rightarrow> crowd option" where
  "advance ic (Quiet m) w =
    (if quiet m then map_option (\<lambda>s. w\<lparr>dd := s\<rparr>) (play m (dd w)) else None)"
| "advance ic (Arrive i rid call) w =
    (if 0 \<le> ac_VMID call
     then map_option (\<lambda>s. w\<lparr>dd := s, jobs := (jobs w)(i := \<lparr>job_rid = rid, job_call = call, job_stage = Asking\<rparr>)\<rparr>)
            (play (Enter i (action_key call)) (dd w))
     else None)"
| "advance ic (Query i net) w =
    (case run_at w i of
       Some (a, rid, call, Asking) \<Rightarrow>
         (case GetVM net ic rid (ac_VMID call) (hist w) of
            (r, h) \<Rightarrow> Some (to_stage i (after_query call r)
              (w\<lparr>hist := h, seen := map (\<lambda>x. Asked a x (clock (dd w))) (drop (length (hist w)) h) @ seen w\<rparr>)))
     | _ \<Rightarrow> None)"
| "advance ic (Change i net) w =
    (case run_at w i of
       Some (a, rid, call, Deciding) \<Rightarrow>
         (case Mutate net ic rid (ac_Action call) (ac_VMID call) (hist w) of
            (r, h) \<Rightarrow> Some (to_stage i (Replying (after_change call r))
              (w\<lparr>hist := h, seen := map (\<lambda>x. Sent a x (clock (dd w))) (drop (length (hist w)) h) @ seen w\<rparr>)))
     | _ \<Rightarrow> None)"
| "advance ic (Reply i) w =
    (case run_at w i of
       Some (a, rid, call, Replying x) \<Rightarrow>
         Some (to_stage i (Leaving x) (w\<lparr>seen := Replied a (clock (dd w)) # seen w\<rparr>))
     | _ \<Rightarrow> None)"
| "advance ic (Conclude i) w =
    (case run_at w i of
       Some (a, rid, call, Leaving (v, p, e)) \<Rightarrow>
         map_option (\<lambda>s. w\<lparr>dd := s\<rparr>) (play (Finish i v p e) (dd w))
     | _ \<Rightarrow> None)"

definition empty_crowd :: "ServiceConfig \<Rightarrow> (nat \<Rightarrow> job) \<Rightarrow> time \<Rightarrow> history \<Rightarrow> crowd" where
  "empty_crowd cfg js t h = \<lparr>dd = initial (sc_DedupWindow cfg) t, jobs = js, hist = h, seen = []\<rparr>"

inductive crowded :: "InfraClient \<Rightarrow> ServiceConfig \<Rightarrow> crowd \<Rightarrow> bool" for ic cfg where
  nobody: "crowded ic cfg (empty_crowd cfg js t h)"
| advanced: "crowded ic cfg w \<Longrightarrow> advance ic m w = Some w' \<Longrightarrow> crowded ic cfg w'"

lemma advance_cases:
  assumes "advance ic m w = Some w'"
  obtains (quiet) q s where "m = Quiet q" "quiet q" "play q (dd w) = Some s" "w' = w\<lparr>dd := s\<rparr>"
  | (arrive) i rid call s where "m = Arrive i rid call" "0 \<le> ac_VMID call" "play (Enter i (action_key call)) (dd w) = Some s"
      "w' = w\<lparr>dd := s, jobs := (jobs w)(i := \<lparr>job_rid = rid, job_call = call, job_stage = Asking\<rparr>)\<rparr>"
  | (query) i net k a r h where "m = Query i net" "threads (dd w) i = Running k a" "job_stage (jobs w i) = Asking"
      "GetVM net ic (job_rid (jobs w i)) (ac_VMID (job_call (jobs w i))) (hist w) = (r, h)"
      "w' = to_stage i (after_query (job_call (jobs w i)) r)
         (w\<lparr>hist := h, seen := map (\<lambda>x. Asked a x (clock (dd w))) (drop (length (hist w)) h) @ seen w\<rparr>)"
  | (change) i net k a r h where "m = Change i net" "threads (dd w) i = Running k a" "job_stage (jobs w i) = Deciding"
      "Mutate net ic (job_rid (jobs w i)) (ac_Action (job_call (jobs w i))) (ac_VMID (job_call (jobs w i))) (hist w) = (r, h)"
      "w' = to_stage i (Replying (after_change (job_call (jobs w i)) r))
         (w\<lparr>hist := h, seen := map (\<lambda>x. Sent a x (clock (dd w))) (drop (length (hist w)) h) @ seen w\<rparr>)"
  | (reply) i k a x where "m = Reply i" "threads (dd w) i = Running k a" "job_stage (jobs w i) = Replying x"
      "w' = to_stage i (Leaving x) (w\<lparr>seen := Replied a (clock (dd w)) # seen w\<rparr>)"
  | (conclude) i k a v p e s where "m = Conclude i" "threads (dd w) i = Running k a" "job_stage (jobs w i) = Leaving (v, p, e)"
      "play (Finish i v p e) (dd w) = Some s" "w' = w\<lparr>dd := s\<rparr>"
proof (cases m)
  case (Quiet q)
  then show ?thesis using assms quiet by (auto split: if_splits)
next
  case (Arrive i rid call)
  then show ?thesis using assms arrive by (auto split: if_splits)
next
  case (Query i net)
  then show ?thesis using assms query
    by (auto simp: run_at_def split: prod.splits thread.splits stage.splits)
next
  case (Change i net)
  then show ?thesis using assms change
    by (auto simp: run_at_def split: prod.splits thread.splits stage.splits)
next
  case (Reply i)
  then show ?thesis using assms reply
    by (auto simp: run_at_def split: prod.splits thread.splits stage.splits)
next
  case (Conclude i)
  then show ?thesis using assms conclude
    by (auto simp: run_at_def split: prod.splits thread.splits stage.splits)
qed

section \<open>The store under the crowd\<close>

lemma quiet_play:
  assumes "quiet q" "play q s = Some s'"
  shows "threads s' i = Running k a \<longleftrightarrow> threads s i = Running k a" "log s' = log s" "clock s \<le> clock s'"
    "threads s' i = Returned k r \<Longrightarrow> threads s i = Returned k r \<or> (\<exists>e. r = canceled (Ended e)) \<or>
       (\<exists>a. threads s i = Waiting k a \<and> e_done (heap (store s) ! a) \<and> r = waited a (store s))"
  using assms
  by (cases q; auto split: if_splits thread.splits any_error.splits)+

lemma enter_play:
  assumes "play (Enter i key) s = Some s'"
  shows "j \<noteq> i \<Longrightarrow> threads s' j = threads s j" "threads s i = Idle" "clock s' = clock s" "set (log s) \<subseteq> set (log s')"
    "Finished k a v p e t \<in> set (log s') \<longleftrightarrow> Finished k a v p e t \<in> set (log s)"
    "threads s' i = Running k a \<Longrightarrow> k = key" "threads s' i \<noteq> Returned k r"
  using assms by (auto split: thread.splits prod.splits entered.splits)

lemma finish_play:
  assumes "play (Finish i v p e) s = Some s'" "threads s i = Running k a"
  shows "j \<noteq> i \<Longrightarrow> threads s' j = threads s j" "threads s' i = Returned k (ran v e)" "clock s' = clock s"
    "log s' = Finished k a v p e (clock s) # log s"
  using assms by auto

lemma to_stage_simps [simp]:
  "dd (to_stage i g w) = dd w" "hist (to_stage i g w) = hist w" "seen (to_stage i g w) = seen w"
  "jobs (to_stage i g w) j = (if j = i then (jobs w i)\<lparr>job_stage := g\<rparr> else jobs w j)"
  by (simp_all add: to_stage_def)

lemma crowded_reachable: "crowded ic cfg w \<Longrightarrow> reachable (sc_DedupWindow cfg) (dd w)"
proof (induction rule: crowded.induct)
  case (nobody js t h)
  then show ?case by (simp add: empty_crowd_def reachable.start)
next
  case (advanced w m w')
  from advanced(2) show ?case
    by (cases rule: advance_cases) (use advanced(3) in \<open>auto simp del: play.simps dest: play_step intro: reachable.next_step\<close>)
qed

section \<open>What is known of a change that was sent\<close>

definition change_of :: "InfraClient \<Rightarrow> ActionCall \<Rightarrow> exchange \<Rightarrow> bool" where
  "change_of ic call x \<longleftrightarrow> 0 \<le> ac_VMID call \<and> req_Method (fst x) = ''POST'' \<and>
    req_URL (fst x) = ic_baseURL ic @ vm_path (ac_VMID call) @ ''/'' @ ac_Action call"

text \<open>The result of the run is kept unless the change was refused.\<close>

definition keeps :: "exchange \<Rightarrow> CachePolicy \<Rightarrow> bool" where
  "keeps x p \<longleftrightarrow> p = Cache \<or> answered_no x"

definition replied :: "crowd \<Rightarrow> addr \<Rightarrow> time \<Rightarrow> time \<Rightarrow> bool" where
  "replied w a t u \<longleftrightarrow> (\<exists>t'. Replied a t' \<in> set (seen w) \<and> t \<le> t' \<and> t' \<le> u)"

definition going_on :: "crowd \<Rightarrow> ActionCall \<Rightarrow> addr \<Rightarrow> exchange \<Rightarrow> time \<Rightarrow> bool" where
  "going_on w call a x t \<longleftrightarrow>
    (\<exists>i v p e. threads (dd w) i = Running (action_key call) a \<and> keeps x p \<and>
       (job_stage (jobs w i) = Replying (v, p, e) \<or>
        job_stage (jobs w i) = Leaving (v, p, e) \<and> replied w a t (clock (dd w))))"

definition over :: "crowd \<Rightarrow> ActionCall \<Rightarrow> addr \<Rightarrow> exchange \<Rightarrow> time \<Rightarrow> bool" where
  "over w call a x t \<longleftrightarrow>
    (\<exists>v p e u. Finished (action_key call) a v p e u \<in> set (log (dd w)) \<and> keeps x p \<and> replied w a t u)"

definition jobs_ok :: "crowd \<Rightarrow> bool" where
  "jobs_ok w \<longleftrightarrow> (\<forall>i k a. threads (dd w) i = Running k a \<longrightarrow>
     k = action_key (job_call (jobs w i)) \<and> 0 \<le> ac_VMID (job_call (jobs w i)))"

definition sent_ok :: "InfraClient \<Rightarrow> crowd \<Rightarrow> bool" where
  "sent_ok ic w \<longleftrightarrow>
    (\<forall>a x t. Sent a x t \<in> set (seen w) \<longrightarrow>
       t \<le> clock (dd w) \<and> (\<exists>call. change_of ic call x \<and> (going_on w call a x t \<or> over w call a x t)))"

lemma replied_mono: "replied w a t u \<Longrightarrow> set (seen w) \<subseteq> set (seen w') \<Longrightarrow> u \<le> u' \<Longrightarrow> replied w' a t u'"
  unfolding replied_def using order_trans by blast

lemma over_mono:
  "over w call a x t \<Longrightarrow> set (seen w) \<subseteq> set (seen w') \<Longrightarrow> set (log (dd w)) \<subseteq> set (log (dd w')) \<Longrightarrow> over w' call a x t"
  unfolding over_def using replied_mono [of w a t _ w'] by blast

text \<open>A run goes on as long as its goroutine and its stage are not touched.\<close>

lemma going_on_mono:
  assumes "going_on w call a x t" "set (seen w) \<subseteq> set (seen w')" "clock (dd w) \<le> clock (dd w')"
    and "\<And>i k. threads (dd w) i = Running k a \<Longrightarrow> (\<exists>y. job_stage (jobs w i) = Replying y \<or> job_stage (jobs w i) = Leaving y) \<Longrightarrow>
      threads (dd w') i = Running k a \<and> jobs w' i = jobs w i"
  shows "going_on w' call a x t"
proof -
  obtain i v p e where i: "threads (dd w) i = Running (action_key call) a" "keeps x p"
    "job_stage (jobs w i) = Replying (v, p, e) \<or> job_stage (jobs w i) = Leaving (v, p, e) \<and> replied w a t (clock (dd w))"
    using assms(1) unfolding going_on_def by blast
  then have "threads (dd w') i = Running (action_key call) a \<and> jobs w' i = jobs w i" using assms(4) by blast
  then show ?thesis using i replied_mono [OF _ assms(2,3)] unfolding going_on_def by metis
qed

lemma sent_okD:
  assumes "sent_ok ic w" "Sent a x t \<in> set (seen w)"
  obtains call where "t \<le> clock (dd w)" "change_of ic call x" "going_on w call a x t \<or> over w call a x t"
  using assms unfolding sent_ok_def by blast

text \<open>Moves that neither send nor end anything.\<close>

lemma sent_ok_mono:
  assumes "sent_ok ic w" "set (seen w) \<subseteq> set (seen w')" "clock (dd w) \<le> clock (dd w')" "set (log (dd w)) \<subseteq> set (log (dd w'))"
    and "\<And>a x t. Sent a x t \<in> set (seen w') \<Longrightarrow> Sent a x t \<in> set (seen w)"
    and "\<And>i k a. threads (dd w) i = Running k a \<Longrightarrow> (\<exists>y. job_stage (jobs w i) = Replying y \<or> job_stage (jobs w i) = Leaving y) \<Longrightarrow>
      threads (dd w') i = Running k a \<and> jobs w' i = jobs w i"
  shows "sent_ok ic w'"
  unfolding sent_ok_def
proof (intro allI impI)
  fix a x t
  assume "Sent a x t \<in> set (seen w')"
  then have "Sent a x t \<in> set (seen w)" by (rule assms(5))
  with assms(1) obtain call where c: "t \<le> clock (dd w)" "change_of ic call x" "going_on w call a x t \<or> over w call a x t"
    by (rule sent_okD)
  then have "going_on w' call a x t \<or> over w' call a x t"
    using going_on_mono [OF _ assms(2,3,6)] over_mono [OF _ assms(2,4)] by blast
  then show "t \<le> clock (dd w') \<and> (\<exists>call. change_of ic call x \<and> (going_on w' call a x t \<or> over w' call a x t))"
    using c assms(3) by auto
qed

lemma jobs_ok_advance:
  assumes "advance ic m w = Some w'" "jobs_ok w"
  shows "jobs_ok w'"
  using assms(1)
proof (cases rule: advance_cases)
  case (arrive i rid call s)
  then show ?thesis using assms(2) enter_play [OF arrive(3)]
    unfolding jobs_ok_def by (auto split: if_splits)
next
  case (conclude i k a v p e s)
  have "threads s j = Running l b \<Longrightarrow> threads (dd w) j = Running l b" for j l b
    using finish_play [OF conclude(4,2)] by (cases "j = i") auto
  then show ?thesis using assms(2) conclude(5) unfolding jobs_ok_def by auto
qed (use assms(2) in \<open>auto simp: jobs_ok_def quiet_play(1)\<close>)

lemma Mutate_sends:
  assumes "Mutate net ic rid a v h = (r, h')" "0 \<le> v"
  obtains (no) "h' = h" | (yes) x where "h' = h @ [x]" "\<And>call. ac_Action call = a \<Longrightarrow> ac_VMID call = v \<Longrightarrow> change_of ic call x"
     "\<And>call. \<exists>u p e. after_change call r = (u, p, e) \<and> keeps x p"
proof (cases "h' = h")
  case False
  then obtain req out where s: "h' = h @ [(req, out)]" "req_Method req = ''POST''" "req_URL req = ic_baseURL ic @ vm_path v @ ''/'' @ a"
    using client.mutate_sends [OF assms(1)] by blast
  have "\<exists>u p e. after_change call r = (u, p, e) \<and> keeps (req, out) p" for call
  proof (cases r)
    case (Inl err)
    from client.mutate_failed [OF assms(1) [unfolded Inl] False] s(1)
    have "Unknown err \<or> answered_no (req, out)" by (auto simp: answered_no_def split: outcome.splits)
    then show ?thesis using Inl by (auto simp: keeps_def)
  qed (simp add: keeps_def)
  then show ?thesis using s assms(2) by (intro yes [of "(req, out)"]) (auto simp: change_of_def)
qed (rule no)

lemma sent_ok_reply:
  assumes "sent_ok ic w"
    and reply: "threads (dd w) i = Running k a" "job_stage (jobs w i) = Replying y"
      "w' = to_stage i (Leaving y) (w\<lparr>seen := Replied a (clock (dd w)) # seen w\<rparr>)"
  shows "sent_ok ic w'"
proof -
  show ?thesis
    unfolding sent_ok_def
  proof (intro allI impI)
    fix b x t
    assume "Sent b x t \<in> set (seen w')"
    then have "Sent b x t \<in> set (seen w)" using reply(3) by simp
    with assms(1) obtain call where c: "t \<le> clock (dd w)" "change_of ic call x" "going_on w call b x t \<or> over w call b x t"
      by (rule sent_okD)
    have "going_on w' call b x t" if g: "going_on w call b x t"
    proof -
      obtain j v p e where j: "threads (dd w) j = Running (action_key call) b" "keeps x p"
        "job_stage (jobs w j) = Replying (v, p, e) \<or> job_stage (jobs w j) = Leaving (v, p, e) \<and> replied w b t (clock (dd w))"
        using g unfolding going_on_def by blast
      have "job_stage (jobs w' j) = Replying (v, p, e) \<or> job_stage (jobs w' j) = Leaving (v, p, e) \<and> replied w' b t (clock (dd w'))"
      proof (cases "j = i")
        case True
        then have "replied w' b t (clock (dd w'))" using c(1) j(1) reply by (auto simp: replied_def)
        moreover have "job_stage (jobs w' j) = Leaving (v, p, e)" using True j(3) reply by auto
        ultimately show ?thesis by simp
      next
        case False
        then show ?thesis using j(3) reply(3) replied_mono [of w b t _ w'] by auto
      qed
      then show ?thesis using j(1,2) reply(3) unfolding going_on_def by fastforce
    qed
    moreover have "over w' call b x t" if "over w call b x t" using over_mono [OF that, of w'] reply(3) by auto
    ultimately show "t \<le> clock (dd w') \<and> (\<exists>call. change_of ic call x \<and> (going_on w' call b x t \<or> over w' call b x t))"
      using c reply(3) by auto
  qed
qed

lemma sent_ok_conclude:
  assumes "sent_ok ic w"
    and conclude: "threads (dd w) i = Running k a" "job_stage (jobs w i) = Leaving (v, p, e)"
      "play (Finish i v p e) (dd w) = Some s" "w' = w\<lparr>dd := s\<rparr>"
  shows "sent_ok ic w'"
proof -
  note f = finish_play [OF conclude(3,1)]
  show ?thesis
    unfolding sent_ok_def
  proof (intro allI impI)
    fix b x t
    assume "Sent b x t \<in> set (seen w')"
    then have "Sent b x t \<in> set (seen w)" using conclude(4) by simp
    with assms(1) obtain call where c: "t \<le> clock (dd w)" "change_of ic call x" "going_on w call b x t \<or> over w call b x t"
      by (rule sent_okD)
    have "going_on w' call b x t \<or> over w' call b x t" if g: "going_on w call b x t"
    proof -
      obtain j v' p' e' where j: "threads (dd w) j = Running (action_key call) b" "keeps x p'"
        "job_stage (jobs w j) = Replying (v', p', e') \<or> job_stage (jobs w j) = Leaving (v', p', e') \<and> replied w b t (clock (dd w))"
        using g unfolding going_on_def by blast
      show ?thesis
      proof (cases "j = i")
        case True
        then have "replied w' b t (clock (dd w))" "p' = p" "k = action_key call" "b = a"
          using j conclude replied_mono [of w b t _ w'] by auto
        then have "over w' call b x t" using j(2) conclude(4) f(4) unfolding over_def by fastforce
        then show ?thesis ..
      next
        case False
        then have "going_on w' call b x t"
          using j conclude(4) f replied_mono [of w b t _ w'] unfolding going_on_def by (intro exI [of _ j]) fastforce
        then show ?thesis ..
      qed
    qed
    moreover have "over w' call b x t" if "over w call b x t" using over_mono [OF that, of w'] conclude(4) f(4) by auto
    ultimately show "t \<le> clock (dd w') \<and> (\<exists>call. change_of ic call x \<and> (going_on w' call b x t \<or> over w' call b x t))"
      using c conclude(4) f(3) by auto
  qed
qed

lemma sent_ok_change:
  assumes "jobs_ok w" "sent_ok ic w"
    and change: "threads (dd w) i = Running k a" "job_stage (jobs w i) = Deciding"
      "Mutate net ic (job_rid (jobs w i)) (ac_Action (job_call (jobs w i))) (ac_VMID (job_call (jobs w i))) (hist w) = (r, h)"
      "w' = to_stage i (Replying (after_change (job_call (jobs w i)) r))
         (w\<lparr>hist := h, seen := map (\<lambda>x. Sent a x (clock (dd w))) (drop (length (hist w)) h) @ seen w\<rparr>)"
  shows "sent_ok ic w'"
proof -
  let ?call = "job_call (jobs w i)"
  have k: "k = action_key ?call" "0 \<le> ac_VMID ?call" using assms(1) change(1) unfolding jobs_ok_def by blast+
  have old: "\<exists>call. change_of ic call x \<and> (going_on w' call b x t \<or> over w' call b x t)" "t \<le> clock (dd w)"
    if s: "Sent b x t \<in> set (seen w)" for b x t
  proof -
    obtain call where c: "t \<le> clock (dd w)" "change_of ic call x" "going_on w call b x t \<or> over w call b x t"
      by (rule sent_okD [OF assms(2) s])
    have "going_on w' call b x t" if "going_on w call b x t"
      by (rule going_on_mono [OF that]) (use change in auto)
    moreover have "over w' call b x t" if "over w call b x t"
      using over_mono [OF that, of w'] change(4) by auto
    ultimately show "\<exists>call. change_of ic call x \<and> (going_on w' call b x t \<or> over w' call b x t)" "t \<le> clock (dd w)"
      using c by blast+
  qed
  from change(3) k(2) show ?thesis
  proof (cases rule: Mutate_sends)
    case no
    then show ?thesis using old change(4) unfolding sent_ok_def by simp
  next
    case (yes x)
    have "going_on w' ?call a x (clock (dd w))"
      using yes(3) [of ?call] change(1,4) k(1) unfolding going_on_def by (intro exI [of _ i]) auto
    moreover have "change_of ic ?call x" using yes(2) by simp
    ultimately show ?thesis using old change(4) yes(1) unfolding sent_ok_def by auto
  qed
qed

lemma sent_ok_advance:
  assumes "advance ic m w = Some w'" "jobs_ok w" "sent_ok ic w"
  shows "sent_ok ic w'"
  using assms(1)
proof (cases rule: advance_cases)
  case (quiet q s)
  show ?thesis by (rule sent_ok_mono [OF assms(3)]) (use quiet in \<open>auto simp: quiet_play\<close>)
next
  case (arrive i rid call s)
  note e = enter_play [OF arrive(3)]
  show ?thesis
  proof (rule sent_ok_mono [OF assms(3)])
    fix j l b
    assume "threads (dd w) j = Running l b"
    moreover from this have "j \<noteq> i" using e(2) by auto
    ultimately show "threads (dd w') j = Running l b \<and> jobs w' j = jobs w j" using arrive(4) e(1) by simp
  qed (use arrive(4) e in auto)
next
  case (query i net k a r h)
  show ?thesis by (rule sent_ok_mono [OF assms(3)]) (use query in auto)
next
  case (reply i k a y)
  show ?thesis by (rule sent_ok_reply [OF assms(3) reply(2-4)])
next
  case (conclude i k a v p e s)
  show ?thesis by (rule sent_ok_conclude [OF assms(3) conclude(2-5)])
next
  case (change i net k a r h)
  show ?thesis by (rule sent_ok_change [OF assms(2,3) change(2-5)])
qed

section \<open>What was sent before a change\<close>

lemma split_behind:
  "new @ xs = newer @ e # older \<Longrightarrow> e \<notin> set new \<Longrightarrow> \<exists>zs. newer = new @ zs \<and> xs = zs @ e # older"
  by (auto simp: append_eq_append_conv2 append_eq_Cons_conv)

definition asked_for :: "InfraClient \<Rightarrow> ActionCall \<Rightarrow> exchange \<Rightarrow> bool" where
  "asked_for ic call q \<longleftrightarrow>
    (\<exists>req resp vm. q = (req, Answer resp) \<and> req_Method req = ''GET'' \<and>
       req_URL req = ic_baseURL ic @ vm_path (ac_VMID call) \<and> read_VM resp (ac_VMID call) = Inr vm \<and>
       Execute (CheckState (ac_Action call) (Status vm) (ac_VMID call)))"

definition deciding_ok :: "InfraClient \<Rightarrow> crowd \<Rightarrow> bool" where
  "deciding_ok ic w \<longleftrightarrow>
    (\<forall>i k a. threads (dd w) i = Running k a \<longrightarrow> job_stage (jobs w i) = Deciding \<longrightarrow>
       (\<exists>q t. Asked a q t \<in> set (seen w) \<and> t \<le> clock (dd w) \<and> asked_for ic (job_call (jobs w i)) q))"

text \<open>What holds of each change, at the time when it was sent.\<close>

definition proper :: "InfraClient \<Rightarrow> int \<Rightarrow> crowd_event list \<Rightarrow> addr \<Rightarrow> exchange \<Rightarrow> time \<Rightarrow> bool" where
  "proper ic win older b y t2 \<longleftrightarrow>
    (\<exists>call q t. Asked b q t \<in> set older \<and> t \<le> t2 \<and> checked_change (ic_baseURL ic) call [q] y) \<and>
    (\<forall>a x t1. Sent a x t1 \<in> set older \<longrightarrow> req_URL (fst y) = req_URL (fst x) \<longrightarrow> \<not> answered_no x \<longrightarrow>
       (\<exists>t'. Replied a t' \<in> set older \<and> t1 \<le> t' \<and> t' + win \<le> t2))"

definition all_proper :: "InfraClient \<Rightarrow> int \<Rightarrow> crowd \<Rightarrow> bool" where
  "all_proper ic win w \<longleftrightarrow>
    (\<forall>newer b y t2 older. seen w = newer @ Sent b y t2 # older \<longrightarrow> proper ic win older b y t2)"

lemma all_proper_quiet:
  assumes "all_proper ic win w" "seen w' = new @ seen w" "\<And>b y t. Sent b y t \<notin> set new"
  shows "all_proper ic win w'"
  using assms split_behind unfolding all_proper_def by metis

lemma GetVM_sends:
  assumes "GetVM net ic rid (ac_VMID call) h = (r, h')" "after_query call r = Deciding"
  obtains q where "h' = h @ [q]" "asked_for ic call q"
proof -
  obtain vm where vm: "r = Inr vm" using assms(2) by (cases r) auto
  then have "Execute (CheckState (ac_Action call) (Status vm) (ac_VMID call))"
    using assms(2) by (auto simp: Let_def split: if_splits)
  then show ?thesis using client.get_vm [OF assms(1) [unfolded vm]] that by (auto simp: asked_for_def)
qed

lemma deciding_ok_advance:
  assumes "advance ic m w = Some w'" "deciding_ok ic w"
  shows "deciding_ok ic w'"
proof -
  have keep: "\<exists>q t. Asked a q t \<in> set (seen w') \<and> t \<le> clock (dd w') \<and> asked_for ic (job_call (jobs w' i)) q"
    if d: "threads (dd w) i = Running k a" "job_stage (jobs w i) = Deciding" and "job_call (jobs w' i) = job_call (jobs w i)"
      "set (seen w) \<subseteq> set (seen w')" "clock (dd w) \<le> clock (dd w')" for i k a
  proof -
    obtain q t where "Asked a q t \<in> set (seen w)" "t \<le> clock (dd w)" "asked_for ic (job_call (jobs w i)) q"
      using assms(2) d unfolding deciding_ok_def by blast
    then show ?thesis using that(3-5) by (intro exI [of _ q] exI [of _ t]) auto
  qed
  from assms(1) show ?thesis
  proof (cases rule: advance_cases)
    case (quiet q s)
    then show ?thesis using keep quiet_play [OF quiet(2,3)] unfolding deciding_ok_def by auto
  next
    case (arrive i rid call s)
    have "j \<noteq> i \<and> threads (dd w) j = Running l b \<and> jobs w' j = jobs w j"
      if "threads s j = Running l b" "job_stage (jobs w' j) = Deciding" for j l b
      using that arrive(4) enter_play(1) [OF arrive(3), of j] by (cases "j = i") auto
    then show ?thesis
      using keep arrive(4) enter_play(3) [OF arrive(3)] unfolding deciding_ok_def by fastforce
  next
    case (query i net k a r h)
    show ?thesis
      unfolding deciding_ok_def
    proof (intro allI impI)
      fix j l b
      assume j: "threads (dd w') j = Running l b" "job_stage (jobs w' j) = Deciding"
      show "\<exists>q t. Asked b q t \<in> set (seen w') \<and> t \<le> clock (dd w') \<and> asked_for ic (job_call (jobs w' j)) q"
      proof (cases "j = i")
        case True
        with j query have d: "after_query (job_call (jobs w i)) r = Deciding" "b = a" by auto
        obtain q where q: "h = hist w @ [q]" "asked_for ic (job_call (jobs w i)) q" by (rule GetVM_sends [OF query(4) d(1)])
        show ?thesis
          by (rule exI [of _ q], rule exI [of _ "clock (dd w)"]) (use q d(2) query(5) True in auto)
      next
        case False
        then show ?thesis using j query(5) keep [of j l b] by auto
      qed
    qed
  next
    case (conclude i k a v p e s)
    have "threads (dd w) j = Running l b" if "threads s j = Running l b" for j l b
      using that finish_play [OF conclude(4,2)] by (cases "j = i") auto
    then show ?thesis using keep conclude(5) finish_play(3) [OF conclude(4,2)] unfolding deciding_ok_def by auto
  next
    case (change i net k a r h)
    have "\<exists>q t. Asked b q t \<in> set (seen w') \<and> t \<le> clock (dd w') \<and> asked_for ic (job_call (jobs w' j)) q"
      if "threads (dd w') j = Running l b" "job_stage (jobs w' j) = Deciding" for j l b
      by (rule keep) (use that change(5) in \<open>auto split: if_splits\<close>)
    then show ?thesis unfolding deciding_ok_def by blast
  next
    case (reply i k a x)
    have "\<exists>q t. Asked b q t \<in> set (seen w') \<and> t \<le> clock (dd w') \<and> asked_for ic (job_call (jobs w' j)) q"
      if "threads (dd w') j = Running l b" "job_stage (jobs w' j) = Deciding" for j l b
      by (rule keep) (use that reply(4) in \<open>auto split: if_splits\<close>)
    then show ?thesis unfolding deciding_ok_def by blast
  qed
qed

text \<open>A change for the same address comes after the reply to the earlier one, by the window.\<close>

lemma change_after_window:
  assumes "reachable win (dd w)" "sent_ok ic w" "threads (dd w) i = Running (action_key call) b" "job_stage (jobs w i) = Deciding"
    and "0 \<le> ac_VMID call" "Sent a x t1 \<in> set (seen w)" "\<not> answered_no x"
    and "req_URL (fst x) = ic_baseURL ic @ vm_path (ac_VMID call) @ ''/'' @ ac_Action call"
  shows "\<exists>t'. Replied a t' \<in> set (seen w) \<and> t1 \<le> t' \<and> t' + win \<le> clock (dd w)"
proof -
  note ok = reachable_runs_ok [OF assms(1)]
  obtain call' where c: "change_of ic call' x" "going_on w call' a x t1 \<or> over w call' a x t1"
    using assms(2,6) by (rule sent_okD)
  then have k: "action_key call' = action_key call"
    using assms(5,8) by (intro action_key_URL [of _ _ "ic_baseURL ic"]) (auto simp: change_of_def)
  from c(2) show ?thesis
  proof
    assume "going_on w call' a x t1"
    then obtain j where "threads (dd w) j = Running (action_key call) a"
      "job_stage (jobs w j) \<noteq> Deciding" unfolding going_on_def k by auto
    then show ?thesis using running_key [OF conjunct1 [OF ok] assms(3)] assms(4) by blast
  next
    assume "over w call' a x t1"
    then obtain v e u where f: "Finished (action_key call) a v Cache e u \<in> set (log (dd w))" "replied w a t1 u"
      using assms(7) unfolding over_def k keeps_def by blast
    have "\<not> clock (dd w) < u + win"
      using kept_blocks(2) [OF _ f(1)] reachable_ok [OF assms(1)] ok running_entry(5) [OF conjunct1 [OF ok] assms(3)] by auto
    then show ?thesis using f(2) unfolding replied_def by fastforce
  qed
qed

lemma all_proper_advance:
  assumes "advance ic m w = Some w'" "reachable win (dd w)" "jobs_ok w" "sent_ok ic w" "deciding_ok ic w" "all_proper ic win w"
  shows "all_proper ic win w'"
  using assms(1)
proof (cases rule: advance_cases)
  case (change i net k a r h)
  let ?call = "job_call (jobs w i)"
  have k: "k = action_key ?call" "0 \<le> ac_VMID ?call" using assms(3) change(2) unfolding jobs_ok_def by blast+
  from change(4) k(2) show ?thesis
  proof (cases rule: Mutate_sends)
    case no
    then show ?thesis using assms(6) change(5) unfolding all_proper_def by simp
  next
    case (yes x)
    have c: "change_of ic ?call x" using yes(2) by simp
    obtain q t where q: "Asked a q t \<in> set (seen w)" "t \<le> clock (dd w)" "asked_for ic ?call q"
      using assms(5) change(2,3) unfolding deciding_ok_def by blast
    have "checked_change (ic_baseURL ic) ?call [q] x"
      using c q(3) unfolding checked_change_def change_of_def asked_for_def by blast
    moreover have "\<exists>t'. Replied b t' \<in> set (seen w) \<and> t1 \<le> t' \<and> t' + win \<le> clock (dd w)"
      if "Sent b y t1 \<in> set (seen w)" "req_URL (fst x) = req_URL (fst y)" "\<not> answered_no y" for b y t1
      using change_after_window [OF assms(2,4) change(2) [unfolded k(1)] change(3) k(2) that(1,3)] c that(2)
      by (simp add: change_of_def)
    ultimately have p: "proper ic win (seen w) a x (clock (dd w))" using q unfolding proper_def by blast
    have s: "seen w' = Sent a x (clock (dd w)) # seen w" using change(5) yes(1) by simp
    show ?thesis
      unfolding all_proper_def
    proof (intro allI impI)
      fix newer b y t2 older
      assume e: "seen w' = newer @ Sent b y t2 # older"
      show "proper ic win older b y t2"
      proof (cases newer)
        case Nil
        then show ?thesis using e s p by simp
      next
        case (Cons z zs)
        then have "seen w = zs @ Sent b y t2 # older" using e s by simp
        then show ?thesis using assms(6) unfolding all_proper_def by blast
      qed
    qed
  qed
next
  case (quiet q s)
  then show ?thesis by (intro all_proper_quiet [OF assms(6), of _ "[]"]) auto
next
  case (arrive i rid call s)
  then show ?thesis by (intro all_proper_quiet [OF assms(6), of _ "[]"]) auto
next
  case (query i net k a r h)
  then show ?thesis
    by (intro all_proper_quiet [OF assms(6), of _ "map (\<lambda>x. Asked a x (clock (dd w))) (drop (length (hist w)) h)"]) auto
next
  case (reply i k a x)
  then show ?thesis by (intro all_proper_quiet [OF assms(6), of _ "[Replied a (clock (dd w))]"]) auto
next
  case (conclude i k a v p e s)
  then show ?thesis by (intro all_proper_quiet [OF assms(6), of _ "[]"]) auto
qed

lemma crowded_ok:
  assumes "crowded ic cfg w"
  shows "jobs_ok w \<and> sent_ok ic w \<and> deciding_ok ic w \<and> all_proper ic (sc_DedupWindow cfg) w"
  using assms
proof (induction rule: crowded.induct)
  case (nobody js t h)
  show ?case
    by (simp add: empty_crowd_def initial_def jobs_ok_def sent_ok_def deciding_ok_def all_proper_def)
next
  case (advanced w m w')
  then show ?case
    using jobs_ok_advance sent_ok_advance deciding_ok_advance all_proper_advance crowded_reachable by blast
qed

section \<open>Changes of many requests\<close>

text \<open>
  However the goroutines of many requests interleave, each change is sent right after a query
  of the same request that told the state which the action requires; and a change that was sent
  before by any of them, with an outcome other than a refusal, is only sent again when its reply
  has come and the window has passed since then. So two equal changes are never on their way at
  the same time.
\<close>

lemma crowd_no_second_change:
  assumes "crowded ic cfg w" "seen w = newer @ Sent b y t2 # older"
  shows "(\<exists>call q t. Asked b q t \<in> set older \<and> t \<le> t2 \<and> checked_change (ic_baseURL ic) call [q] y) \<and>
    (\<forall>a x t1. Sent a x t1 \<in> set older \<longrightarrow> req_URL (fst y) = req_URL (fst x) \<longrightarrow> \<not> answered_no x \<longrightarrow>
       (\<exists>t'. Replied a t' \<in> set older \<and> t1 \<le> t' \<and> t' + sc_DedupWindow cfg \<le> t2))"
  using crowded_ok [OF assms(1)] assms(2) unfolding all_proper_def proper_def by blast

section \<open>Answers of many requests\<close>

text \<open>
  What a run hands out has the type that the service asserts, and when it says that the action
  was executed, the run has sent the change for its key and that was accepted.
\<close>

definition accepted :: "exchange \<Rightarrow> bool" where
  "accepted x \<longleftrightarrow> (\<exists>resp. snd x = Answer resp \<and> StatusCode resp = 202)"

definition sound :: "InfraClient \<Rightarrow> crowd \<Rightarrow> string \<Rightarrow> addr \<Rightarrow> any_value option \<Rightarrow> any_error option \<Rightarrow> bool" where
  "sound ic w k a v e \<longleftrightarrow> well_typed v e \<and>
    (\<forall>ex. v = Some (AnExecution ex) \<longrightarrow> e = None \<longrightarrow> ex_Executed ex \<longrightarrow>
       (\<exists>x t call. Sent a x t \<in> set (seen w) \<and> action_key call = k \<and> change_of ic call x \<and> accepted x))"

definition sound_stage :: "InfraClient \<Rightarrow> crowd \<Rightarrow> string \<Rightarrow> addr \<Rightarrow> stage \<Rightarrow> bool" where
  "sound_stage ic w k a g \<longleftrightarrow> (\<forall>v p e. g = Replying (v, p, e) \<or> g = Leaving (v, p, e) \<longrightarrow> sound ic w k a v e)"

definition all_sound :: "InfraClient \<Rightarrow> crowd \<Rightarrow> bool" where
  "all_sound ic w \<longleftrightarrow>
    (\<forall>i k a. threads (dd w) i = Running k a \<longrightarrow> sound_stage ic w k a (job_stage (jobs w i))) \<and>
    (\<forall>k a v p e t. Finished k a v p e t \<in> set (log (dd w)) \<longrightarrow> sound ic w k a v e) \<and>
    (\<forall>i k r. threads (dd w) i = Returned k r \<longrightarrow> (\<exists>a. sound ic w k a (Value r) (Err r)))"

lemma all_soundI:
  assumes "\<And>i k a. threads (dd w) i = Running k a \<Longrightarrow> sound_stage ic w k a (job_stage (jobs w i))"
    "\<And>k a v p e t. Finished k a v p e t \<in> set (log (dd w)) \<Longrightarrow> sound ic w k a v e"
    "\<And>i k r. threads (dd w) i = Returned k r \<Longrightarrow> \<exists>a. sound ic w k a (Value r) (Err r)"
  shows "all_sound ic w"
  using assms unfolding all_sound_def by blast

lemma sound_mono: "sound ic w k a v e \<Longrightarrow> set (seen w) \<subseteq> set (seen w') \<Longrightarrow> sound ic w' k a v e"
  unfolding sound_def by blast

lemma all_soundD:
  assumes "all_sound ic w" "set (seen w) \<subseteq> set (seen w')"
  shows "threads (dd w) i = Running k a \<Longrightarrow> sound_stage ic w' k a (job_stage (jobs w i))"
    "Finished k a v p e t \<in> set (log (dd w)) \<Longrightarrow> sound ic w' k a v e"
    "threads (dd w) i = Returned k r \<Longrightarrow> \<exists>a. sound ic w' k a (Value r) (Err r)"
proof -
  assume "threads (dd w) i = Running k a"
  then have "sound_stage ic w k a (job_stage (jobs w i))" using assms(1) unfolding all_sound_def by blast
  then show "sound_stage ic w' k a (job_stage (jobs w i))"
    using sound_mono [OF _ assms(2), of ic k a] unfolding sound_stage_def by blast
next
  assume "Finished k a v p e t \<in> set (log (dd w))"
  then have "sound ic w k a v e" using assms(1) unfolding all_sound_def by blast
  then show "sound ic w' k a v e" using assms(2) by (rule sound_mono)
next
  assume "threads (dd w) i = Returned k r"
  then have "\<exists>a. sound ic w k a (Value r) (Err r)" using assms(1) unfolding all_sound_def by blast
  then show "\<exists>a. sound ic w' k a (Value r) (Err r)" using sound_mono [OF _ assms(2), of ic k] by blast
qed

lemma canceled_sound: "sound ic w k a (Value (canceled c)) (Err (canceled c))"
  using canceled_typed by (simp add: sound_def canceled_def)

lemma sound_asking: "sound_stage ic w k a Asking"
  by (simp add: sound_stage_def)

lemma sound_query: "sound_stage ic w k a (after_query call r)"
  by (cases r) (auto simp: sound_stage_def sound_def well_typed_def Let_def)

lemma sound_change:
  assumes "Mutate net ic rid (ac_Action call) (ac_VMID call) h = (r, h')" "0 \<le> ac_VMID call" "k = action_key call"
    and "\<And>x. x \<in> set (drop (length h) h') \<Longrightarrow> Sent a x t \<in> set (seen w)"
  shows "sound_stage ic w k a (Replying (after_change call r))"
proof (cases r)
  case (Inr res)
  obtain req resp where s: "h' = h @ [(req, Answer resp)]" "StatusCode resp = 202" "req_Method req = ''POST''"
    "req_URL req = ic_baseURL ic @ vm_path (ac_VMID call) @ ''/'' @ ac_Action call"
    using client.mutate_accepted [OF assms(1) [unfolded Inr]] by blast
  then have "Sent a (req, Answer resp) t \<in> set (seen w)" "change_of ic call (req, Answer resp)" "accepted (req, Answer resp)"
    using assms(2,4) by (simp_all add: change_of_def accepted_def)
  then show ?thesis using assms(3) Inr by (auto simp: sound_stage_def sound_def well_typed_def)
qed (auto simp: sound_stage_def sound_def well_typed_def)

lemma all_sound_quiet:
  assumes "results_ok (dd w)" "all_sound ic w" and quiet: "quiet q" "play q (dd w) = Some s" "w' = w\<lparr>dd := s\<rparr>"
  shows "all_sound ic w'"
proof -
  note q = quiet_play [OF quiet(1,2)]
  have s: "set (seen w) \<subseteq> set (seen w')" using quiet(3) by simp
  show ?thesis
  proof (rule all_soundI)
    fix i k r
    assume "threads (dd w') i = Returned k r"
    then consider "threads (dd w) i = Returned k r" | e where "r = canceled (Ended e)"
      | a where "threads (dd w) i = Waiting k a" "e_done (heap (store (dd w)) ! a)" "r = waited a (store (dd w))"
      using q(4) [of i k r] quiet(3) by auto
    then show "\<exists>a. sound ic w' k a (Value r) (Err r)"
    proof cases
      case 3
      then show ?thesis
        using results_okD(2) [OF assms(1)] all_soundD(2) [OF assms(2) s] unfolding came_from_def
        by (metis DoResult.select_convs(1,2) waited_def)
    next
      case (2 e)
      then show ?thesis using canceled_sound by blast
    qed (use all_soundD(3) [OF assms(2) s] in blast)
  qed (use q quiet(3) all_soundD [OF assms(2) s] in auto)
qed

lemma all_sound_conclude:
  assumes "all_sound ic w"
    and conclude: "threads (dd w) i = Running k a" "job_stage (jobs w i) = Leaving (v, p, e)"
      "play (Finish i v p e) (dd w) = Some s" "w' = w\<lparr>dd := s\<rparr>"
  shows "all_sound ic w'"
proof -
  note f = finish_play [OF conclude(3,1)]
  have s: "set (seen w) \<subseteq> set (seen w')" using conclude(4) by simp
  have ve: "sound ic w' k a v e"
    using all_soundD(1) [OF assms(1) s conclude(1)] conclude(2) by (simp add: sound_stage_def)
  show ?thesis
  proof (rule all_soundI)
    fix j l b
    assume "threads (dd w') j = Running l b"
    then show "sound_stage ic w' l b (job_stage (jobs w' j))"
      using conclude(4) f(1) [of j] f(2) all_soundD(1) [OF assms(1) s, of j] by (cases "j = i") auto
  next
    fix l b v' p' e' t
    assume "Finished l b v' p' e' t \<in> set (log (dd w'))"
    then show "sound ic w' l b v' e'" using conclude(4) f(4) ve all_soundD(2) [OF assms(1) s] by auto
  next
    fix j l r
    assume "threads (dd w') j = Returned l r"
    then show "\<exists>a. sound ic w' l a (Value r) (Err r)"
      using conclude(4) f(1) [of j] f(2) ve all_soundD(3) [OF assms(1) s, of j] by (cases "j = i") (auto simp: ran_def)
  qed
qed

lemma all_sound_advance:
  assumes "advance ic m w = Some w'" "results_ok (dd w)" "jobs_ok w" "all_sound ic w"
  shows "all_sound ic w'"
  using assms(1)
proof (cases rule: advance_cases)
  case (quiet q s)
  show ?thesis by (rule all_sound_quiet [OF assms(2,4) quiet(2-4)])
next
  case (arrive i rid call s)
  note e = enter_play [OF arrive(3)]
  have s: "set (seen w) \<subseteq> set (seen w')" using arrive(4) by simp
  show ?thesis
  proof (rule all_soundI)
    fix j k a
    assume "threads (dd w') j = Running k a"
    then show "sound_stage ic w' k a (job_stage (jobs w' j))"
      using arrive(4) e(1) [of j] all_soundD(1) [OF assms(4) s, of j] sound_asking by (cases "j = i") auto
  next
    fix k a v p e' t
    assume "Finished k a v p e' t \<in> set (log (dd w'))"
    then show "sound ic w' k a v e'" using arrive(4) e(5) all_soundD(2) [OF assms(4) s] by auto
  next
    fix j k r
    assume "threads (dd w') j = Returned k r"
    then show "\<exists>a. sound ic w' k a (Value r) (Err r)"
      using arrive(4) e(1) [of j] e(7) [of k r] all_soundD(3) [OF assms(4) s, of j] by (cases "j = i") auto
  qed
next
  case (conclude i k a v p e s)
  show ?thesis by (rule all_sound_conclude [OF assms(4) conclude(2-5)])
next
  case (query i net k a r h)
  then have s: "set (seen w) \<subseteq> set (seen w')" by simp
  show ?thesis
    by (rule all_soundI) (use query all_soundD [OF assms(4) s] sound_query in \<open>auto split: if_splits\<close>)
next
  case (change i net k a r h)
  let ?call = "job_call (jobs w i)"
  have k: "k = action_key ?call" "0 \<le> ac_VMID ?call" using assms(3) change(2) unfolding jobs_ok_def by blast+
  from change have s: "set (seen w) \<subseteq> set (seen w')" by simp
  have "sound_stage ic w' k a (Replying (after_change ?call r))"
    by (rule sound_change [OF change(4) k(2,1)]) (use change(5) in auto)
  then show ?thesis
    by (intro all_soundI) (use change all_soundD [OF assms(4) s] in \<open>auto split: if_splits\<close>)
next
  case (reply i k a x)
  then have s: "set (seen w) \<subseteq> set (seen w')" by auto
  have "sound_stage ic w' k a (Leaving x)"
    using all_soundD(1) [OF assms(4) s reply(2)] reply(3) by (simp add: sound_stage_def)
  then show ?thesis
    by (intro all_soundI) (use reply all_soundD [OF assms(4) s] in \<open>auto split: if_splits\<close>)
qed

lemma crowded_sound: "crowded ic cfg w \<Longrightarrow> all_sound ic w"
proof (induction rule: crowded.induct)
  case (nobody js t h)
  show ?case by (simp add: empty_crowd_def initial_def all_sound_def)
next
  case (advanced w m w')
  then show ?case
    using all_sound_advance reachable_ok [OF crowded_reachable [OF advanced(1)]] crowded_ok [OF advanced(1)] by blast
qed

text \<open>
  However the goroutines interleave, none of them panics when it turns what the store gave it
  into its answer; and an answer that says that the action was executed is backed by a change
  for this very action and VM that was sent and accepted.
\<close>

lemma crowd_answers_are_true:
  assumes "crowded ic cfg w" "threads (dd w) i = Returned (action_key call) r"
  shows "answer cfg env call ws r \<noteq> Panic \<and>
    (\<forall>resp. answer cfg env call ws r = Completed (Inr resp) \<longrightarrow> gm_Executed (rb_XGranite resp) \<longrightarrow>
       (\<exists>a x t c. Sent a x t \<in> set (seen w) \<and> action_key c = action_key call \<and> change_of ic c x \<and> accepted x))"
proof -
  obtain a where s: "sound ic w (action_key call) a (Value r) (Err r)"
    using crowded_sound [OF assms(1)] assms(2) unfolding all_sound_def by blast
  then have "answer cfg env call ws r \<noteq> Panic" by (intro answer_not_Panic) (simp add: sound_def)
  moreover have "\<exists>ex. Value r = Some (AnExecution ex) \<and> Err r = None \<and> ex_Executed ex"
    if "answer cfg env call ws r = Completed (Inr resp)" "gm_Executed (rb_XGranite resp)" for resp
    using that by (auto simp: answer_def NewResponse_def split: option.splits any_value.splits any_error.splits)
  ultimately show ?thesis using s unfolding sound_def by blast
qed

section \<open>A concrete job\<close>

text \<open>The exchanges of a request to start the VM 3052.\<close>

definition sample_jobs :: "nat \<Rightarrow> job" where
  "sample_jobs i = \<lparr>job_rid = '''', job_call = start_3052, job_stage = Asking\<rparr>"

definition sent_start :: exchange where "sent_start = (sample_change, json_response 202 '''')"
definition asked_start :: exchange where "asked_start = (sample_query, json_response 200 vm_3052)"

end
