(* ===== verification/Traffic.thy ===== *)
theory Traffic
  imports Server Concurrent
begin

text \<open>
  The whole server with many requests under way: every request has a goroutine of its own, which
  goes through the routes, the middleware and the checks, asks the model, checks its call, and
  then queries a VM or goes through the store of the deduplication (the theory Concurrent). A
  goroutine is cut at its exchanges with the network and at the critical sections of the store;
  between two of its moves the others and the clock go on. A request that is alone goes through
  the same moves as in the theory Server.
\<close>

section \<open>The way to the service and back\<close>

text \<open>
  What the front of the server does with a request: nothing (no route), a response, or a call of
  the service. It is the function \<open>serve\<close> with a service that only notes its call.
\<close>

definition front ::
  "(string \<Rightarrow> 'd) \<Rightarrow> ServiceContext \<Rightarrow> server_env \<Rightarrow> ServerRequest \<Rightarrow> (written + string \<times> ChatCompletionRequest) option"
where
  "front sha256 ctx env r =
    (case serve sha256 (APIKey (sctx_Config ctx)) (sctx_Service ctx) (Service_Ready (Some (Manager_Ready (se_manager env))))
            (\<lambda>requestID input called. (Panic, Some (requestID, input))) (se_random env) r None of
       None \<Rightarrow> None
     | Some (w, None) \<Rightarrow> Some (Inl w)
     | Some (w, Some call) \<Rightarrow> Some (Inr call))"

text \<open>What the chat handler writes for the result of the service.\<close>

definition reply_to :: "server_env \<Rightarrow> ServerRequest \<Rightarrow> completion \<Rightarrow> written" where
  "reply_to env r c = fst (ChatCompletions (\<lambda>requestID input called. (c, called)) (se_random env) r ())"

lemma front_calls:
  "front sha256 ctx env r = Some (Inr (rid, input)) \<longleftrightarrow>
    sr_Method r = ''POST'' \<and> sr_Path r = ''/v1/chat/completions'' \<and>
    BearerAuth sha256 (APIKey (sctx_Config ctx)) (se_random env) r = None \<and>
    rid = FromRequest (se_random env) r \<and>
    DecodeJSON dec_ChatCompletionRequest zero_request r maxChatRequestBytes = Inr input"
proof (cases "route_of (sr_Method r) (sr_Path r)")
  case None
  then have "\<not> (sr_Method r = ''POST'' \<and> sr_Path r = ''/v1/chat/completions'')"
    by (auto simp: route_of_def routes_def)
  then show ?thesis using None by (auto simp: front_def serve_def)
next
  case (Some pe)
  obtain protected e where pe: "pe = (protected, e)" by (cases pe)
  note rc = route_chat [OF Some [unfolded pe]]
  show ?thesis
    using Some pe rc
    by (cases e) (auto simp: front_def serve_def ChatCompletions_def Let_def split: option.splits sum.splits if_splits)
qed

text \<open>A request that is handled in one go, in these terms.\<close>

lemma handle_front:
  "handle sha256 ctx env r s =
    (case front sha256 ctx env r of
       None \<Rightarrow> None
     | Some (Inl w) \<Rightarrow> Some (w, s)
     | Some (Inr (rid, input)) \<Rightarrow>
         (case chat_service ctx env rid input s of (c, s') \<Rightarrow> Some (reply_to env r c, s')))"
proof (cases "route_of (sr_Method r) (sr_Path r)")
  case None
  then show ?thesis by (simp add: handle_def front_def serve_def)
next
  case (Some pe)
  obtain protected e where pe: "pe = (protected, e)" by (cases pe)
  show ?thesis
  proof (cases "if protected then BearerAuth sha256 (APIKey (sctx_Config ctx)) (se_random env) r else None")
    case (Some x)
    then show ?thesis using \<open>route_of _ _ = Some pe\<close> pe by (simp add: handle_def front_def serve_def)
  next
    case n: None
    show ?thesis
    proof (cases "e = ChatEndpoint")
      case False
      then show ?thesis using Some pe n by (cases e) (simp_all add: handle_def front_def serve_def)
    next
      case True
      show ?thesis
      proof (cases "DecodeJSON dec_ChatCompletionRequest zero_request r maxChatRequestBytes")
        case (Inl err)
        then show ?thesis using Some pe n True by (simp add: handle_def front_def serve_def ChatCompletions_def Let_def)
      next
        case (Inr input)
        obtain c s' where c: "chat_service ctx env (FromRequest (se_random env) r) input s = (c, s')"
          by (cases "chat_service ctx env (FromRequest (se_random env) r) input s")
        have "handle sha256 ctx env r s = Some (ChatCompletions (chat_service ctx env) (se_random env) r s)"
          using Some pe n True by (simp add: handle_def serve_def)
        moreover have "front sha256 ctx env r = Some (Inr (FromRequest (se_random env) r, input))"
          using Some pe n True Inr by (simp add: front_def serve_def ChatCompletions_def Let_def)
        moreover have "ChatCompletions (chat_service ctx env) (se_random env) r s = (reply_to env r c, s')"
          using c Inr by (auto simp: ChatCompletions_def reply_to_def Let_def split: completion.splits sum.splits option.splits)
        ultimately show ?thesis using c by simp
      qed
    qed
  qed
qed

section \<open>Goroutines for requests\<close>

record visit =
  vi_env :: server_env
  vi_request :: ServerRequest
  vi_id :: string
  vi_input :: ChatCompletionRequest

text \<open>
  A request has been answered in front of the service; has passed the checks before the model;
  has a call that passed the check, with its warnings; is with that in the store; or has its
  result from the service.
\<close>

datatype desk =
    Vacant
  | TurnedAway written
  | Choosing visit Input
  | Chosen visit ActionCall "string list"
  | InStore visit ActionCall "string list"
  | Served visit completion

definition written_at :: "desk \<Rightarrow> written option" where
  "written_at d =
    (case d of
       TurnedAway x \<Rightarrow> Some x
     | Served v c \<Rightarrow> Some (reply_to (vi_env v) (vi_request v) c)
     | _ \<Rightarrow> None)"

text \<open>\<open>taken\<close> are the requests that came so far, the newest first.\<close>

record traffic =
  inner :: crowd
  desks :: "nat \<Rightarrow> desk"
  taken :: "(server_env \<times> ServerRequest) list"

datatype traffic_move =
    Receive nat server_env ServerRequest
  | Consult nat network
  | Look nat network
  | Submit nat
  | Inside crowd_move
  | Respond nat

definition call_env_of :: "server_env \<Rightarrow> call_env" where
  "call_env_of env = (se_call env)\<lparr>ce_ready := Service_Ready (Some (Manager_Ready (se_manager env)))\<rparr>"

definition to_desk :: "nat \<Rightarrow> desk \<Rightarrow> traffic \<Rightarrow> traffic" where
  "to_desk i d w = w\<lparr>desks := (desks w)(i := d)\<rparr>"

text \<open>The pieces of \<open>Complete\<close>: what follows the checks, and what follows the model.\<close>

fun after_checks :: "visit \<Rightarrow> apierror + Input \<Rightarrow> desk" where
  "after_checks v (Inl err) = Served v (Completed (Inl err))"
| "after_checks v (Inr input) = Choosing v input"

definition after_model :: "ServiceContext \<Rightarrow> visit \<Rightarrow> Input \<Rightarrow> apierror + ToolCall \<Rightarrow> desk" where
  "after_model ctx v input r =
    (case andThen r (\<lambda>call. ValidateToolCall (ce_order1 (call_env_of (vi_env v))) (ce_order2 (call_env_of (vi_env v)))
                       input call (sc_AllowForceStop (sctx_Service ctx))) of
       Inl err \<Rightarrow> Served v (Completed (Inl err))
     | Inr call \<Rightarrow> Chosen v call (in_Warnings input))"

text \<open>The moves of the store are the crowd's, but a goroutine serves one request only.\<close>

fun inside :: "crowd_move \<Rightarrow> bool" where
  "inside (Arrive i rid call) = False"
| "inside (Quiet m) = (case m of Again i \<Rightarrow> False | _ \<Rightarrow> True)"
| "inside _ = True"

fun go :: "(string \<Rightarrow> 'd) \<Rightarrow> ServiceContext \<Rightarrow> traffic_move \<Rightarrow> traffic \<Rightarrow> traffic option" where
  "go sha256 ctx (Receive i env r) w =
    (case desks w i of
       Vacant \<Rightarrow>
         (case front sha256 ctx env r of
            None \<Rightarrow> None
          | Some (Inl x) \<Rightarrow> Some (to_desk i (TurnedAway x) (w\<lparr>taken := (env, r) # taken w\<rparr>))
          | Some (Inr (rid, input)) \<Rightarrow>
              Some (to_desk i
                (after_checks \<lparr>vi_env = env, vi_request = r, vi_id = rid, vi_input = input\<rparr>
                  (prepare (sctx_Service ctx) (call_env_of env) input))
                (w\<lparr>taken := (env, r) # taken w\<rparr>)))
     | _ \<Rightarrow> None)"
| "go sha256 ctx (Consult i net) w =
    (case desks w i of
       Choosing v input \<Rightarrow>
         (case Select net (sctx_Model ctx) (in_Original input) (GraniteTools (sc_AllowForceStop (sctx_Service ctx)))
                 (hist (inner w)) of
            (r, h) \<Rightarrow> Some (to_desk i (after_model ctx v input r) (w\<lparr>inner := (inner w)\<lparr>hist := h\<rparr>\<rparr>)))
     | _ \<Rightarrow> None)"
| "go sha256 ctx (Look i net) w =
    (case desks w i of
       Chosen v call ws \<Rightarrow>
         if ac_Action call = ActionGet then
           (case perform (GetVM net (sctx_Infra ctx)) (Mutate net (sctx_Infra ctx)) (sctx_Service ctx)
                   (call_env_of (vi_env v)) (vi_id v) call ws (store (dd (inner w))) (hist (inner w)) of
              (c, st, h) \<Rightarrow> Some (to_desk i (Served v c) (w\<lparr>inner := (inner w)\<lparr>hist := h\<rparr>\<rparr>)))
         else None
     | _ \<Rightarrow> None)"
| "go sha256 ctx (Submit i) w =
    (case desks w i of
       Chosen v call ws \<Rightarrow>
         if ac_Action call = ActionGet then None
         else map_option (\<lambda>c. to_desk i (InStore v call ws) (w\<lparr>inner := c\<rparr>))
                (advance (sctx_Infra ctx) (Arrive i (vi_id v) call) (inner w))
     | _ \<Rightarrow> None)"
| "go sha256 ctx (Inside m) w =
    (if inside m then map_option (\<lambda>c. w\<lparr>inner := c\<rparr>) (advance (sctx_Infra ctx) m (inner w)) else None)"
| "go sha256 ctx (Respond i) w =
    (case desks w i of
       InStore v call ws \<Rightarrow>
         (case threads (dd (inner w)) i of
            Returned k r \<Rightarrow>
              Some (to_desk i
                (Served v (answer (sctx_Service ctx) (call_env_of (vi_env v)) call ws r)) w)
          | _ \<Rightarrow> None)
     | _ \<Rightarrow> None)"

text \<open>Nobody is there yet. The iterations over the table of the actions visit every action.\<close>

definition no_traffic :: "ServiceContext \<Rightarrow> (nat \<Rightarrow> job) \<Rightarrow> time \<Rightarrow> history \<Rightarrow> traffic" where
  "no_traffic ctx js t h = \<lparr>inner = empty_crowd (sctx_Service ctx) js t h, desks = (\<lambda>i. Vacant), taken = []\<rparr>"

fun orderly :: "traffic_move \<Rightarrow> bool" where
  "orderly (Receive i env r) \<longleftrightarrow>
    set (ce_order1 (se_call env)) = set actions \<and> set (ce_order2 (se_call env)) = set actions"
| "orderly _ \<longleftrightarrow> True"

inductive under_way :: "(string \<Rightarrow> 'd) \<Rightarrow> ServiceContext \<Rightarrow> traffic \<Rightarrow> bool" for sha256 ctx where
  quiet_server: "under_way sha256 ctx (no_traffic ctx js t h)"
| moved: "under_way sha256 ctx w \<Longrightarrow> orderly m \<Longrightarrow> go sha256 ctx m w = Some w' \<Longrightarrow> under_way sha256 ctx w'"

lemma go_cases:
  assumes "go sha256 ctx m w = Some w'"
  obtains (turned_away) i env r x where "m = Receive i env r" "desks w i = Vacant" "front sha256 ctx env r = Some (Inl x)"
      "w' = to_desk i (TurnedAway x) (w\<lparr>taken := (env, r) # taken w\<rparr>)"
  | (taken) i env r rid input v where "m = Receive i env r" "desks w i = Vacant"
      "front sha256 ctx env r = Some (Inr (rid, input))" "v = \<lparr>vi_env = env, vi_request = r, vi_id = rid, vi_input = input\<rparr>"
      "w' = to_desk i (after_checks v (prepare (sctx_Service ctx) (call_env_of env) input)) (w\<lparr>taken := (env, r) # taken w\<rparr>)"
  | (consulted) i net v input r h where "m = Consult i net" "desks w i = Choosing v input"
      "Select net (sctx_Model ctx) (in_Original input) (GraniteTools (sc_AllowForceStop (sctx_Service ctx))) (hist (inner w)) = (r, h)"
      "w' = to_desk i (after_model ctx v input r) (w\<lparr>inner := (inner w)\<lparr>hist := h\<rparr>\<rparr>)"
  | (looked) i net v call ws c st h where "m = Look i net" "desks w i = Chosen v call ws" "ac_Action call = ActionGet"
      "perform (GetVM net (sctx_Infra ctx)) (Mutate net (sctx_Infra ctx)) (sctx_Service ctx)
         (call_env_of (vi_env v)) (vi_id v) call ws (store (dd (inner w))) (hist (inner w)) = (c, st, h)"
      "w' = to_desk i (Served v c) (w\<lparr>inner := (inner w)\<lparr>hist := h\<rparr>\<rparr>)"
  | (submitted) i v call ws c where "m = Submit i" "desks w i = Chosen v call ws" "ac_Action call \<noteq> ActionGet"
      "advance (sctx_Infra ctx) (Arrive i (vi_id v) call) (inner w) = Some c"
      "w' = to_desk i (InStore v call ws) (w\<lparr>inner := c\<rparr>)"
  | (within) q c where "m = Inside q" "inside q" "advance (sctx_Infra ctx) q (inner w) = Some c" "w' = w\<lparr>inner := c\<rparr>"
  | (responded) i v call ws k r where "m = Respond i" "desks w i = InStore v call ws"
      "threads (dd (inner w)) i = Returned k r"
      "w' = to_desk i (Served v (answer (sctx_Service ctx) (call_env_of (vi_env v)) call ws r)) w"
proof (cases m)
  case (Receive i env r)
  then show ?thesis using assms turned_away taken
    by (auto split: desk.splits option.splits sum.splits)
next
  case (Consult i net)
  then show ?thesis using assms consulted by (auto split: desk.splits prod.splits)
next
  case (Look i net)
  then show ?thesis using assms looked by (auto split: desk.splits prod.splits if_splits)
next
  case (Submit i)
  then show ?thesis using assms submitted by (auto split: desk.splits if_splits simp del: advance.simps)
next
  case (Inside q)
  then show ?thesis using assms within by (auto split: if_splits)
next
  case (Respond i)
  then show ?thesis using assms responded by (auto split: desk.splits thread.splits)
qed

section \<open>What is known of a goroutine\<close>

text \<open>The calls that some request that came was checked to ask for.\<close>

definition checked :: "(string \<Rightarrow> 'd) \<Rightarrow> ServiceContext \<Rightarrow> visit \<Rightarrow> Input \<Rightarrow> bool" where
  "checked sha256 ctx v input \<longleftrightarrow>
    set (ce_order1 (se_call (vi_env v))) = set actions \<and> set (ce_order2 (se_call (vi_env v))) = set actions \<and>
    front sha256 ctx (vi_env v) (vi_request v) = Some (Inr (vi_id v, vi_input v)) \<and>
    prepare (sctx_Service ctx) (call_env_of (vi_env v)) (vi_input v) = Inr input"

definition permits :: "(string \<Rightarrow> 'd) \<Rightarrow> ServiceContext \<Rightarrow> visit \<Rightarrow> ActionCall \<Rightarrow> bool" where
  "permits sha256 ctx v call \<longleftrightarrow>
    (\<exists>input tc. checked sha256 ctx v input \<and>
       ValidateToolCall (ce_order1 (call_env_of (vi_env v))) (ce_order2 (call_env_of (vi_env v))) input tc
         (sc_AllowForceStop (sctx_Service ctx)) = Inr call)"

definition came :: "traffic \<Rightarrow> visit \<Rightarrow> bool" where
  "came w v \<longleftrightarrow> (vi_env v, vi_request v) \<in> set (taken w)"

definition asked_by_someone :: "(string \<Rightarrow> 'd) \<Rightarrow> ServiceContext \<Rightarrow> traffic \<Rightarrow> ActionCall \<Rightarrow> bool" where
  "asked_by_someone sha256 ctx w call \<longleftrightarrow> (\<exists>v. came w v \<and> permits sha256 ctx v call)"

fun desk_ok :: "(string \<Rightarrow> 'd) \<Rightarrow> ServiceContext \<Rightarrow> traffic \<Rightarrow> nat \<Rightarrow> desk \<Rightarrow> bool" where
  "desk_ok sha256 ctx w i (Choosing v input) \<longleftrightarrow> came w v \<and> checked sha256 ctx v input"
| "desk_ok sha256 ctx w i (Chosen v call ws) \<longleftrightarrow> came w v \<and> permits sha256 ctx v call"
| "desk_ok sha256 ctx w i (InStore v call ws) \<longleftrightarrow> came w v \<and> permits sha256 ctx v call \<and>
    threads (dd (inner w)) i \<noteq> Idle \<and> job_call (jobs (inner w) i) = call"
| "desk_ok sha256 ctx w i _ \<longleftrightarrow> True"

text \<open>Every goroutine in the store and every change that was sent is for a call that was asked for.\<close>

definition traffic_ok :: "(string \<Rightarrow> 'd) \<Rightarrow> ServiceContext \<Rightarrow> traffic \<Rightarrow> bool" where
  "traffic_ok sha256 ctx w \<longleftrightarrow>
    (\<forall>i. desk_ok sha256 ctx w i (desks w i)) \<and>
    (\<forall>i. threads (dd (inner w)) i \<noteq> Idle \<longrightarrow> asked_by_someone sha256 ctx w (job_call (jobs (inner w) i))) \<and>
    (\<forall>a x t. Sent a x t \<in> set (seen (inner w)) \<longrightarrow>
       (\<exists>call. asked_by_someone sha256 ctx w call \<and> change_of (sctx_Infra ctx) call x))"

lemma traffic_okI:
  assumes "\<And>i. desk_ok sha256 ctx w i (desks w i)"
    "\<And>i. threads (dd (inner w)) i \<noteq> Idle \<Longrightarrow> asked_by_someone sha256 ctx w (job_call (jobs (inner w) i))"
    "\<And>a x t. Sent a x t \<in> set (seen (inner w)) \<Longrightarrow>
       \<exists>call. asked_by_someone sha256 ctx w call \<and> change_of (sctx_Infra ctx) call x"
  shows "traffic_ok sha256 ctx w"
  using assms unfolding traffic_ok_def by blast

lemma traffic_okD:
  assumes "traffic_ok sha256 ctx w"
  shows "desk_ok sha256 ctx w i (desks w i)"
    "threads (dd (inner w)) i \<noteq> Idle \<Longrightarrow> asked_by_someone sha256 ctx w (job_call (jobs (inner w) i))"
    "Sent a x t \<in> set (seen (inner w)) \<Longrightarrow> \<exists>call. asked_by_someone sha256 ctx w call \<and> change_of (sctx_Infra ctx) call x"
  using assms unfolding traffic_ok_def by blast+

lemma to_desk_simps [simp]:
  "inner (to_desk i d w) = inner w" "taken (to_desk i d w) = taken w"
  "desks (to_desk i d w) j = (if j = i then d else desks w j)"
  by (simp_all add: to_desk_def)

lemma came_mono: "came w v \<Longrightarrow> set (taken w) \<subseteq> set (taken w') \<Longrightarrow> came w' v"
  unfolding came_def by blast

lemma asked_mono:
  "asked_by_someone sha256 ctx w call \<Longrightarrow> set (taken w) \<subseteq> set (taken w') \<Longrightarrow> asked_by_someone sha256 ctx w' call"
  unfolding asked_by_someone_def using came_mono by blast

lemma desk_mono:
  assumes "desk_ok sha256 ctx w i d" "set (taken w) \<subseteq> set (taken w')"
    and "threads (dd (inner w)) i \<noteq> Idle \<Longrightarrow> threads (dd (inner w')) i \<noteq> Idle \<and>
      job_call (jobs (inner w') i) = job_call (jobs (inner w) i)"
  shows "desk_ok sha256 ctx w' i d"
  using assms came_mono [OF _ assms(2)] by (cases d) auto

text \<open>What the moves of the crowd leave as it is.\<close>

fun key_of :: "('v, 'e) thread \<Rightarrow> string option" where
  "key_of Idle = None"
| "key_of (Waiting k a) = Some k"
| "key_of (Running k a) = Some k"
| "key_of (Returned k r) = Some k"

lemma key_of_None [simp]: "key_of t = None \<longleftrightarrow> t = Idle"
  by (cases t) auto

lemma quiet_key:
  assumes "play q s = Some s'" "quiet q"
  shows "threads s' i = Idle \<and> (\<exists>j. q = Again j) \<or> key_of (threads s' i) = key_of (threads s i)"
  using assms by (cases q; auto split: thread.splits if_splits)

lemma key_advance:
  assumes "advance ic m c = Some c'"
  obtains (same) "key_of (threads (dd c') i) = key_of (threads (dd c) i)" "job_call (jobs c' i) = job_call (jobs c i)"
  | (again) j where "m = Quiet (Again j)" "threads (dd c') i = Idle"
  | (arrived) rid call where "m = Arrive i rid call" "job_call (jobs c' i) = call"
      "threads (dd c') i = Idle \<or> key_of (threads (dd c') i) = Some (action_key call)"
  using assms
proof (cases rule: advance_cases)
  case (quiet q s)
  then show ?thesis using quiet_key [of q "dd c" s i] same again by auto
next
  case (arrive j rid call s)
  show ?thesis
  proof (cases "j = i")
    case True
    then have "threads s i = Idle \<or> key_of (threads s i) = Some (action_key call)"
      using arrive(3) by (auto split: thread.splits prod.splits entered.splits)
    then show ?thesis using arrived [of rid call] arrive True by simp
  next
    case False
    then show ?thesis using same enter_play(1) [OF arrive(3), of i] arrive(4) by simp
  qed
next
  case (conclude j k a v p e s)
  note f = finish_play [OF conclude(4,2)]
  show ?thesis using conclude f(1) [of i] f(2) same by (cases "i = j") auto
qed (use same in simp_all)

lemma inside_advance:
  assumes "advance ic m c = Some c'" "inside m"
  shows "key_of (threads (dd c') i) = key_of (threads (dd c) i) \<and> job_call (jobs c' i) = job_call (jobs c i)"
  using assms(1) by (cases rule: key_advance [where i = i]) (use assms(2) in auto)

lemma inside_idle:
  assumes "advance ic m c = Some c'" "inside m"
  shows "threads (dd c') i = Idle \<longleftrightarrow> threads (dd c) i = Idle"
  using inside_advance [OF assms, of i] key_of_None by metis

lemma advance_sent:
  assumes "advance ic m c = Some c'" "jobs_ok c" "Sent a x t \<in> set (seen c')"
  shows "Sent a x t \<in> set (seen c) \<or>
    (\<exists>i. threads (dd c) i \<noteq> Idle \<and> change_of ic (job_call (jobs c i)) x)"
  using assms(1)
proof (cases rule: advance_cases)
  case (change i net k b r h)
  then have "0 \<le> ac_VMID (job_call (jobs c i))" using assms(2) unfolding jobs_ok_def by blast
  with change(4) show ?thesis
  proof (cases rule: Mutate_sends)
    case (yes y)
    then have "Sent a x t \<in> set (seen c) \<or> change_of ic (job_call (jobs c i)) x" using assms(3) change(5) by auto
    moreover have "threads (dd c) i \<noteq> Idle" using change(2) by simp
    ultimately show ?thesis by blast
  qed (use assms(3) change(5) in simp)
qed (use assms(3) in auto)

lemma arrive_advance:
  assumes "advance ic (Arrive i rid call) c = Some c'"
  shows "threads (dd c) i = Idle" "seen c' = seen c" "hist c' = hist c" "0 \<le> ac_VMID call"
    "jobs c' = (jobs c)(i := \<lparr>job_rid = rid, job_call = call, job_stage = Asking\<rparr>)"
    "j \<noteq> i \<Longrightarrow> threads (dd c') j = threads (dd c) j" "threads (dd c') i \<noteq> Idle"
    "play (Enter i (action_key call)) (dd c) = Some (dd c')"
proof -
  obtain s where s: "0 \<le> ac_VMID call" "play (Enter i (action_key call)) (dd c) = Some s"
    "c' = c\<lparr>dd := s, jobs := (jobs c)(i := \<lparr>job_rid = rid, job_call = call, job_stage = Asking\<rparr>)\<rparr>"
    using assms by (auto split: if_splits)
  show "threads (dd c) i = Idle" "j \<noteq> i \<Longrightarrow> threads (dd c') j = threads (dd c) j"
    using enter_play(1,2) [OF s(2)] s(3) by simp_all
  show "threads (dd c') i \<noteq> Idle" using s(2,3) by (auto split: thread.splits prod.splits entered.splits)
qed (use assms in \<open>auto split: if_splits\<close>)

lemma permits_asked: "permits sha256 ctx v call \<Longrightarrow> came w v \<Longrightarrow> asked_by_someone sha256 ctx w call"
  unfolding asked_by_someone_def by blast

lemma after_checks_ok:
  assumes "came w v" "\<And>input. r = Inr input \<Longrightarrow> checked sha256 ctx v input"
  shows "desk_ok sha256 ctx w i (after_checks v r)"
  using assms by (cases r) auto

lemma after_model_ok:
  assumes "checked sha256 ctx v input" "came w v"
  shows "desk_ok sha256 ctx w i (after_model ctx v input r)"
  using assms by (auto simp: after_model_def permits_def andThen_def split: sum.splits)

lemma traffic_ok_other:
  assumes "traffic_ok sha256 ctx w" "inner w' = inner w \<or> (\<exists>h. inner w' = (inner w)\<lparr>hist := h\<rparr>)"
    and "set (taken w) \<subseteq> set (taken w')" "\<And>j. j \<noteq> i \<Longrightarrow> desks w' j = desks w j"
    and "desk_ok sha256 ctx w' i (desks w' i)"
  shows "traffic_ok sha256 ctx w'"
proof -
  have c: "dd (inner w') = dd (inner w)" "jobs (inner w') = jobs (inner w)" "seen (inner w') = seen (inner w)"
    using assms(2) by auto
  note ok = traffic_okD [OF assms(1)]
  show ?thesis
  proof (rule traffic_okI)
    fix j
    show "desk_ok sha256 ctx w' j (desks w' j)"
      using assms(4) [of j] assms(5) desk_mono [OF ok(1) assms(3)] c by (cases "j = i") auto
  qed (use ok(2,3) asked_mono [OF _ assms(3)] c in \<open>fastforce+\<close>)
qed

lemma traffic_ok_submit:
  assumes "traffic_ok sha256 ctx w"
    and submitted: "desks w i = Chosen v call ws" "ac_Action call \<noteq> ActionGet"
      "advance (sctx_Infra ctx) (Arrive i (vi_id v) call) (inner w) = Some c"
      "w' = to_desk i (InStore v call ws) (w\<lparr>inner := c\<rparr>)"
  shows "traffic_ok sha256 ctx w'"
proof -
  note ok = traffic_okD [OF assms(1)]
  note a = arrive_advance [OF submitted(3)]
  have p: "came w' v" "permits sha256 ctx v call" using ok(1) [of i] submitted(1,4) by (auto simp: came_def)
  have m: "set (taken w) \<subseteq> set (taken w')" using submitted(4) by simp
  show ?thesis
  proof (rule traffic_okI)
    fix j
    show "desk_ok sha256 ctx w' j (desks w' j)"
    proof (cases "j = i")
      case False
      then show ?thesis
        using desk_mono [OF ok(1) m, of j] submitted(4) a(5) a(6) [OF False] by simp
    qed (use p a submitted(4) in simp)
    show "asked_by_someone sha256 ctx w' (job_call (jobs (inner w') j))" if "threads (dd (inner w')) j \<noteq> Idle"
      using permits_asked [OF p(2,1)] asked_mono [OF ok(2) m, of j] that submitted(4) a(5) a(6) [of j]
      by (cases "j = i") auto
  next
    fix b x t
    assume "Sent b x t \<in> set (seen (inner w'))"
    then show "\<exists>call. asked_by_someone sha256 ctx w' call \<and> change_of (sctx_Infra ctx) call x"
      using ok(3) [of b x t] asked_mono [OF _ m] submitted(4) a(2) by auto
  qed
qed

lemma traffic_ok_go:
  assumes "go sha256 ctx m w = Some w'" "orderly m" "jobs_ok (inner w)" "traffic_ok sha256 ctx w"
  shows "traffic_ok sha256 ctx w'"
proof -
  note ok = traffic_okD [OF assms(4)]
  from assms(1) show ?thesis
  proof (cases rule: go_cases)
    case (turned_away i env r x)
    then show ?thesis by (intro traffic_ok_other [OF assms(4), where i = i]) auto
  next
    case (taken i env r rid input v)
    have "desk_ok sha256 ctx w' i (after_checks v (prepare (sctx_Service ctx) (call_env_of env) input))"
      by (rule after_checks_ok) (use taken assms(2) in \<open>auto simp: checked_def came_def\<close>)
    then show ?thesis using taken by (intro traffic_ok_other [OF assms(4), where i = i]) auto
  next
    case (consulted i net v input r h)
    have "came w' v" "checked sha256 ctx v input" using ok(1) [of i] consulted(2,4) by (auto simp: came_def)
    from after_model_ok [OF this(2,1)] show ?thesis
      using consulted(4) by (intro traffic_ok_other [OF assms(4), where i = i]) auto
  next
    case (looked i net v call ws c st h)
    then show ?thesis by (intro traffic_ok_other [OF assms(4), where i = i]) auto
  next
    case (submitted i v call ws c)
    show ?thesis by (rule traffic_ok_submit [OF assms(4) submitted(2-5)])
  next
    case (within q c)
    have m: "set (taken w) \<subseteq> set (taken w')" using within(4) by simp
    note ia = inside_advance [OF within(3,2)] inside_idle [OF within(3,2)]
    show ?thesis
    proof (rule traffic_okI)
      fix j
      show "desk_ok sha256 ctx w' j (desks w' j)"
        using desk_mono [OF ok(1) m, of j] within(4) ia [of j] by simp
      show "asked_by_someone sha256 ctx w' (job_call (jobs (inner w') j))" if "threads (dd (inner w')) j \<noteq> Idle"
        using asked_mono [OF ok(2) m, of j] that within(4) ia [of j] by simp
    next
      fix b x t
      assume "Sent b x t \<in> set (seen (inner w'))"
      then have "Sent b x t \<in> set (seen (inner w)) \<or>
          (\<exists>i. threads (dd (inner w)) i \<noteq> Idle \<and> change_of (sctx_Infra ctx) (job_call (jobs (inner w) i)) x)"
        using advance_sent [OF within(3) assms(3)] within(4) by simp
      then show "\<exists>call. asked_by_someone sha256 ctx w' call \<and> change_of (sctx_Infra ctx) call x"
        using ok(2,3) asked_mono [OF _ m] by metis
    qed
  next
    case (responded i v call ws k r)
    then show ?thesis by (intro traffic_ok_other [OF assms(4), where i = i]) auto
  qed
qed

section \<open>The crowd within\<close>

text \<open>What holds of the crowd by the theory Concurrent; none of it speaks about the history.\<close>

definition keys_ok :: "crowd \<Rightarrow> bool" where
  "keys_ok c \<longleftrightarrow> (\<forall>i k. key_of (threads (dd c) i) = Some k \<longrightarrow> k = action_key (job_call (jobs c i)))"

lemma keys_ok_advance:
  assumes "advance ic m c = Some c'" "keys_ok c"
  shows "keys_ok c'"
  unfolding keys_ok_def
proof (intro allI impI)
  fix i k
  assume k: "key_of (threads (dd c') i) = Some k"
  from assms(1) show "k = action_key (job_call (jobs c' i))"
    by (cases rule: key_advance [where i = i]) (use assms(2) k in \<open>auto simp: keys_ok_def\<close>)
qed

definition crowd_ok :: "ServiceContext \<Rightarrow> crowd \<Rightarrow> bool" where
  "crowd_ok ctx c \<longleftrightarrow> reachable (sc_DedupWindow (sctx_Service ctx)) (dd c) \<and> jobs_ok c \<and> sent_ok (sctx_Infra ctx) c \<and>
    deciding_ok (sctx_Infra ctx) c \<and> all_proper (sctx_Infra ctx) (sc_DedupWindow (sctx_Service ctx)) c \<and>
    all_sound (sctx_Infra ctx) c \<and> keys_ok c"

lemma crowd_ok_hist: "crowd_ok ctx c \<Longrightarrow> crowd_ok ctx (c\<lparr>hist := h\<rparr>)"
  by (simp add: crowd_ok_def jobs_ok_def sent_ok_def deciding_ok_def all_proper_def all_sound_def going_on_def over_def
      replied_def sound_stage_def sound_def keys_ok_def)

lemma crowd_ok_empty: "crowd_ok ctx (empty_crowd (sctx_Service ctx) js t h)"
proof -
  have c: "crowded (sctx_Infra ctx) (sctx_Service ctx) (empty_crowd (sctx_Service ctx) js t h)" by (rule crowded.nobody)
  have "keys_ok (empty_crowd (sctx_Service ctx) js t h)" by (simp add: keys_ok_def empty_crowd_def initial_def)
  then show ?thesis using crowded_reachable [OF c] crowded_ok [OF c] crowded_sound [OF c] by (simp add: crowd_ok_def)
qed

lemma advance_reachable:
  assumes "advance ic m c = Some c'" "reachable win (dd c)"
  shows "reachable win (dd c')"
  using assms(1) by (cases rule: advance_cases)
    (use assms(2) in \<open>auto simp del: play.simps dest: play_step intro: reachable.next_step\<close>)

lemma crowd_ok_advance:
  assumes "advance (sctx_Infra ctx) m c = Some c'" "crowd_ok ctx c"
  shows "crowd_ok ctx c'"
  using assms(2) advance_reachable [OF assms(1)] jobs_ok_advance [OF assms(1)] sent_ok_advance [OF assms(1)]
    deciding_ok_advance [OF assms(1)] all_proper_advance [OF assms(1)] all_sound_advance [OF assms(1)] keys_ok_advance [OF assms(1)] reachable_ok
  unfolding crowd_ok_def by blast

lemma crowd_ok_go:
  assumes "go sha256 ctx m w = Some w'" "crowd_ok ctx (inner w)"
  shows "crowd_ok ctx (inner w')"
  using assms(1)
  by (cases rule: go_cases) (use assms(2) crowd_ok_hist crowd_ok_advance in \<open>auto simp del: advance.simps\<close>)

lemma under_way_ok:
  assumes "under_way sha256 ctx w"
  shows "crowd_ok ctx (inner w) \<and> traffic_ok sha256 ctx w"
  using assms
proof (induction rule: under_way.induct)
  case (quiet_server js t h)
  have "traffic_ok sha256 ctx (no_traffic ctx js t h)"
    by (rule traffic_okI) (simp_all add: no_traffic_def empty_crowd_def initial_def)
  then show ?case using crowd_ok_empty by (simp add: no_traffic_def)
next
  case (moved w m w')
  then show ?case using crowd_ok_go traffic_ok_go [OF moved(3,2)] unfolding crowd_ok_def by blast
qed

section \<open>What is answered\<close>

text \<open>
  A result of the service that is no panic and can be streamed, and that says executed only if a
  change for its tool and its VM was sent and accepted.
\<close>

definition backed :: "ServiceContext \<Rightarrow> crowd \<Rightarrow> completion \<Rightarrow> bool" where
  "backed ctx c x \<longleftrightarrow> x \<noteq> Panic \<and>
    (\<forall>resp. x = Completed (Inr resp) \<longrightarrow> (\<forall>u. StreamEvents resp u \<noteq> None) \<and>
      (gm_Executed (rb_XGranite resp) \<longrightarrow>
        (\<exists>a y t action. Sent a y t \<in> set (seen c) \<and> accepted y \<and> req_Method (fst y) = ''POST'' \<and>
           req_URL (fst y) = ic_baseURL (sctx_Infra ctx) @ vm_path (gm_VMID (rb_XGranite resp)) @ ''/'' @ action \<and>
           gm_Tool (rb_XGranite resp) = ToolName (fst (Metadata action)))))"

definition all_backed :: "ServiceContext \<Rightarrow> traffic \<Rightarrow> bool" where
  "all_backed ctx w \<longleftrightarrow>
    (\<forall>i. (\<forall>x. desks w i = TurnedAway x \<longrightarrow> x \<noteq> HandlerPanic) \<and>
       (\<forall>v c. desks w i = Served v c \<longrightarrow> backed ctx (inner w) c))"

lemma backed_mono: "backed ctx c x \<Longrightarrow> set (seen c) \<subseteq> set (seen c') \<Longrightarrow> backed ctx c' x"
  unfolding backed_def by blast

lemma backed_error [simp]: "backed ctx c (Completed (Inl err))"
  by (simp add: backed_def)

lemma backed_query:
  assumes "ac_Action call = ActionGet" "perform get mutate cfg env rid call ws st h = (c, st', h')"
  shows "backed ctx cr c"
proof -
  have "c = Completed (Inl e) \<Longrightarrow> backed ctx cr c" for e by simp
  moreover obtain r h1 where g: "get rid (ac_VMID call) h = (r, h1)" by (cases "get rid (ac_VMID call) h")
  ultimately show ?thesis
    using assms by (cases r) (auto simp: perform_def backed_def StreamEvents_NewResponse [unfolded not_None_eq])
qed

lemma action_key_inj:
  assumes "0 \<le> ac_VMID c1" "0 \<le> ac_VMID c2" "action_key c1 = action_key c2"
  shows "ac_Action c1 = ac_Action c2 \<and> ac_VMID c1 = ac_VMID c2"
proof -
  have s: "\<not> is_digit CHR '':''" by code_simp
  have t: "takeWhile is_digit (rev (action_key c)) = rev (FormatInt (ac_VMID c))"
    "dropWhile is_digit (rev (action_key c)) = CHR '':'' # rev (ac_Action c)" if "0 \<le> ac_VMID c" for c
    using takeWhile_run [of is_digit "rev (FormatInt (ac_VMID c))" "CHR '':'' # rev (ac_Action c)"] FormatInt_digits [OF that] s
    by (simp_all add: list_all_iff action_key_def)
  have "FormatInt (ac_VMID c1) = FormatInt (ac_VMID c2)" using t(1) [OF assms(1)] t(1) [OF assms(2)] assms(3) by simp
  moreover have "ac_Action c1 = ac_Action c2" using t(2) [OF assms(1)] t(2) [OF assms(2)] assms(3) by simp
  ultimately show ?thesis using FormatInt_inj by simp
qed

lemma backed_answer:
  assumes "sound (sctx_Infra ctx) c (action_key call) a (Value r) (Err r)" "0 \<le> ac_VMID call"
  shows "backed ctx c (answer cfg env call ws r)"
proof -
  have p: "answer cfg env call ws r \<noteq> Panic" using assms(1) by (intro answer_not_Panic) (simp add: sound_def)
  have e: "\<exists>x m. resp = NewResponse (ce_random env) (ce_unix env) (sc_ModelID cfg) call m x ws \<and>
      (mr_Executed x \<longrightarrow> (\<exists>ex. Value r = Some (AnExecution ex) \<and> Err r = None \<and> ex_Executed ex))"
    if "answer cfg env call ws r = Completed (Inr resp)" for resp
    using that by (auto simp: answer_def split: option.splits any_value.splits any_error.splits)
  have ch: "\<exists>y t. Sent a y t \<in> set (seen c) \<and> change_of (sctx_Infra ctx) call y \<and> accepted y"
    if x: "Value r = Some (AnExecution ex)" "Err r = None" "ex_Executed ex" for ex
  proof -
    obtain y t call' where y: "Sent a y t \<in> set (seen c)" "action_key call' = action_key call"
      "change_of (sctx_Infra ctx) call' y" "accepted y"
      using assms(1) x unfolding sound_def by blast
    then have "ac_Action call' = ac_Action call \<and> ac_VMID call' = ac_VMID call"
      using assms(2) by (intro action_key_inj) (auto simp: change_of_def)
    with y(3) have "change_of (sctx_Infra ctx) call y" by (simp add: change_of_def)
    with y(1,4) show ?thesis by blast
  qed
  show ?thesis
    unfolding backed_def
  proof (intro conjI allI impI p)
    fix resp
    assume "answer cfg env call ws r = Completed (Inr resp)"
    then obtain x m where r: "resp = NewResponse (ce_random env) (ce_unix env) (sc_ModelID cfg) call m x ws"
      and ex: "mr_Executed x \<longrightarrow> (\<exists>ex. Value r = Some (AnExecution ex) \<and> Err r = None \<and> ex_Executed ex)"
      using e by blast
    show "StreamEvents resp u \<noteq> None" for u unfolding r by (rule StreamEvents_NewResponse)
    assume "gm_Executed (rb_XGranite resp)"
    with r ex ch obtain y t where "Sent a y t \<in> set (seen c)" "change_of (sctx_Infra ctx) call y" "accepted y" by auto
    then show "\<exists>a y t action. Sent a y t \<in> set (seen c) \<and> accepted y \<and> req_Method (fst y) = ''POST'' \<and>
        req_URL (fst y) = ic_baseURL (sctx_Infra ctx) @ vm_path (gm_VMID (rb_XGranite resp)) @ ''/'' @ action \<and>
        gm_Tool (rb_XGranite resp) = ToolName (fst (Metadata action))"
      unfolding r by (intro exI [of _ a] exI [of _ y] exI [of _ t] exI [of _ "ac_Action call"]) (simp add: change_of_def)
  qed
qed

lemma front_written: "front sha256 ctx env r = Some (Inl x) \<Longrightarrow> x \<noteq> HandlerPanic"
  by (auto simp: front_def serve_def ChatCompletions_def Let_def split: option.splits prod.splits endpoint.splits sum.splits if_splits)

lemma go_seen:
  assumes "go sha256 ctx m w = Some w'"
  shows "set (seen (inner w)) \<subseteq> set (seen (inner w'))"
proof -
  have a: "set (seen c) \<subseteq> set (seen c')" if "advance ic q c = Some c'" for ic q and c c' :: crowd
    using that by (cases rule: advance_cases) auto
  from assms show ?thesis by (cases rule: go_cases) (auto dest: a simp del: advance.simps)
qed

lemma all_backedI:
  assumes "\<And>i x. desks w i = TurnedAway x \<Longrightarrow> x \<noteq> HandlerPanic"
    "\<And>i v c. desks w i = Served v c \<Longrightarrow> backed ctx (inner w) c"
  shows "all_backed ctx w"
  using assms unfolding all_backed_def by blast

lemma all_backed_step:
  assumes "all_backed ctx w" "set (seen (inner w)) \<subseteq> set (seen (inner w'))" "\<And>j. j \<noteq> i \<Longrightarrow> desks w' j = desks w j"
    and "\<And>x. desks w' i = TurnedAway x \<Longrightarrow> x \<noteq> HandlerPanic" "\<And>v c. desks w' i = Served v c \<Longrightarrow> backed ctx (inner w') c"
  shows "all_backed ctx w'"
proof (rule all_backedI)
  fix j x
  assume "desks w' j = TurnedAway x"
  then show "x \<noteq> HandlerPanic" using assms(1,4) assms(3) [of j] unfolding all_backed_def by (cases "j = i") auto
next
  fix j v c
  assume "desks w' j = Served v c"
  then show "backed ctx (inner w') c"
    using assms(1,5) assms(3) [of j] backed_mono [OF _ assms(2)] unfolding all_backed_def by (cases "j = i") auto
qed

lemma returned_backed:
  assumes "crowd_ok ctx c" "threads (dd c) i = Returned k r" "permits sha256 ctx v call" "job_call (jobs c i) = call"
    and "0 \<le> ac_VMID call"
  shows "backed ctx c (answer cfg env call ws r)"
proof -
  have "k = action_key call" using assms(1,2,4) unfolding crowd_ok_def keys_ok_def by (metis key_of.simps(4))
  moreover obtain a where "sound (sctx_Infra ctx) c k a (Value r) (Err r)"
    using assms(1,2) unfolding crowd_ok_def all_sound_def by blast
  ultimately show ?thesis using backed_answer assms(5) by blast
qed

lemma checked_VMID: "checked sha256 ctx v input \<Longrightarrow> 0 < in_VMID input"
proof -
  assume "checked sha256 ctx v input"
  then have "prepare (sctx_Service ctx) (call_env_of (vi_env v)) (vi_input v) = Inr input" by (simp add: checked_def)
  from prepare_Inr(3) [OF this] obtain s where "AnalyzeInput s = Inr (input\<lparr>in_Warnings := []\<rparr>)"
    by blast
  from AnalyzeInput_fields(2) [OF this] show "0 < in_VMID input" by simp
qed

lemma permits_VMID: "permits sha256 ctx v call \<Longrightarrow> 0 < ac_VMID call"
proof -
  assume "permits sha256 ctx v call"
  then obtain input tc where i: "checked sha256 ctx v input"
    "ValidateToolCall (ce_order1 (call_env_of (vi_env v))) (ce_order2 (call_env_of (vi_env v))) input tc
       (sc_AllowForceStop (sctx_Service ctx)) = Inr call"
    unfolding permits_def by blast
  have "set (ce_order1 (call_env_of (vi_env v))) = set actions" "set (ce_order2 (call_env_of (vi_env v))) = set actions"
    using i(1) by (simp_all add: checked_def call_env_of_def)
  from ValidateToolCall_fields(2) [OF this i(2)] checked_VMID [OF i(1)] show ?thesis by simp
qed

lemma all_backed_go:
  assumes "go sha256 ctx m w = Some w'" "crowd_ok ctx (inner w)" "traffic_ok sha256 ctx w" "all_backed ctx w"
  shows "all_backed ctx w'"
proof -
  note s = go_seen [OF assms(1)]
  from assms(1) show ?thesis
  proof (cases rule: go_cases)
    case (turned_away i env r x)
    then show ?thesis using front_written [OF turned_away(3)] by (intro all_backed_step [OF assms(4) s, of i]) auto
  next
    case (taken i env r rid input v)
    show ?thesis
      by (rule all_backed_step [OF assms(4) s, of i])
        (use taken(5) in \<open>cases "prepare (sctx_Service ctx) (call_env_of env) input"; auto\<close>)+
  next
    case (consulted i net v input r h)
    show ?thesis
      by (rule all_backed_step [OF assms(4) s, of i]) (use consulted(4) in \<open>auto simp: after_model_def split: sum.splits\<close>)
  next
    case (looked i net v call ws c st h)
    then show ?thesis using backed_query [OF looked(3,4)] by (intro all_backed_step [OF assms(4) s, of i]) auto
  next
    case (submitted i v call ws c)
    then show ?thesis by (intro all_backed_step [OF assms(4) s, of i]) (auto simp del: advance.simps)
  next
    case (within q c)
    then show ?thesis using assms(4) backed_mono [OF _ s] unfolding all_backed_def by auto
  next
    case (responded i v call ws k r)
    have d: "permits sha256 ctx v call" "job_call (jobs (inner w) i) = call"
      using traffic_okD(1) [OF assms(3), of i] responded(2) by simp_all
    have "0 \<le> ac_VMID call" using permits_VMID [OF d(1)] by simp
    from returned_backed [OF assms(2) responded(3) d this] show ?thesis
      using responded(4) by (intro all_backed_step [OF assms(4) s, of i]) auto
  qed
qed

lemma under_way_backed: "under_way sha256 ctx w \<Longrightarrow> all_backed ctx w"
proof (induction rule: under_way.induct)
  case (quiet_server js t h)
  then show ?case by (simp add: all_backed_def no_traffic_def)
next
  case (moved w m w')
  then show ?case using under_way_ok [OF moved(1)] all_backed_go [OF moved(3)] by blast
qed

section \<open>Properties of the traffic\<close>

text \<open>
  A request asks for an action on a VM: it is a POST to the chat endpoint with the configured
  token, and the text of its last message, a user's, names this action and this VM and nothing
  else (\<open>safe_command\<close>).
\<close>

definition asks_for :: "(string \<Rightarrow> 'd) \<Rightarrow> ServiceContext \<Rightarrow> server_env \<Rightarrow> ServerRequest \<Rightarrow> Action \<Rightarrow> int64 \<Rightarrow> bool" where
  "asks_for sha256 ctx env r a v \<longleftrightarrow> (\<exists>p input rest earlier msg value.
    sr_Method r = ''POST'' \<and> sr_Path r = ''/v1/chat/completions'' \<and> Manager_Ready (se_manager env) \<and>
    header_Values ''Authorization'' (sr_Header r) = [''Bearer '' @ p] \<and> sha256 p = sha256 (APIKey (sctx_Config ctx)) \<and>
    decode_next dec_ChatCompletionRequest zero_request (sr_Body r) = Decoded input rest \<and>
    req_Messages input = earlier @ [msg] \<and> msg_Role msg = ''user'' \<and> finalUserText (msg_Content msg) = Some value \<and>
    safe_command (TrimSpace value) (sc_AllowForceStop (sctx_Service ctx)) a v)"

lemma permits_asks:
  assumes "permits sha256 ctx v call" "Execute (CheckState (ac_Action call) s n)"
  shows "asks_for sha256 ctx (vi_env v) (vi_request v) (ac_Action call) (ac_VMID call)"
proof -
  obtain input tc where c: "checked sha256 ctx v input"
    "ValidateToolCall (ce_order1 (call_env_of (vi_env v))) (ce_order2 (call_env_of (vi_env v))) input tc
       (sc_AllowForceStop (sctx_Service ctx)) = Inr call"
    using assms(1) unfolding permits_def by blast
  have o: "set (ce_order1 (call_env_of (vi_env v))) = set actions" "set (ce_order2 (call_env_of (vi_env v))) = set actions"
    and f: "front sha256 ctx (vi_env v) (vi_request v) = Some (Inr (vi_id v, vi_input v))"
    and p: "prepare (sctx_Service ctx) (call_env_of (vi_env v)) (vi_input v) = Inr input"
    using c(1) by (simp_all add: checked_def call_env_of_def)
  have "ce_ready (call_env_of (vi_env v))" using prepare_Inr(1) [OF p] by simp
  then have m: "Manager_Ready (se_manager (vi_env v))" by (simp add: call_env_of_def Service_Ready_def)
  show ?thesis
    using prepared_safe [OF p o c(2) assms(2)] f [unfolded front_calls] m
    unfolding asks_for_def DecodeJSON_Inr BearerAuth_None by blast
qed

lemma FormatInt_path:
  assumes "0 \<le> w" "FormatInt v @ ''/'' @ a = FormatInt w @ ''/'' @ b"
  shows "v = w \<and> a = b"
proof (cases "0 \<le> v")
  case False
  obtain c s where w: "FormatInt w = c # s" "is_digit c"
    using itoa_pos_head [OF assms(1)] assms(1) by (auto simp: FormatInt_def)
  have "\<not> is_digit CHR ''-''" by code_simp
  then show ?thesis using assms(2) w False by (auto simp: FormatInt_def)
qed (rule FormatInt_slash [OF _ assms])

text \<open>
  C2. However the goroutines of many requests interleave, from the first byte of a request to its
  answer: each change was asked for by a request that came with the configured token, and whose
  text names the action and the VM; it was sent after a query of the same run that told the state
  which the action requires; and a change that was sent before for any request, with an outcome
  other than a refusal, is only sent again when its reply has come and the window has passed
  since then.
\<close>

theorem concurrent_changes_are_safe:
  assumes "under_way sha256 ctx w" "seen (inner w) = newer @ Sent b y t2 # older"
  shows "\<exists>a v env r q resp vm t.
    (env, r) \<in> set (taken w) \<and> asks_for sha256 ctx env r a v \<and>
    req_Method (fst y) = ''POST'' \<and> req_URL (fst y) = ic_baseURL (sctx_Infra ctx) @ vm_path v @ ''/'' @ a \<and>
    Asked b (q, Answer resp) t \<in> set older \<and> t \<le> t2 \<and> req_Method q = ''GET'' \<and>
    req_URL q = ic_baseURL (sctx_Infra ctx) @ vm_path v \<and>
    read_VM resp v = Inr vm \<and> Status vm = RequiredState (fst (Metadata a)) \<and>
    (\<forall>c x t1. Sent c x t1 \<in> set older \<longrightarrow> req_URL (fst x) = req_URL (fst y) \<longrightarrow> \<not> answered_no x \<longrightarrow>
       (\<exists>t'. Replied c t' \<in> set older \<and> t1 \<le> t' \<and> t' + sc_DedupWindow (sctx_Service ctx) \<le> t2))"
proof -
  let ?ic = "sctx_Infra ctx" and ?win = "sc_DedupWindow (sctx_Service ctx)"
  have ok: "all_proper ?ic ?win (inner w)" "traffic_ok sha256 ctx w"
    using under_way_ok [OF assms(1)] by (simp_all add: crowd_ok_def)
  have p: "proper ?ic ?win older b y t2" using ok(1) assms(2) unfolding all_proper_def by blast
  then obtain call q t where q: "Asked b q t \<in> set older" "t \<le> t2" "checked_change (ic_baseURL ?ic) call [q] y"
    unfolding proper_def by blast
  then obtain req resp vm where k: "q = (req, Answer resp)" "req_Method req = ''GET''"
    "req_URL req = ic_baseURL ?ic @ vm_path (ac_VMID call)" "read_VM resp (ac_VMID call) = Inr vm"
    "Execute (CheckState (ac_Action call) (Status vm) (ac_VMID call))" "req_Method (fst y) = ''POST''"
    "req_URL (fst y) = ic_baseURL ?ic @ vm_path (ac_VMID call) @ ''/'' @ ac_Action call"
    unfolding checked_change_def by blast
  obtain v call' where v: "came w v" "permits sha256 ctx v call'" "change_of ?ic call' y"
    using traffic_okD(3) [OF ok(2)] assms(2) unfolding asked_by_someone_def by fastforce
  then have "ac_VMID call = ac_VMID call' \<and> ac_Action call = ac_Action call'"
    using k(7) by (intro FormatInt_path) (auto simp: change_of_def vm_path_def)
  with k(5) v(2) have "asks_for sha256 ctx (vi_env v) (vi_request v) (ac_Action call) (ac_VMID call)"
    using permits_asks by metis
  moreover have "Status vm = RequiredState (fst (Metadata (ac_Action call)))" using k(5) unfolding CheckState_Execute by auto
  moreover have "\<forall>c x t1. Sent c x t1 \<in> set older \<longrightarrow> req_URL (fst x) = req_URL (fst y) \<longrightarrow> \<not> answered_no x \<longrightarrow>
       (\<exists>t'. Replied c t' \<in> set older \<and> t1 \<le> t' \<and> t' + ?win \<le> t2)"
    using p unfolding proper_def by metis
  moreover have "(vi_env v, vi_request v) \<in> set (taken w)" using v(1) by (simp add: came_def)
  ultimately show ?thesis using q(1,2) k unfolding k(1) by blast
qed

lemma reply_panics:
  "reply_to env r c = HandlerPanic \<Longrightarrow> c = Panic \<or> (\<exists>resp u. c = Completed (Inr resp) \<and> StreamEvents resp u = None)"
  by (auto simp: reply_to_def ChatCompletions_def Let_def split: sum.splits completion.splits option.splits if_splits)

text \<open>
  C6. However the goroutines interleave, no request panics; and an answer that says that the
  action was executed is backed by a change for the tool and the VM that it names, which was sent
  and accepted.
\<close>

theorem concurrent_answers_are_true:
  assumes "under_way sha256 ctx w"
  shows "written_at (desks w i) \<noteq> Some HandlerPanic \<and>
    (\<forall>v resp. desks w i = Served v (Completed (Inr resp)) \<longrightarrow> gm_Executed (rb_XGranite resp) \<longrightarrow>
      (\<exists>a y t action. Sent a y t \<in> set (seen (inner w)) \<and> accepted y \<and> req_Method (fst y) = ''POST'' \<and>
         req_URL (fst y) = ic_baseURL (sctx_Infra ctx) @ vm_path (gm_VMID (rb_XGranite resp)) @ ''/'' @ action \<and>
         gm_Tool (rb_XGranite resp) = ToolName (fst (Metadata action))))"
proof -
  have b: "desks w i = TurnedAway x \<Longrightarrow> x \<noteq> HandlerPanic" "desks w i = Served v c \<Longrightarrow> backed ctx (inner w) c" for x v c
    using under_way_backed [OF assms] unfolding all_backed_def by blast+
  have n: "reply_to (vi_env v) (vi_request v) c \<noteq> HandlerPanic" if "desks w i = Served v c" for v c
    using reply_panics [of "vi_env v" "vi_request v" c] b(2) [OF that] unfolding backed_def by blast
  have "written_at (desks w i) \<noteq> Some HandlerPanic"
    using b(1) n by (cases "desks w i") (auto simp: written_at_def)
  then show ?thesis using b(2) unfolding backed_def by blast
qed

section \<open>One request alone\<close>

text \<open>A goroutine in the store, if nobody else moves: to its end, or through its whole function.\<close>

definition leaves :: "nat \<Rightarrow> string \<Rightarrow> (any_value, any_error) DoResult \<Rightarrow> service_store \<Rightarrow> history \<Rightarrow> crowd \<Rightarrow> crowd \<Rightarrow> bool" where
  "leaves i k r st h c c' \<longleftrightarrow> threads (dd c') = (threads (dd c))(i := Returned k r) \<and> store (dd c') = st \<and> hist c' = h"

lemma leave_interleaved:
  assumes "threads (dd c) i = Running k a" "job_stage (jobs c i) = Leaving (v, p, e)" "clock (dd c) \<le> later"
  shows "\<exists>c'. runs (advance ic) [Quiet (Tick later), Conclude i] c = Some c' \<and>
    leaves i k (ran v e) (finish k a v p e later (store (dd c))) (hist c) c c'"
  using assms by (simp add: run_at_def leaves_def)

lemma run_interleaved:
  assumes "threads (dd c) i = Running k a" "jobs c i = \<lparr>job_rid = rid, job_call = call, job_stage = Asking\<rparr>"
    and "clock (dd c) \<le> later" "run_action (GetVM net ic) (Mutate net ic) rid call (hist c) = ((v, p, e), h')"
  shows "\<exists>ms c'. runs (advance ic) ms c = Some c' \<and> list_all inside ms \<and>
    leaves i k (ran v e) (finish k a v p e later (store (dd c))) h' c c'"
proof -
  obtain r h1 where g: "GetVM net ic rid (ac_VMID call) (hist c) = (r, h1)" by (cases "GetVM net ic rid (ac_VMID call) (hist c)")
  define c1 where "c1 = to_stage i (after_query call r)
    (c\<lparr>hist := h1, seen := map (\<lambda>x. Asked a x (clock (dd c))) (drop (length (hist c)) h1) @ seen c\<rparr>)"
  have q: "runs (advance ic) [Query i net] c = Some c1" using assms(1,2) g by (simp add: run_at_def c1_def)
  have c1: "dd c1 = dd c" "hist c1 = h1" "jobs c1 i = \<lparr>job_rid = rid, job_call = call, job_stage = after_query call r\<rparr>"
    using assms(2) by (simp_all add: c1_def)
  have "(\<exists>x. after_query call r = Leaving x) \<or> after_query call r = Deciding" by (cases r) (simp_all add: Let_def)
  then consider x where "after_query call r = Leaving x" | "after_query call r = Deciding" by blast
  then show ?thesis
  proof cases
    case (1 x)
    then have x: "x = (v, p, e)" "h1 = h'" using assms(4) g by (simp_all add: run_action_pieces)
    obtain c' where c': "runs (advance ic) [Quiet (Tick later), Conclude i] c1 = Some c'"
      "leaves i k (ran v e) (finish k a v p e later (store (dd c1))) (hist c1) c1 c'"
      using leave_interleaved [of c1 i k a v p e later ic] assms(1,3) c1 1 x by auto
    show ?thesis
      by (intro exI conjI, rule runs_join [OF q c'(1)]) (use c'(2) c1 x(2) in \<open>simp_all add: leaves_def\<close>)
  next
    case 2
    obtain m h2 where m: "Mutate net ic rid (ac_Action call) (ac_VMID call) h1 = (m, h2)"
      by (cases "Mutate net ic rid (ac_Action call) (ac_VMID call) h1")
    have x: "after_change call m = (v, p, e)" "h2 = h'" using assms(4) g m 2 by (simp_all add: run_action_pieces)
    define c2 where "c2 = to_stage i (Leaving (v, p, e)) (to_stage i (Replying (v, p, e))
      (c1\<lparr>hist := h2, seen := map (\<lambda>x. Sent a x (clock (dd c))) (drop (length h1) h2) @ seen c1\<rparr>)
      \<lparr>seen := Replied a (clock (dd c)) # map (\<lambda>x. Sent a x (clock (dd c))) (drop (length h1) h2) @ seen c1\<rparr>)"
    have m2: "runs (advance ic) [Change i net, Reply i] c1 = Some c2"
      using assms(1) c1 2 m x(1) by (simp add: run_at_def c2_def)
    have c2: "dd c2 = dd c" "hist c2 = h2" "job_stage (jobs c2 i) = Leaving (v, p, e)" using c1 by (simp_all add: c2_def)
    obtain c' where c': "runs (advance ic) [Quiet (Tick later), Conclude i] c2 = Some c'"
      "leaves i k (ran v e) (finish k a v p e later (store (dd c2))) (hist c2) c2 c'"
      using leave_interleaved [of c2 i k a v p e later ic] assms(1,3) c2 by auto
    show ?thesis
      by (intro exI conjI, rule runs_join [OF q runs_join [OF m2 c'(1)]])
        (use c'(2) c2 x(2) in \<open>simp_all add: leaves_def\<close>)
  qed
qed

lemma Do_interleaved:
  assumes "threads (dd c) i = Idle" "clock (dd c) \<le> later" "0 \<le> ac_VMID call"
    and "Do (action_key call) (clock (dd c)) later (gone, Ended e) (run_action (GetVM net ic) (Mutate net ic) rid call)
      (store (dd c)) (hist c) = (r, st', h')"
  shows "\<exists>c1 ms c'. advance ic (Arrive i rid call) c = Some c1 \<and> runs (advance ic) ms c1 = Some c' \<and> list_all inside ms \<and>
    leaves i (action_key call) r st' h' c c'"
proof -
  let ?k = "action_key call" and ?js = "(jobs c)(i := \<lparr>job_rid = rid, job_call = call, job_stage = Asking\<rparr>)"
  obtain x st where x: "enter ?k (clock (dd c)) (store (dd c)) = (x, st)" by (cases "enter ?k (clock (dd c)) (store (dd c))")
  show ?thesis
  proof (cases x)
    case (Wait a)
    define c1 where "c1 = c\<lparr>dd := (dd c)\<lparr>store := st, threads := (threads (dd c))(i := Waiting ?k a)\<rparr>, jobs := ?js\<rparr>"
    have a: "advance ic (Arrive i rid call) c = Some c1" using assms(1,3) x Wait by (simp add: c1_def)
    have r: "r = (if e_done (heap st ! a) \<and> \<not> gone then waited a st else canceled (Ended e))" "st' = st" "h' = hist c"
      using assms(4) x Wait by (auto simp: Do_def)
    let ?m = "if e_done (heap st ! a) \<and> \<not> gone then Wake i else Cancel i (Ended e)"
    have "\<exists>c'. runs (advance ic) [Quiet ?m] c1 = Some c' \<and> leaves i ?k r st' h' c c'"
      using r by (simp add: c1_def leaves_def)
    moreover have "list_all inside [Quiet ?m]" by simp
    ultimately show ?thesis using a by blast
  next
    case (Run a)
    define c1 where "c1 = c\<lparr>dd := (dd c)\<lparr>store := st, threads := (threads (dd c))(i := Running ?k a),
      log := Started ?k a (clock (dd c)) # log (dd c)\<rparr>, jobs := ?js\<rparr>"
    have a: "advance ic (Arrive i rid call) c = Some c1" using assms(1,3) x Run by (simp add: c1_def)
    obtain v p er where f: "run_action (GetVM net ic) (Mutate net ic) rid call (hist c) = ((v, p, er), h')"
      and r: "r = ran v er" "st' = finish ?k a v p er later st"
      using assms(4) x Run by (auto simp: Do_def split: prod.splits)
    have c1: "threads (dd c1) i = Running ?k a" "jobs c1 i = \<lparr>job_rid = rid, job_call = call, job_stage = Asking\<rparr>"
      "clock (dd c1) \<le> later" "hist c1 = hist c" "store (dd c1) = st"
      using assms(2) by (simp_all add: c1_def)
    obtain ms c' where ms: "runs (advance ic) ms c1 = Some c'" "list_all inside ms"
      "leaves i ?k (ran v er) (finish ?k a v p er later (store (dd c1))) h' c1 c'"
      using run_interleaved [OF c1(1-3), of net ic] f c1(4) by metis
    have "leaves i ?k r st' h' c c'" using ms(3) r c1(5) by (simp add: leaves_def c1_def)
    then show ?thesis using a ms(1,2) by blast
  qed
qed

lemma go_inside:
  "runs (advance (sctx_Infra ctx)) ms (inner w) = Some c \<Longrightarrow> list_all inside ms \<Longrightarrow>
    runs (go sha256 ctx) (map Inside ms) w = Some (w\<lparr>inner := c\<rparr>)"
  by (rule runs_embed [where R = "\<lambda>c w. inner w = c" and f = "advance (sctx_Infra ctx)"])
    (auto simp: list_all_iff simp del: advance.simps)

text \<open>What the goroutine has done, and nobody else.\<close>

definition alone :: "nat \<Rightarrow> completion \<Rightarrow> visit \<Rightarrow> service_store \<Rightarrow> history \<Rightarrow> traffic \<Rightarrow> traffic \<Rightarrow> bool" where
  "alone i c v st h w w' \<longleftrightarrow> desks w' i = Served v c \<and> store (dd (inner w')) = st \<and> hist (inner w') = h \<and>
    (\<forall>j. j \<noteq> i \<longrightarrow> desks w' j = desks w j \<and> threads (dd (inner w')) j = threads (dd (inner w)) j)"

lemma perform_interleaved:
  assumes "desks w i = Chosen v call ws" "threads (dd (inner w)) i = Idle" "0 \<le> ac_VMID call"
    and "clock (dd (inner w)) = ce_now (call_env_of (vi_env v))"
      "ce_now (call_env_of (vi_env v)) \<le> ce_later (call_env_of (vi_env v))"
    and "perform (GetVM net (sctx_Infra ctx)) (Mutate net (sctx_Infra ctx)) (sctx_Service ctx) (call_env_of (vi_env v))
      (vi_id v) call ws (store (dd (inner w))) (hist (inner w)) = (c, st', h')"
  shows "\<exists>ms w'. runs (go sha256 ctx) ms w = Some w' \<and> list_all orderly ms \<and> alone i c v st' h' w w'"
proof (cases "ac_Action call = ActionGet")
  case True
  have "st' = store (dd (inner w))"
    using assms(6) True by (auto simp: perform_def split: prod.splits sum.splits)
  then have "\<exists>w'. runs (go sha256 ctx) [Look i net] w = Some w' \<and> alone i c v st' h' w w'"
    using assms(1,6) True by (simp add: alone_def)
  moreover have "list_all orderly [Look i net]" by simp
  ultimately show ?thesis by blast
next
  case False
  let ?env = "call_env_of (vi_env v)" and ?ic = "sctx_Infra ctx"
  obtain r where d: "Do (action_key call) (clock (dd (inner w))) (ce_later ?env) (ce_gone ?env, Ended (ce_ctxErr ?env))
      (run_action (GetVM net ?ic) (Mutate net ?ic) (vi_id v) call) (store (dd (inner w))) (hist (inner w)) = (r, st', h')"
    and c: "c = answer (sctx_Service ctx) ?env call ws r"
    using assms(4,6) False by (auto simp: perform_def split: prod.splits)
  obtain c1 ms c' where m: "advance ?ic (Arrive i (vi_id v) call) (inner w) = Some c1" "runs (advance ?ic) ms c1 = Some c'"
    "list_all inside ms" "leaves i (action_key call) r st' h' (inner w) c'"
    using Do_interleaved [OF assms(2) _ assms(3) d] assms(4,5) by auto
  let ?w1 = "to_desk i (InStore v call ws) (w\<lparr>inner := c1\<rparr>)"
  have "runs (go sha256 ctx) [Submit i] w = Some ?w1" using assms(1) m(1) False by (simp del: advance.simps)
  moreover have "runs (go sha256 ctx) (map Inside ms) ?w1 = Some (?w1\<lparr>inner := c'\<rparr>)"
    using m(2,3) by (intro go_inside) simp_all
  moreover have "\<exists>w'. runs (go sha256 ctx) [Respond i] (?w1\<lparr>inner := c'\<rparr>) = Some w' \<and> alone i c v st' h' w w'"
    using m(4) c by (simp add: leaves_def alone_def to_desk_def)
  ultimately obtain w' where "runs (go sha256 ctx) ([Submit i] @ map Inside ms @ [Respond i]) w = Some w'" "alone i c v st' h' w w'"
    using runs_join by metis
  moreover have "list_all orderly ([Submit i] @ map Inside ms @ [Respond i])" by (simp add: list_all_iff)
  ultimately show ?thesis by blast
qed

lemma Complete_interleaved:
  assumes "Complete (Select net (sctx_Model ctx)) (GetVM net (sctx_Infra ctx)) (Mutate net (sctx_Infra ctx)) (sctx_Service ctx)
      (call_env_of env) rid input (store (dd (inner w))) (hist (inner w)) = (c, st', h')"
    and "front sha256 ctx env r = Some (Inr (rid, input))" "desks w i = Vacant" "threads (dd (inner w)) i = Idle"
    and "clock (dd (inner w)) = ce_now (se_call env)" "ce_now (se_call env) \<le> ce_later (se_call env)" "orderly (Receive i env r)"
  shows "\<exists>ms w' v. runs (go sha256 ctx) ms w = Some w' \<and> list_all orderly ms \<and>
    vi_env v = env \<and> vi_request v = r \<and> alone i c v st' h' w w'"
proof -
  let ?v = "\<lparr>vi_env = env, vi_request = r, vi_id = rid, vi_input = input\<rparr>"
  let ?p = "prepare (sctx_Service ctx) (call_env_of env) input" and ?force = "sc_AllowForceStop (sctx_Service ctx)"
  let ?w1 = "to_desk i (after_checks ?v ?p) (w\<lparr>taken := (env, r) # taken w\<rparr>)"
  have r1: "runs (go sha256 ctx) [Receive i env r] w = Some ?w1" using assms(2,3) by simp
  show ?thesis
  proof (cases ?p)
    case (Inl err)
    then have "alone i c ?v st' h' w ?w1" using assms(1) by (simp add: Complete_def alone_def)
    then show ?thesis using r1 assms(7) by (intro exI [of _ "[Receive i env r]"] exI [of _ ?w1] exI [of _ ?v]) simp
  next
    case (Inr inp)
    obtain s h1 where s: "Select net (sctx_Model ctx) (in_Original inp) (GraniteTools ?force) (hist (inner w)) = (s, h1)"
      by (cases "Select net (sctx_Model ctx) (in_Original inp) (GraniteTools ?force) (hist (inner w))")
    let ?w2 = "to_desk i (after_model ctx ?v inp s) (?w1\<lparr>inner := (inner w)\<lparr>hist := h1\<rparr>\<rparr>)"
    have "runs (go sha256 ctx) [Consult i net] ?w1 = Some ?w2" using Inr s by simp
    from runs_join [OF r1 this] have r2: "runs (go sha256 ctx) [Receive i env r, Consult i net] w = Some ?w2" by simp
    let ?t = "andThen s (\<lambda>call. ValidateToolCall (ce_order1 (call_env_of env)) (ce_order2 (call_env_of env)) inp call ?force)"
    show ?thesis
    proof (cases ?t)
      case (Inl err)
      then have "c = Completed (Inl err)" "st' = store (dd (inner w))" "h' = h1"
        using assms(1) \<open>?p = Inr inp\<close> s by (auto simp: Complete_def andThen_def split: sum.splits)
      then have "alone i c ?v st' h' w ?w2" using Inl by (simp add: after_model_def alone_def)
      then show ?thesis
        using r2 assms(7) by (intro exI [of _ "[Receive i env r, Consult i net]"] exI [of _ ?w2] exI [of _ ?v]) simp
    next
      case (Inr call)
      obtain tc where tc: "s = Inr tc"
        "ValidateToolCall (ce_order1 (call_env_of env)) (ce_order2 (call_env_of env)) inp tc ?force = Inr call"
        using Inr by (auto simp: andThen_def split: sum.splits)
      have "checked sha256 ctx ?v inp" using assms(2,7) \<open>?p = Inr inp\<close> by (simp add: checked_def)
      then have "permits sha256 ctx ?v call" using tc(2) unfolding permits_def by auto
      then have n: "0 \<le> ac_VMID call" using permits_VMID by fastforce
      have d: "desks ?w2 i = Chosen ?v call (in_Warnings inp)" using Inr by (simp add: after_model_def)
      have e: "threads (dd (inner ?w2)) i = Idle" "clock (dd (inner ?w2)) = ce_now (call_env_of (vi_env ?v))"
        "ce_now (call_env_of (vi_env ?v)) \<le> ce_later (call_env_of (vi_env ?v))"
        using assms(4-6) by (simp_all add: call_env_of_def)
      have p: "perform (GetVM net (sctx_Infra ctx)) (Mutate net (sctx_Infra ctx)) (sctx_Service ctx) (call_env_of (vi_env ?v))
          (vi_id ?v) call (in_Warnings inp) (store (dd (inner ?w2))) (hist (inner ?w2)) = (c, st', h')"
        using assms(1) \<open>?p = Inr inp\<close> s tc by (simp add: Complete_def)
      obtain ms w' where m: "runs (go sha256 ctx) ms ?w2 = Some w'" "list_all orderly ms" "alone i c ?v st' h' ?w2 w'"
        using perform_interleaved [OF d e(1) n e(2,3) p, of sha256] by blast
      have "alone i c ?v st' h' w w'" using m(3) by (simp add: alone_def)
      then show ?thesis
        using runs_join [OF r2 m(1)] m(2) assms(7)
        by (intro exI [of _ "[Receive i env r, Consult i net] @ ms"] exI [of _ w'] exI [of _ ?v]) simp
    qed
  qed
qed

lemma chat_service_Complete:
  "chat_service ctx env rid input (st, h) =
    (case Complete (Select (se_net env) (sctx_Model ctx)) (GetVM (se_net env) (sctx_Infra ctx)) (Mutate (se_net env) (sctx_Infra ctx))
        (sctx_Service ctx) (call_env_of env) rid input st h of (c, st', h') \<Rightarrow> (c, st', h'))"
  by (simp add: context_Complete_def call_env_of_def)

text \<open>
  C9. A request that is handled in one go is one way for its goroutine to move while no other
  does, at any time in the traffic: there are moves that lead to the same response, the same
  store and the same exchanges, and that leave every other request where it is. So nothing that a
  request does in one go is missing in the traffic.
\<close>

theorem handling_is_an_interleaving:
  assumes "handle sha256 ctx env r (store (dd (inner w)), hist (inner w)) = Some (x, st', h')"
    and "desks w i = Vacant" "threads (dd (inner w)) i = Idle"
    and "clock (dd (inner w)) = ce_now (se_call env)" "ce_now (se_call env) \<le> ce_later (se_call env)" "orderly (Receive i env r)"
  shows "\<exists>ms w'. runs (go sha256 ctx) ms w = Some w' \<and> list_all orderly ms \<and> written_at (desks w' i) = Some x \<and>
    store (dd (inner w')) = st' \<and> hist (inner w') = h' \<and>
    (\<forall>j. j \<noteq> i \<longrightarrow> desks w' j = desks w j \<and> threads (dd (inner w')) j = threads (dd (inner w)) j)"
proof -
  consider (away) "front sha256 ctx env r = Some (Inl x)" "st' = store (dd (inner w))" "h' = hist (inner w)"
    | (call) rid input c where "front sha256 ctx env r = Some (Inr (rid, input))"
        "chat_service ctx env rid input (store (dd (inner w)), hist (inner w)) = (c, st', h')" "x = reply_to env r c"
    using assms(1) unfolding handle_front by (auto split: option.splits sum.splits prod.splits)
  then show ?thesis
  proof cases
    case away
    then show ?thesis
      using assms(2,6) by (intro exI [of _ "[Receive i env r]"]
        exI [of _ "to_desk i (TurnedAway x) (w\<lparr>taken := (env, r) # taken w\<rparr>)"]) (simp add: written_at_def)
  next
    case (call rid input c)
    have "Complete (Select (se_net env) (sctx_Model ctx)) (GetVM (se_net env) (sctx_Infra ctx)) (Mutate (se_net env) (sctx_Infra ctx))
        (sctx_Service ctx) (call_env_of env) rid input (store (dd (inner w))) (hist (inner w)) = (c, st', h')"
      using call(2) unfolding chat_service_Complete by (auto split: prod.splits)
    from Complete_interleaved [OF this call(1) assms(2-6)] show ?thesis
      using call(3) unfolding alone_def by (fastforce simp: written_at_def)
  qed
qed

section \<open>A concrete request in the traffic\<close>

text \<open>The request of the theory Server, whose change is answered after 5 nanoseconds.\<close>

abbreviation sample_traffic :: traffic where
  "sample_traffic \<equiv> no_traffic sample_context sample_jobs 0 []"

definition sample_visit :: visit where
  "sample_visit = \<lparr>vi_env = sample_server_env, vi_request = chat_request, vi_id = ''id'', vi_input = sample_request\<rparr>"

definition sample_moves :: "crowd_move list" where
  "sample_moves = [Query 0 sample_world, Change 0 sample_world, Quiet (Tick 5), Reply 0, Conclude 0]"

lemma sample_front: "front (\<lambda>t. t) sample_context sample_server_env chat_request = Some (Inr (''id'', sample_request))"
proof -
  have "FromRequest (Some ''abcdefghijklmnop'') chat_request = ''id''" by code_simp
  moreover have "BearerAuth (\<lambda>t. t) ''key'' (Some ''abcdefghijklmnop'') chat_request = None" by code_simp
  ultimately show ?thesis
    using chat_body_decoded sample_key_loaded
    by (simp add: front_calls sample_server_env_def sample_context_def) (simp add: chat_request_def)
qed

lemma sample_call_env: "call_env_of sample_server_env = sample_env 0"
  by (simp add: call_env_of_def sample_server_env_def Service_Ready_def Manager_Ready_def sample_env_def)

lemma sample_orderly: "orderly (Receive i sample_server_env r)"
  by (simp add: sample_server_env_def sample_env_def)

lemma sample_in_store:
  fixes c :: crowd
  assumes "dd c = initial (sc_DedupWindow sample_cfg) 0" "seen c = []"
  obtains c1 c' where "advance sample_infra (Arrive 0 ''id'' start_3052) c = Some c1"
    "runs (advance sample_infra) sample_moves c1 = Some c'"
    "seen c' = [Replied 0 5, Sent 0 sent_start 0, Asked 0 asked_start 0]"
    "threads (dd c') 0 = Returned (action_key start_3052)
       \<lparr>Value = Some (AnExecution sample_execution), Err = None, Deduplicated = False\<rparr>"
proof -
  have x: "Execute (CheckState ActionStart (Status sample_vm) 3052)" by code_simp
  have q: "after_query start_3052 (Inr sample_vm) = Deciding"
    using x by (simp add: start_3052_def)
  let ?c1 = "c\<lparr>dd := \<lparr>store = (new_store (sc_DedupWindow sample_cfg))\<lparr>heap := [new_entry], entries := [action_key start_3052 \<mapsto> 0]\<rparr>,
      threads = (\<lambda>i. Idle)(0 := Running (action_key start_3052) 0), clock = 0, log = [Started (action_key start_3052) 0 0]\<rparr>,
    jobs := (jobs c)(0 := \<lparr>job_rid = ''id'', job_call = start_3052, job_stage = Asking\<rparr>)\<rparr>"
  have "advance sample_infra (Arrive 0 ''id'' start_3052) c = Some ?c1"
    using assms by (simp add: initial_def enter_def new_store_def start_3052_def)
  moreover have "\<exists>c'. runs (advance sample_infra) sample_moves ?c1 = Some c' \<and>
      seen c' = [Replied 0 5, Sent 0 sent_start 0, Asked 0 asked_start 0] \<and>
      threads (dd c') 0 = Returned (action_key start_3052)
       \<lparr>Value = Some (AnExecution sample_execution), Err = None, Deduplicated = False\<rparr>"
    using assms q
    by (simp add: sample_moves_def run_at_def sample_GetVM_any sample_Mutate_any start_3052_def ActionStart_def
        sent_start_def asked_start_def sample_execution_def ran_def del: after_query.simps)
  ultimately show ?thesis using that by blast
qed

interpretation going: machine "go sha256 ctx" orderly "under_way sha256 ctx" for sha256 :: "string \<Rightarrow> 'd" and ctx
  by unfold_locales (blast intro: under_way.moved)

lemma sample_under_way:
  obtains w resp where "under_way (\<lambda>t. t) sample_context w" "taken w = [(sample_server_env, chat_request)]"
    "seen (inner w) = [Replied 0 5] @ Sent 0 sent_start 0 # [Asked 0 asked_start 0]"
    "desks w 0 = Served sample_visit (Completed (Inr resp))" "gm_Executed (rb_XGranite resp)"
proof -
  let ?ctx = sample_context and ?w = sample_traffic and ?r = "[(sample_server_env, chat_request)]"
  let ?w1 = "to_desk 0 (Choosing sample_visit sample_input) (?w\<lparr>taken := ?r\<rparr>)"
  have "runs (go (\<lambda>t. t) ?ctx) [Receive 0 sample_server_env chat_request] ?w = Some ?w1"
    using sample_front sample_prepare [of 0]
    by (simp add: no_traffic_def sample_call_env sample_visit_def) (simp add: sample_context_def)
  note r1 = this
  obtain req where "Select sample_world sample_client (in_Original sample_input) (GraniteTools (sc_AllowForceStop sample_cfg)) [] =
      (Inr sample_call, [] @ [(req, model_answer ''pve_vm_start'' start_arguments)])"
    by (rule sample_selected)
  then obtain h where s: "Select sample_world sample_client (in_Original sample_input) (GraniteTools (sc_AllowForceStop sample_cfg)) [] =
      (Inr sample_call, h)" by blast
  let ?w2 = "to_desk 0 (Chosen sample_visit start_3052 (in_Warnings sample_input)) (?w1\<lparr>inner := (inner ?w1)\<lparr>hist := h\<rparr>\<rparr>)"
  have m: "after_model ?ctx sample_visit sample_input (Inr sample_call) = Chosen sample_visit start_3052 (in_Warnings sample_input)"
    using sample_validated [of 0]
    by (simp add: after_model_def sample_visit_def sample_call_env andThen_def sample_context_def)
  have "runs (go (\<lambda>t. t) ?ctx) [Consult 0 sample_world] ?w1 = Some ?w2"
    using s m by (simp add: no_traffic_def empty_crowd_def) (simp add: sample_context_def)
  from runs_join [OF r1 this] have r2: "runs (go (\<lambda>t. t) ?ctx) [Receive 0 sample_server_env chat_request, Consult 0 sample_world] ?w = Some ?w2"
    by simp
  obtain c1 c' where c: "advance sample_infra (Arrive 0 ''id'' start_3052) (inner ?w2) = Some c1"
    "runs (advance sample_infra) sample_moves c1 = Some c'"
    "seen c' = [Replied 0 5, Sent 0 sent_start 0, Asked 0 asked_start 0]"
    "threads (dd c') 0 = Returned (action_key start_3052)
       \<lparr>Value = Some (AnExecution sample_execution), Err = None, Deduplicated = False\<rparr>"
    by (rule sample_in_store [of "inner ?w2"]) (simp_all add: no_traffic_def empty_crowd_def sample_context_def)
  let ?w3 = "to_desk 0 (InStore sample_visit start_3052 (in_Warnings sample_input)) (?w2\<lparr>inner := c1\<rparr>)"
  have "runs (go (\<lambda>t. t) ?ctx) [Submit 0] ?w2 = Some ?w3"
    using c(1) by (simp add: sample_context_def sample_visit_def start_3052_def ActionStart_def ActionGet_def del: advance.simps)
  moreover have "runs (go (\<lambda>t. t) ?ctx) (map Inside sample_moves) ?w3 = Some (?w3\<lparr>inner := c'\<rparr>)"
    using c(2) by (intro go_inside) (simp_all add: sample_context_def sample_moves_def)
  ultimately have r4: "runs (go (\<lambda>t. t) ?ctx) ([Submit 0] @ map Inside sample_moves) ?w2 = Some (?w3\<lparr>inner := c'\<rparr>)"
    by (rule runs_join)
  obtain resp where a: "answer sample_cfg (sample_env 0) start_3052 (in_Warnings sample_input)
      \<lparr>Value = Some (AnExecution sample_execution), Err = None, Deduplicated = False\<rparr> = Completed (Inr resp)"
    "gm_Executed (rb_XGranite resp)"
    by (simp add: answer_def NewResponse_def sample_execution_def)
  let ?w5 = "to_desk 0 (Served sample_visit (Completed (Inr resp))) (?w3\<lparr>inner := c'\<rparr>)"
  have "runs (go (\<lambda>t. t) ?ctx) [Respond 0] (?w3\<lparr>inner := c'\<rparr>) = Some ?w5"
    using c(4) a(1) by (simp add: sample_visit_def sample_call_env) (simp add: sample_context_def)
  from runs_join [OF r2 runs_join [OF r4 this]]
  have "under_way (\<lambda>t. t) ?ctx ?w5"
    by (rule going.state_runs [OF _ _ under_way.quiet_server])
      (use sample_orderly in \<open>simp add: sample_moves_def del: orderly.simps(1)\<close>)
  then show ?thesis by (rule that) (use c(3) a(2) in simp_all)
qed

theorem concurrent_changes_are_safe_witness:
  "\<exists>w a v env r. under_way (\<lambda>t. t) sample_context w \<and> (env, r) \<in> set (taken w) \<and>
    asks_for (\<lambda>t. t) sample_context env r a v \<and>
    req_URL (fst sent_start) = ic_baseURL (sctx_Infra sample_context) @ vm_path v @ ''/'' @ a"
proof -
  obtain w where w: "under_way (\<lambda>t. t) sample_context w"
    "seen (inner w) = [Replied 0 5] @ Sent 0 sent_start 0 # [Asked 0 asked_start 0]"
    by (rule sample_under_way)
  from concurrent_changes_are_safe [OF w] w(1) show ?thesis by blast
qed

theorem concurrent_answers_are_true_witness:
  "\<exists>w resp a y t action. under_way (\<lambda>t. t) sample_context w \<and>
    desks w 0 = Served sample_visit (Completed (Inr resp)) \<and> Sent a y t \<in> set (seen (inner w)) \<and> accepted y \<and>
    gm_Tool (rb_XGranite resp) = ToolName (fst (Metadata action))"
proof -
  obtain w resp where w: "under_way (\<lambda>t. t) sample_context w"
    "desks w 0 = Served sample_visit (Completed (Inr resp))" "gm_Executed (rb_XGranite resp)"
    by (rule sample_under_way)
  from conjunct2 [OF concurrent_answers_are_true [OF w(1), of 0], rule_format, OF w(2,3)] w show ?thesis by blast
qed

theorem handling_is_an_interleaving_witness:
  "\<exists>ms w' x. runs (go (\<lambda>t. t) sample_context) ms sample_traffic = Some w' \<and> written_at (desks w' 0) = Some x \<and>
    changes (gc_endpoint sample_client) (hist (inner w')) \<noteq> []"
proof -
  obtain x st' h' y where h: "handle (\<lambda>t. t) sample_context sample_server_env chat_request (NewService sample_cfg, []) =
      Some (x, st', h')" "y \<in> set (changes (gc_endpoint sample_client) h')" by (rule sample_request_handled)
  then have n: "changes (gc_endpoint sample_client) h' \<noteq> []" by auto
  have c: "sctx_Service sample_context = sample_cfg" by (simp add: sample_context_def)
  have "handle (\<lambda>t. t) sample_context sample_server_env chat_request
      (store (dd (inner sample_traffic)), hist (inner sample_traffic)) = Some (x, st', h')"
    using h(1) by (simp add: no_traffic_def empty_crowd_def initial_def NewService_def c)
  moreover have "desks sample_traffic 0 = Vacant" "threads (dd (inner sample_traffic)) 0 = Idle"
    "clock (dd (inner sample_traffic)) = ce_now (se_call sample_server_env)"
    "ce_now (se_call sample_server_env) \<le> ce_later (se_call sample_server_env)"
    by (simp_all add: no_traffic_def empty_crowd_def initial_def sample_server_env_def sample_env_def)
  ultimately obtain ms w' where "runs (go (\<lambda>t. t) sample_context) ms sample_traffic = Some w'"
    "written_at (desks w' 0) = Some x" "hist (inner w') = h'"
    using handling_is_an_interleaving [OF _ _ _ _ _ sample_orderly] by blast
  with n show ?thesis by blast
qed

end
