(* ===== verification/Spec2Isabelle.thy ===== *)
theory Spec2Isabelle
  imports Machine Gostring Apierror Openai Tools Render Safety Json Decode Encode Url Http Config GraniteClient
    Dedup Validate Extract Infracontrol Response Service ServiceRun Handler Process Svc Program
    WireJson Compaction Server DedupSpec Concurrent Traffic
begin

text \<open>
  \<^bold>\<open>The program.\<close> Granite-Controller takes one short text of a user, such as a request to start a
  virtual machine, through an interface like that of OpenAI; asks a small language model that runs
  beside it which of five tools is meant; checks the answer of the model against the text; and
  then queries or changes the one virtual machine at an infrastructure service. Since the model
  can be wrong, everything that decides over a change is code: the text must name one machine and
  one action, the call of the model must agree with it, the state of the machine must fit, and a
  change is not repeated within a window of time.

  \<^bold>\<open>From the source to the theories\<close> (paths under \<open>src/\<close>; the theory Prelude holds the shared
  types and facts, Machine what holds of runs of any step function; Gostring, Json, Decode, Encode,
  Url and Http what the program uses of the standard library of Go: strings as lists of bytes,
  UTF-8, numbers, \<open>encoding/json\<close> in both directions, \<open>url.Parse\<close>, requests and answers).

    \<^item> \<open>internal/apierror\<close>: Apierror. \<open>internal/openai\<close>: Openai, with the decoders of its types in
      Handler. \<open>internal/render\<close>: Render.
    \<^item> \<open>internal/config\<close>: Config. The reader of the YAML file is the framework's; what it gives is
      an argument of \<open>Load\<close>, as is the environment.
    \<^item> \<open>internal/managed\<close>: \<open>tools.go\<close> and \<open>state.go\<close> in Tools, \<open>safety.go\<close> in Safety,
      \<open>input.go\<close> in Extract, \<open>validate_granite.go\<close> in Validate, \<open>response.go\<close> in Response,
      \<open>service.go\<close> in Service. \<open>Complete\<close> has the code's order: the checks before the model
      (\<open>prepare\<close>), the model, the check of its call, the query or the change (\<open>perform\<close>,
      \<open>run_action\<close>), the answer (\<open>answer\<close>). The iteration over a Go map is an argument, a list in
      any order.
    \<^item> \<open>internal/dedup\<close>: Dedup. The store is a map to addresses and a heap of entries; its two
      critical sections are \<open>enter\<close> and \<open>finish\<close>, composed by \<open>Do\<close> for one goroutine and
      interleaved by the relation \<open>step\<close> for many.
    \<^item> \<open>internal/granite\<close>: \<open>client.go\<close> in GraniteClient, \<open>process.go\<close> in Process, where
      \<open>Start\<close>, the goroutine that it leaves behind, and \<open>Stop\<close> are cut where another goroutine,
      the process or the clock can come in between (\<open>act\<close>).
    \<^item> \<open>internal/infracontrol\<close>: Infracontrol. \<open>internal/requestid\<close>, \<open>internal/handler\<close>,
      \<open>internal/middleware\<close> and \<open>internal/safelog\<close>: Handler. \<open>internal/svc\<close>: Svc.
    \<^item> \<open>cmd/granite-controller\<close>: Program, with the supervision and the end of the program as events
      beside the actions of the manager.
    \<^item> The compositions: Server is a request from its bytes to the bytes of the response, through
      routes, authentication, handler and service; Concurrent is the store under many requests at
      once, \<open>run_action\<close> cut at its exchanges (\<open>run_action_pieces\<close> puts the pieces together
      again); Traffic is the whole server under many requests at once, each a goroutine from its
      bytes to its answer, of which Server is the case that nobody else moves
      (\<open>handling_is_an_interleaving\<close>); ServiceRun holds the concrete world on which properties
      are applied.

  \<^bold>\<open>State and effects.\<close> The state of the service is the store of the deduplication. What is sent
  goes through an argument of type \<open>network\<close>, any function from the requests so far and the next
  one to its outcome, and is recorded in a history, so that a property can speak of what was sent
  and when. The clock is read through arguments or is part of the state of a transition system.
  Errors are values of a sum or an option, a panic is a value of its own. Integers that a decoder
  or a parser bounds are unbounded here with the range checked where the code's library checks
  it; a duration is computed with the overflow checks of \<open>time.ParseDuration\<close> and the rounding
  of its floating point numbers.

  \<^bold>\<open>Interfaces.\<close> The client of the infrastructure service, the client of the model, the service on
  top of both, a call of the store and the table of the marker words are locales (\<open>infrastructure\<close>,
  \<open>selector\<close>, \<open>managed_service\<close>, \<open>run_once\<close>, \<open>marker_table\<close>): their laws are what the
  callers rest on, and each is interpreted with the model of the code that provides it. The locale
  \<open>machine\<close> is what the transition systems share, a step and the states that it can lead to; it
  is interpreted for the store, the process, the program and the traffic.

  \<^bold>\<open>What is shown.\<close>

    \<^item> Safety of changes: a change is only sent for a request with the configured token, for a text
      that allows just this change, and after a query that told the required state; at most one
      change goes out per request; none is repeated within the window, also under any interleaving
      of goroutines; the answer says what was done (Server, Service, Traffic).
    \<^item> The store: one run per key, kept results, no orphaned waiting call, the origin of results
      (Dedup), and that it and an abstract table of keys simulate each other (DedupSpec).
    \<^item> The checks of the text and of the model's call: which are accepted, independence of the order
      of a map, uniqueness of the action (Safety, Extract, Validate). Where the design document
      and the code part ways, nothing is claimed: of the texts that are accepted only those with
      clear numbers and actions (\<open>clear_text\<close>), of an uptime only what both agree on.
    \<^item> The clients: what they send, what they accept, how errors are classified (GraniteClient,
      Infracontrol), and that a loaded configuration makes every address well formed (Config, Svc).
    \<^item> The life of the model's process and of the program: readiness, failed starts, when a stop
      returns, exit codes, the command that is run (Process, Program).
    \<^item> The wire: which requests are let in, and that every body and every event of a stream parses
      again to what was meant (Handler, WireJson, Compaction, Server).

  \<^bold>\<open>Bounds and fuel.\<close> The parser of JSON takes fuel for its nested recursion; the length of the text
  is always enough (\<open>parse_value_fuel\<close>), so that it fails only where the decoder of Go does, the
  limit of 10000 levels included. All other recursions end by a measure. A property that something
  can end (\<open>stop_ends_the_program\<close>, \<open>stop_returns_iff_launched\<close>) gives the steps that do it and
  their number; it holds under fair scheduling.

  \<^bold>\<open>Not modelled.\<close> The framework go-zero (reading of YAML, matching of routes with parameters,
  timeouts and shedding of requests, the signals that end serving, the end of the program when the
  server cannot be made or started: here a routed request and the return of the server are given), the TLS and the transport of \<open>net/http\<close> (an outcome), the
  operating system's processes (actions; that a process can end is all that is known of it, also
  after its context has ended), SHA-256 (an argument), the verb \<open>%q\<close> of the access log
  (an argument), the texts that only go to the log. The rest of the repository is not the program:
  tests, the image and its scripts, documents, samples.
\<close>

end
